(* ===== verification/Cirrove_Prelude.thy ===== *)
theory Cirrove_Prelude
  imports "HOL-Library.Finite_Map" "HOL-Library.Char_ord" "HOL-Library.List_Lexorder"
    "HOL-Library.Product_Lexorder" "HOL-Library.Word" "HOL-Library.Sublist"
    "HOL-Library.Multiset"
begin

text \<open>
  Shared vocabulary of the development: the byte-string predicates that Rust's
  \<open>str\<close> methods give the sources, lookup-driven enumeration of table rows, the
  result type of fallible operations, and the generic interfaces (state machine
  with an invariant, bounded ring, keyed table) that the components interpret.

  A Rust \<open>String\<close> is the list of its UTF-8 bytes, so \<open>len()\<close> is \<^const>\<open>length\<close> and
  an ASCII character is contained in the string exactly when its byte is.
\<close>

named_theorems result_simps \<open>case analysis of operations that return a result\<close>
named_theorems frame_simps \<open>what an operation leaves unchanged\<close>

section \<open>Results\<close>

text \<open>Rust's \<open>Result<T, E>\<close> is \<open>E + T\<close>; the question mark operator is a case on it.\<close>

definition and_then :: "'e + 'a \<Rightarrow> ('a \<Rightarrow> 'e + 'b) \<Rightarrow> 'e + 'b" where
  "and_then r f = (case r of Inl e \<Rightarrow> Inl e | Inr x \<Rightarrow> f x)"

definition ensure :: "bool \<Rightarrow> 'e \<Rightarrow> 'e + unit" where
  "ensure b e = (if b then Inr () else Inl e)"

definition ok_or :: "'a option \<Rightarrow> 'e \<Rightarrow> 'e + 'a" where
  "ok_or v e = (case v of None \<Rightarrow> Inl e | Some x \<Rightarrow> Inr x)"

lemma and_then_simps [simp]: "and_then (Inl e) f = Inl e" "and_then (Inr x) f = f x"
  by (simp_all add: and_then_def)

lemma and_then_eq_Inr [result_simps]: "and_then r f = Inr y \<longleftrightarrow> (\<exists>x. r = Inr x \<and> f x = Inr y)"
  by (cases r) auto

lemma and_then_eq_Inl [result_simps]:
  "and_then r f = Inl e \<longleftrightarrow> r = Inl e \<or> (\<exists>x. r = Inr x \<and> f x = Inl e)"
  by (cases r) auto

lemma and_then_cong [fundef_cong]:
  "r = r' \<Longrightarrow> (\<And>x. r' = Inr x \<Longrightarrow> f x = g x) \<Longrightarrow> and_then r f = and_then r' g"
  by (cases r') auto

lemma ensure_eq [simp]: "ensure b e = Inr u \<longleftrightarrow> b" "ensure b e = Inl e' \<longleftrightarrow> \<not> b \<and> e = e'"
  by (auto simp: ensure_def)

lemma ensure_simps [simp]: "ensure True e = Inr ()" "ensure False e = Inl e"
  by (simp_all add: ensure_def)

lemma ok_or_eq [simp]:
  "ok_or v e = Inr x \<longleftrightarrow> v = Some x" "ok_or v e = Inl e' \<longleftrightarrow> v = None \<and> e = e'"
  by (auto simp: ok_or_def split: option.splits)

lemma ok_or_simps [simp]: "ok_or None e = Inl e" "ok_or (Some x) e = Inr x"
  by (simp_all add: ok_or_def)

text \<open>Operations on a state return their result with the state they leave, also when they fail.\<close>

definition jbind :: "('e + 'a) \<times> 's \<Rightarrow> ('a \<Rightarrow> 's \<Rightarrow> ('e + 'b) \<times> 's) \<Rightarrow> ('e + 'b) \<times> 's" where
  "jbind r f = (case r of (Inl e, j) \<Rightarrow> (Inl e, j) | (Inr x, j) \<Rightarrow> f x j)"

definition fail :: "'e \<Rightarrow> 's \<Rightarrow> ('e + 'a) \<times> 's" where
  "fail e j = (Inl e, j)"

definition give :: "'a \<Rightarrow> 's \<Rightarrow> ('e + 'a) \<times> 's" where
  "give x j = (Inr x, j)"

lemma jbind_Inr: "jbind r f = (Inr y, j') \<longleftrightarrow> (\<exists>x j. r = (Inr x, j) \<and> f x j = (Inr y, j'))"
  by (cases r; cases "fst r") (auto simp: jbind_def split: sum.splits)

lemma jbind_simps [simp]: "jbind (Inl e, j) f = (Inl e, j)" "jbind (Inr x, j) f = f x j"
  by (simp_all add: jbind_def)

lemma fail_Inr [simp]: "fail e j \<noteq> (Inr x, j')" "fail e j = (Inl e', j') \<longleftrightarrow> e' = e \<and> j' = j"
  by (auto simp: fail_def)

lemma give_Inr [simp]: "give x j = (Inr y, j') \<longleftrightarrow> y = x \<and> j' = j" "give x j \<noteq> (Inl e, j')"
  by (auto simp: give_def)

lemma snd_fail [simp]: "snd (fail e j) = j" and snd_give [simp]: "snd (give x j) = j"
  by (simp_all add: fail_def give_def)

lemma jbind_cong [fundef_cong]:
  "r = r' \<Longrightarrow> (\<And>x s. r' = (Inr x, s) \<Longrightarrow> f x s = g x s) \<Longrightarrow> jbind r f = jbind r' g"
  by (auto simp: jbind_def split: prod.splits sum.splits)

section \<open>Byte strings\<close>

abbreviation byte :: "char \<Rightarrow> nat" where
  "byte c \<equiv> of_char c"

text \<open>\<open>char::is_control\<close> on UTF-8 bytes: C0, DEL, and C1 whose encoding is C2 80..9F.\<close>

fun any_control :: "string \<Rightarrow> bool" where
  "any_control [] = False"
| "any_control (c # cs) = (byte c < 32 \<or> byte c = 127
     \<or> (byte c = 194 \<and> (case cs of [] \<Rightarrow> False | d # _ \<Rightarrow> 128 \<le> byte d \<and> byte d < 160))
     \<or> any_control cs)"

definition ascii_lower :: "char \<Rightarrow> char" where
  "ascii_lower c = (if 65 \<le> byte c \<and> byte c \<le> 90 then char_of (byte c + 32) else c)"

definition to_ascii_lowercase :: "string \<Rightarrow> string" where
  "to_ascii_lowercase s = map ascii_lower s"

definition eq_ignore_ascii_case :: "string \<Rightarrow> string \<Rightarrow> bool" where
  "eq_ignore_ascii_case s t = (to_ascii_lowercase s = to_ascii_lowercase t)"

definition is_lower_hex :: "char \<Rightarrow> bool" where
  "is_lower_hex c = ((48 \<le> byte c \<and> byte c \<le> 57) \<or> (97 \<le> byte c \<and> byte c \<le> 102))"

text \<open>\<open>chars().count()\<close>: one per byte that is not a UTF-8 continuation byte.\<close>

definition chars_count :: "string \<Rightarrow> nat" where
  "chars_count s = length (filter (\<lambda>c. \<not> (128 \<le> byte c \<and> byte c < 192)) s)"

definition ends_with :: "string \<Rightarrow> string \<Rightarrow> bool" where
  "ends_with s suf = suffix suf s"

lemma ends_with_code [code]:
  "ends_with s suf = (length suf \<le> length s \<and> drop (length s - length suf) s = suf)"
  by (auto simp: ends_with_def suffix_def intro: exI [of _ "take (length s - length suf) s"]
      dest: sym) (metis append_take_drop_id)

lemma byte_ascii_lower: "byte (ascii_lower c) = (if 65 \<le> byte c \<and> byte c \<le> 90 then byte c + 32 else byte c)"
  by (auto simp: ascii_lower_def)

lemma ascii_lower_idem [simp]: "ascii_lower (ascii_lower c) = ascii_lower c"
  by (auto simp: ascii_lower_def byte_ascii_lower)

lemma to_ascii_lowercase_simps [simp]:
  "length (to_ascii_lowercase s) = length s"
  "to_ascii_lowercase (to_ascii_lowercase s) = to_ascii_lowercase s"
  by (simp_all add: to_ascii_lowercase_def)

lemma to_ascii_lowercase_drop: "to_ascii_lowercase (drop n s) = drop n (to_ascii_lowercase s)"
  by (simp add: to_ascii_lowercase_def drop_map)

section \<open>Rows of a table\<close>

text \<open>
  A table whose primary key is \<open>(scope, id)\<close> is a finite map. The rows of a scope
  are enumerated in key order, which is SQLite's order of a BINARY key.
\<close>

definition scope_ids :: "'s \<Rightarrow> ('s \<times> 'k::linorder, 'v) fmap \<Rightarrow> 'k list" where
  "scope_ids s t = sorted_list_of_fset (snd |`| ffilter (\<lambda>k. fst k = s) (fmdom t))"

definition scope_rows :: "'s \<Rightarrow> ('s \<times> 'k::linorder, 'v) fmap \<Rightarrow> ('k \<times> 'v) list" where
  "scope_rows s t =
     List.map_filter (\<lambda>i. map_option (Pair i) (fmlookup t (s, i))) (scope_ids s t)"

definition delete_scope :: "'s \<Rightarrow> ('s \<times> 'k, 'v) fmap \<Rightarrow> ('s \<times> 'k, 'v) fmap" where
  "delete_scope s t = fmfilter (\<lambda>k. fst k \<noteq> s) t"

lemma set_scope_ids: "i \<in> set (scope_ids s t) \<longleftrightarrow> fmlookup t (s, i) \<noteq> None"
  by (force simp: scope_ids_def fmlookup_dom_iff)

lemma distinct_scope_ids [simp]: "distinct (scope_ids s t)"
  by (simp add: scope_ids_def sorted_list_of_fset.rep_eq)

lemma sorted_scope_ids [simp]: "sorted (scope_ids s t)"
  by (simp add: scope_ids_def sorted_list_of_fset.rep_eq)

lemma set_scope_rows [simp]: "(i, v) \<in> set (scope_rows s t) \<longleftrightarrow> fmlookup t (s, i) = Some v"
  by (force simp: scope_rows_def List.map_filter_def set_scope_ids)

lemma fst_scope_rows: "map fst (scope_rows s t) = scope_ids s t"
proof -
  have "\<forall>i \<in> set ks. fmlookup t (s, i) \<noteq> None \<Longrightarrow>
      map fst (List.map_filter (\<lambda>i. map_option (Pair i) (fmlookup t (s, i))) ks) = ks" for ks
    by (induction ks) (auto simp: List.map_filter_simps)
  then show ?thesis
    by (simp add: scope_rows_def set_scope_ids)
qed

lemma distinct_scope_rows [simp]: "distinct (scope_rows s t)"
  by (metis fst_scope_rows distinct_scope_ids distinct_map)

lemma fmlookup_delete_scope [simp]:
  "fmlookup (delete_scope s t) k = (if fst k = s then None else fmlookup t k)"
  by (simp add: delete_scope_def)

lemma scope_rows_cong:
  assumes "\<And>i. fmlookup t (s, i) = fmlookup u (s, i)"
  shows "scope_rows s t = scope_rows s u"
proof -
  have "fset (snd |`| ffilter (\<lambda>k. fst k = s) (fmdom t)) =
        fset (snd |`| ffilter (\<lambda>k. fst k = s) (fmdom u))"
    using assms by (force simp: fmlookup_dom_iff)
  then have "scope_ids s t = scope_ids s u"
    by (simp add: scope_ids_def sorted_list_of_fset.rep_eq)
  then show ?thesis
    by (simp add: scope_rows_def assms)
qed

lemma map_of_scope_rows [simp]: "map_of (scope_rows s t) i = fmlookup t (s, i)"
proof (cases "fmlookup t (s, i)")
  case None
  then have "i \<notin> fst ` set (scope_rows s t)"
    by (metis fst_scope_rows list.set_map set_scope_ids)
  then show ?thesis
    using None by (simp add: map_of_eq_None_iff)
next
  case (Some v)
  then show ?thesis
    by (metis fst_scope_rows distinct_scope_ids map_of_is_SomeI set_scope_rows)
qed

text \<open>\<open>INSERT ... ON CONFLICT DO UPDATE\<close> of a list of rows of one scope.\<close>

definition upsert_rows :: "'s \<Rightarrow> ('k \<times> 'v) list \<Rightarrow> ('s \<times> 'k, 'v) fmap \<Rightarrow> ('s \<times> 'k, 'v) fmap" where
  "upsert_rows s rows t = fold (\<lambda>(i, v). fmupd (s, i) v) rows t"

lemma fmlookup_upsert_rows:
  "fmlookup (upsert_rows s rows t) (s', i) =
     (case if s' = s then map_of (rev rows) i else None of
        None \<Rightarrow> fmlookup t (s', i) | Some v \<Rightarrow> Some v)"
  by (induction rows rule: rev_induct) (auto simp: upsert_rows_def)

lemma map_of_rev_distinct: "distinct (map fst rows) \<Longrightarrow> map_of (rev rows) = map_of rows"
  by (subst map_of_inject_set) (auto simp: rev_map [symmetric])

lemma fmlookup_upsert_distinct:
  "distinct (map fst rows) \<Longrightarrow>
   fmlookup (upsert_rows s rows t) (s', i) =
     (case if s' = s then map_of rows i else None of
        None \<Rightarrow> fmlookup t (s', i) | Some v \<Rightarrow> Some v)"
  by (simp add: fmlookup_upsert_rows map_of_rev_distinct)

text \<open>\<open>DELETE\<close> and marking of a list of keys of one scope at one value.\<close>

definition put_keys :: "'s \<Rightarrow> 'k list \<Rightarrow> 'v \<Rightarrow> ('s \<times> 'k, 'v) fmap \<Rightarrow> ('s \<times> 'k, 'v) fmap" where
  "put_keys s ks v t = fold (\<lambda>i. fmupd (s, i) v) ks t"

definition drop_keys :: "'s \<Rightarrow> 'k list \<Rightarrow> ('s \<times> 'k, 'v) fmap \<Rightarrow> ('s \<times> 'k, 'v) fmap" where
  "drop_keys s ks t = fold (\<lambda>i. fmdrop (s, i)) ks t"

lemma fmlookup_put_keys [simp]:
  "fmlookup (put_keys s ks v t) k = (if fst k = s \<and> snd k \<in> set ks then Some v else fmlookup t k)"
  by (induction ks arbitrary: t) (auto simp: put_keys_def)

lemma fmlookup_drop_keys [simp]:
  "fmlookup (drop_keys s ks t) k = (if fst k = s \<and> snd k \<in> set ks then None else fmlookup t k)"
  by (induction ks arbitrary: t) (auto simp: drop_keys_def)

text \<open>The values of a table in key order.\<close>

definition fm_values :: "('k::linorder, 'v) fmap \<Rightarrow> 'v list" where
  "fm_values t = List.map_filter (fmlookup t) (sorted_list_of_fset (fmdom t))"

lemma set_fm_values: "v \<in> set (fm_values t) \<longleftrightarrow> (\<exists>k. fmlookup t k = Some v)"
  by (force simp: fm_values_def List.map_filter_def fmlookup_dom_iff)

lemma fm_values_eq: "fm_values t = map (\<lambda>k. the (fmlookup t k)) (sorted_list_of_fset (fmdom t))"
proof -
  have "\<forall>k \<in> set ks. fmlookup t k \<noteq> None \<Longrightarrow>
      List.map_filter (fmlookup t) ks = map (\<lambda>k. the (fmlookup t k)) ks" for ks
    by (induction ks) (auto simp: List.map_filter_simps)
  then show ?thesis
    by (simp add: fm_values_def fmlookup_dom_iff)
qed

lemma set_sorted_fmdom: "k \<in> set (sorted_list_of_fset (fmdom t)) \<longleftrightarrow> fmlookup t k \<noteq> None"
  by (simp add: fmlookup_dom_iff)

lemma fm_values_keys:
  assumes "\<And>k v. fmlookup t k = Some v \<Longrightarrow> f v = k"
  shows "map f (fm_values t) = sorted_list_of_fset (fmdom t)" and "distinct (map f (fm_values t))"
proof -
  show "map f (fm_values t) = sorted_list_of_fset (fmdom t)"
    unfolding fm_values_eq by (rule map_idI [THEN trans [rotated]]) (auto simp: fmlookup_dom_iff assms)
  then show "distinct (map f (fm_values t))"
    by (simp add: sorted_list_of_fset.rep_eq)
qed

section \<open>Ordered results\<close>

text \<open>
  A query result is an unordered union of row sets that is sorted by name and
  identity. Looking up one name, or one identity, restricts the union instead of
  sorting it; the locale shows that both agree with the sorted listing as long as
  no identity comes from two arms of the union.
\<close>

type_synonym 'b row = "string \<times> string \<times> 'b"

definition by_name_id :: "'b row list \<Rightarrow> 'b row list" where
  "by_name_id rows = sort_key (\<lambda>(name, i, _). (name, i)) rows"

definition first_of_name :: "string \<Rightarrow> 'b row list \<Rightarrow> 'b row option" where
  "first_of_name nm rows =
     (case sort_key (\<lambda>(_, i, _). i) (filter (\<lambda>(name, _, _). name = nm) rows) of
        [] \<Rightarrow> None | r # _ \<Rightarrow> Some r)"

definition first_of_id :: "string \<Rightarrow> 'b row list \<Rightarrow> 'b row option" where
  "first_of_id i rows = (case filter (\<lambda>(_, j, _). j = i) rows of [] \<Rightarrow> None | r # _ \<Rightarrow> Some r)"

lemma find_as_filter: "find P xs = (case filter P xs of [] \<Rightarrow> None | x # _ \<Rightarrow> Some x)"
  by (induction xs) auto

lemma sort_key_order_cong:
  assumes "\<And>x y. x \<in> set xs \<Longrightarrow> y \<in> set xs \<Longrightarrow> f x \<le> f y \<longleftrightarrow> g x \<le> g y"
  shows "sort_key f xs = sort_key g xs"
proof -
  have ins: "insort_key f x ys = insort_key g x ys"
    if "\<And>y. y \<in> set ys \<Longrightarrow> f x \<le> f y \<longleftrightarrow> g x \<le> g y" for x ys
    using that by (induction ys) auto
  show ?thesis
    using assms by (induction xs) (auto intro: ins)
qed

lemma sorted_key_unique:
  assumes "sorted (map k xs)" "sorted (map k ys)" "distinct (map k xs)" "distinct (map k ys)"
    and "set xs = set ys"
  shows "xs = ys"
proof -
  have "map k xs = map k ys"
    using assms by (intro sorted_distinct_set_unique) auto
  moreover have "inj_on k (set xs \<union> set ys)"
    using assms(3,5) by (simp add: distinct_map)
  ultimately show ?thesis
    by (rule map_inj_on)
qed

locale union_rows =
  fixes rows :: "'q \<Rightarrow> 'b row list"
  assumes distinct_ids: "distinct (map (fst \<circ> snd) (rows q))"
begin

lemma distinct_listing: "distinct (map (fst \<circ> snd) (by_name_id (rows q)))"
proof -
  have "mset (map (fst \<circ> snd) (by_name_id (rows q))) = mset (map (fst \<circ> snd) (rows q))"
    by (simp add: by_name_id_def)
  then show ?thesis
    using distinct_ids mset_eq_imp_distinct_iff by blast
qed

lemma sorted_listing: "sorted (map (\<lambda>(name, i, _). (name, i)) (by_name_id (rows q)))"
  by (simp add: by_name_id_def)

lemma set_listing: "set (by_name_id (rows q)) = set (rows q)"
  by (simp add: by_name_id_def)

lemma name_lookup_eq_listing:
  "first_of_name nm (rows q) = find (\<lambda>(name, _, _). name = nm) (by_name_id (rows q))"
proof -
  have "sort_key (\<lambda>(_, i, _). i) (filter (\<lambda>(name, _, _). name = nm) (rows q)) =
        filter (\<lambda>(name, _, _). name = nm) (by_name_id (rows q))"
    by (auto simp: by_name_id_def filter_sort intro!: sort_key_order_cong)
  then show ?thesis
    by (simp add: first_of_name_def find_as_filter)
qed

lemma id_lookup_eq_listing:
  "first_of_id i (rows q) = find (\<lambda>(_, j, _). j = i) (by_name_id (rows q))"
proof (cases "filter (\<lambda>(_, j, _). j = i) (rows q)")
  case Nil
  then show ?thesis
    by (auto simp: first_of_id_def find_as_filter by_name_id_def filter_sort)
next
  case (Cons r rs)
  have "distinct (map (fst \<circ> snd) (filter (\<lambda>(_, j, _). j = i) (rows q)))"
    using distinct_ids by (rule distinct_map_filter)
  moreover have "x \<in> set (r # rs) \<Longrightarrow> (fst \<circ> snd) x = i" for x
    using arg_cong [OF Cons, of set] by (metis (mono_tags, lifting) case_prodE comp_apply fst_conv mem_Collect_eq set_filter snd_conv)
  ultimately have "rs = []"
    using Cons by (cases rs) auto
  then show ?thesis
    using Cons by (simp add: first_of_id_def find_as_filter by_name_id_def filter_sort)
qed

end

section \<open>Integers of the database\<close>

text \<open>The largest integer and row identity SQLite stores.\<close>

definition i64_max :: int where
  "i64_max = 2 ^ 63 - 1"

text \<open>The largest values of \<open>u32\<close> and \<open>u64\<close>, where the code saturates or checks.\<close>

definition u32_max :: int where
  "u32_max = 2 ^ 32 - 1"

definition u64_max :: int where
  "u64_max = 2 ^ 64 - 1"

section \<open>State machines\<close>

text \<open>
  An operation interface and a predicate every operation keeps. The components
  interpret it on the sum of their operations, so that the predicate holds after
  every finite sequence of calls, in whatever order the callers interleave them.
\<close>

locale machine =
  fixes exec :: "'op \<Rightarrow> 's \<Rightarrow> 's"
    and inv :: "'s \<Rightarrow> bool"
  assumes exec_inv: "inv s \<Longrightarrow> inv (exec op s)"
begin

lemma run_inv: "inv s \<Longrightarrow> inv (fold exec ops s)"
  by (induction ops arbitrary: s) (simp_all add: exec_inv)

lemma run_inv_prefix: "inv s \<Longrightarrow> prefix ops' ops \<Longrightarrow> inv (fold exec ops' s)"
  by (rule run_inv)

end

text \<open>
  A machine whose operations relate the state they leave to the state they found,
  so that a later state still satisfies whatever the relation carries forward.
\<close>

locale evolving_machine = machine +
  fixes evolves :: "'b \<Rightarrow> 'b \<Rightarrow> bool"
  assumes evolves_refl: "evolves s s"
    and evolves_trans: "evolves s t \<Longrightarrow> evolves t u \<Longrightarrow> evolves s u"
    and exec_evolves: "inv s \<Longrightarrow> evolves s (exec op s)"
begin

lemma run_evolves: "inv s \<Longrightarrow> evolves s (fold exec ops s)"
proof (induction ops arbitrary: s)
  case Nil
  then show ?case
    by (simp add: evolves_refl)
next
  case (Cons op ops)
  then show ?case
    using evolves_trans [OF exec_evolves [OF Cons.prems] Cons.IH [OF exec_inv [OF Cons.prems]]] by simp
qed

end

section \<open>Bounded rings\<close>

text \<open>
  Several components keep the last few events: a value is appended and the oldest
  are dropped while there are more than a fixed number.
\<close>

definition retain_last :: "nat \<Rightarrow> 'a list \<Rightarrow> 'a list" where
  "retain_last n xs = drop (length xs - n) xs"

lemma length_retain_last [simp]: "length (retain_last n xs) = min n (length xs)"
  by (simp add: retain_last_def)

lemma retain_last_short [simp]: "length xs \<le> n \<Longrightarrow> retain_last n xs = xs"
  by (simp add: retain_last_def)

lemma suffix_retain_last: "suffix (retain_last n xs) xs"
  by (simp add: retain_last_def suffix_drop)

lemma retain_last_append:
  "retain_last n (retain_last n xs @ ys) = retain_last n (xs @ ys)"
  by (cases "length xs \<le> n") (auto simp: retain_last_def min_def add.commute)

section \<open>Programs that follow a protocol\<close>

text \<open>A program follows a protocol when what can be seen of its state changes by steps of the
  protocol only. Programs are put together with \<open>jbind\<close>; what a protocol keeps, a program
  that follows it keeps.\<close>

locale stepwise =
  fixes step :: "'p \<Rightarrow> 'p \<Rightarrow> bool" and seen :: "'w \<Rightarrow> 'p"
begin

definition leads :: "'w \<Rightarrow> 'w \<Rightarrow> bool" where
  "leads w w' \<longleftrightarrow> step\<^sup>*\<^sup>* (seen w) (seen w')"

lemma leads_refl: "leads w w"
  by (simp add: leads_def)

lemma leads_seen: "seen w' = seen w \<Longrightarrow> leads w w'"
  by (simp add: leads_def)

lemma leads_step: "step (seen w) (seen w') \<Longrightarrow> leads w w'"
  by (simp add: leads_def)

lemma leads_trans: "leads w w1 \<Longrightarrow> leads w1 w' \<Longrightarrow> leads w w'"
  by (simp add: leads_def)

lemma leads_jbind:
  assumes "leads w (snd m)" "\<And>x w1. m = (Inr x, w1) \<Longrightarrow> leads w1 (snd (f x w1))"
  shows "leads w (snd (jbind m f))"
  using assms by (cases m; cases "fst m") (auto intro: leads_trans)

text \<open>\<open>yields\<close>: the program follows the protocol, and what it returns satisfies a predicate.\<close>

definition yields :: "'w \<Rightarrow> ('e + 'a) \<times> 'w \<Rightarrow> ('a \<Rightarrow> bool) \<Rightarrow> bool" where
  "yields w m good \<longleftrightarrow> leads w (snd m) \<and> (\<forall>x. fst m = Inr x \<longrightarrow> good x)"

lemma yields_give: "good x \<Longrightarrow> leads w w' \<Longrightarrow> yields w (give x w') good"
  by (simp add: yields_def give_def)

lemma yields_fail: "leads w w' \<Longrightarrow> yields w (fail e w') good"
  by (simp add: yields_def fail_def)

lemma yields_jbind:
  assumes "yields w m good" "\<And>x w1. m = (Inr x, w1) \<Longrightarrow> good x \<Longrightarrow> leads w w1 \<Longrightarrow> yields w1 (f x w1) great"
  shows "yields w (jbind m f) great"
  using assms by (cases m; cases "fst m") (auto simp: yields_def intro: leads_trans)

lemma yields_after: "leads w w1 \<Longrightarrow> yields w1 m good \<Longrightarrow> yields w m good"
  by (auto simp: yields_def intro: leads_trans)

lemma leads_keeps:
  assumes "\<And>s s'. step s s' \<Longrightarrow> kept s \<Longrightarrow> kept s'" "leads w w'" "kept (seen w)"
  shows "kept (seen w')"
proof -
  have "step\<^sup>*\<^sup>* s s' \<Longrightarrow> kept s \<Longrightarrow> kept s'" for s s'
    by (induction rule: rtranclp_induct) (auto intro: assms(1))
  then show ?thesis
    using assms(2,3) by (simp add: leads_def)
qed

end

end
