(* ===== verification/Core_Types.thy ===== *)
theory Core_Types
  imports Cirrove_Prelude
begin

text \<open>
  The provider-neutral metadata contracts of \<open>cirrove-core\<close> (\<open>lib.rs\<close>, \<open>reads.rs\<close>,
  \<open>notifications.rs\<close>): scopes, nodes, change pages, the identity a read session is
  bound to, the change-hint channel and the request budget's four separate pools.
\<close>

record scope =
  account :: string
  provider :: string
  collection :: string

datatype node_kind = File | Folder | Shortcut

record remote_ref =
  ref_collection :: string
  ref_item :: string
  ref_kind :: "node_kind option"

record node =
  node_id :: string
  parent_id :: "string option"
  node_name :: string
  node_kind :: node_kind
  node_size :: "64 word"
  modified_unix :: "64 word"
  etag :: "string option"
  content_version :: "string option"
  node_target :: "remote_ref option"
  package :: bool

text \<open>\<open>Node::content_revision\<close>: a non-empty content tag, else a non-empty ETag.\<close>

definition nonempty_tag :: "string option \<Rightarrow> string option" where
  "nonempty_tag t = (case t of None \<Rightarrow> None | Some s \<Rightarrow> if s = [] then None else Some s)"

definition content_revision :: "node \<Rightarrow> (string \<times> string) option" where
  "content_revision n =
     (case map_option (\<lambda>tag. (''content'', tag)) (nonempty_tag (content_version n)) of
        Some r \<Rightarrow> Some r
      | None \<Rightarrow> map_option (\<lambda>tag. (''etag'', tag)) (nonempty_tag (etag n)))"

datatype change = Upsert node | Delete string

type_synonym cursor = string

type_synonym uuid = string

datatype checkpoint = Continue cursor | Complete cursor

fun checkpoint_cursor :: "checkpoint \<Rightarrow> cursor" where
  "checkpoint_cursor (Continue c) = c"
| "checkpoint_cursor (Complete c) = c"

fun checkpoint_complete :: "checkpoint \<Rightarrow> bool" where
  "checkpoint_complete (Continue c) = False"
| "checkpoint_complete (Complete c) = True"

record change_page =
  page_changes :: "change list"
  page_checkpoint :: checkpoint

datatype feed_mode = Incremental | FullSnapshot

datatype provider_error = VersionChanged | Cancelled | Authentication | Permission | NotFound
  | CursorExpired | Throttled nat | Unavailable | Protocol string

record directory_page =
  page_nodes :: "node list"
  page_next :: "cursor option"

datatype name_problem = TooLong | InvalidName string

section \<open>Read identity\<close>

record read_identity =
  rid_scope :: scope
  rid_item :: string
  revision_namespace :: string
  revision :: string
  rid_size :: "64 word"

definition read_identity_new :: "scope \<Rightarrow> node \<Rightarrow> provider_error + read_identity" where
  "read_identity_new s n =
     and_then (ok_or (content_revision n) (Protocol ''file has no version tag'')) (\<lambda>(namespace, rev).
     if node_kind n \<noteq> File then Inl (Protocol ''read session requires a file'')
     else Inr \<lparr>rid_scope = s, rid_item = node_id n, revision_namespace = namespace,
               revision = rev, rid_size = node_size n\<rparr>)"

lemma content_revision_cases:
  "content_revision n = Some (ns, r) \<longleftrightarrow> r \<noteq> [] \<and>
     (ns = ''content'' \<and> content_version n = Some r
      \<or> ns = ''etag'' \<and> etag n = Some r \<and> content_version n \<in> {None, Some []})"
  by (auto simp: content_revision_def nonempty_tag_def split: option.splits if_splits)

section \<open>Change hints\<close>

datatype notification_state = Polling | Connecting | Connected | Retrying | SignInRequired

record change_hint =
  generation :: "64 word"
  hint_state :: notification_state

definition change_hint_default :: change_hint where
  "change_hint_default = \<lparr>generation = 0, hint_state = Polling\<rparr>"

definition hint_changed :: "change_hint \<Rightarrow> change_hint" where
  "hint_changed h = h\<lparr>generation := generation h + 1\<rparr>"

definition hint_connected :: "change_hint \<Rightarrow> change_hint" where
  "hint_connected h = h\<lparr>hint_state := Connected, generation := generation h + 1\<rparr>"

definition hint_set_state :: "notification_state \<Rightarrow> change_hint \<Rightarrow> change_hint" where
  "hint_set_state st h = h\<lparr>hint_state := st\<rparr>"

datatype watch_end = Unsupported | Renew

datatype hint_op = Changed | ConnectedHint | SetState notification_state

fun hint_exec :: "hint_op \<Rightarrow> change_hint \<Rightarrow> change_hint" where
  "hint_exec Changed h = hint_changed h"
| "hint_exec ConnectedHint h = hint_connected h"
| "hint_exec (SetState st) h = hint_set_state st h"

fun is_signal :: "hint_op \<Rightarrow> bool" where
  "is_signal (SetState st) = False"
| "is_signal op = True"

lemma generation_hint_exec:
  "generation (hint_exec op h) = generation h + (if is_signal op then 1 else 0)"
  by (cases op) (simp_all add: hint_changed_def hint_connected_def hint_set_state_def)

lemma generation_counts:
  "generation (fold hint_exec ops h) = generation h + of_nat (length (filter is_signal ops))"
  by (induction ops arbitrary: h) (auto simp: generation_hint_exec)

section \<open>Request budget\<close>

datatype priority = Interactive | Background | Content | UploadPriority

text \<open>
  The pools hold tokio semaphores, which the model takes as a parameter: polling
  one either grants a permit and leaves the semaphore with one less, or reports
  it closed, or leaves the caller waiting.
\<close>

datatype 's acquire_poll = Granted 's | Closed | Waiting

record 's request_budget =
  interactive :: 's
  background :: 's
  content :: 's
  uploads :: 's

definition budget_default :: "(nat \<Rightarrow> 's) \<Rightarrow> 's request_budget" where
  "budget_default new = \<lparr>interactive = new 4, background = new 1, content = new 4, uploads = new 2\<rparr>"

fun pool_of :: "priority \<Rightarrow> 's request_budget \<Rightarrow> 's" where
  "pool_of Interactive b = interactive b"
| "pool_of Background b = background b"
| "pool_of Content b = content b"
| "pool_of UploadPriority b = uploads b"

fun set_pool :: "priority \<Rightarrow> 's \<Rightarrow> 's request_budget \<Rightarrow> 's request_budget" where
  "set_pool Interactive p b = b\<lparr>interactive := p\<rparr>"
| "set_pool Background p b = b\<lparr>background := p\<rparr>"
| "set_pool Content p b = b\<lparr>content := p\<rparr>"
| "set_pool UploadPriority p b = b\<lparr>uploads := p\<rparr>"

text \<open>
  \<open>RequestBudget::acquire\<close>: the biased select looks at the cancellation first;
  \<open>None\<close> is a future that is still pending.
\<close>

definition acquire ::
    "('s \<Rightarrow> 's acquire_poll) \<Rightarrow> priority \<Rightarrow> bool \<Rightarrow> 's request_budget
       \<Rightarrow> (provider_error + 's request_budget) option" where
  "acquire poll p cancelled b =
     (if cancelled then Some (Inl Cancelled)
      else case poll (pool_of p b) of
        Granted q \<Rightarrow> Some (Inr (set_pool p q b))
      | Closed \<Rightarrow> Some (Inl Unavailable)
      | Waiting \<Rightarrow> None)"

lemma pool_of_set_pool [simp]:
  "pool_of q (set_pool p x b) = (if q = p then x else pool_of q b)"
  by (cases p; cases q) auto

section \<open>Guarantees\<close>

text \<open>Two reads share an identity only if they name the same item of the same
  scope with the same size and the same revision in the same tag namespace: equal
  content tags, or, where neither node has a content tag, equal ETags. A content
  tag never collides with an ETag of the same text.\<close>

theorem read_identity_separates_revisions:
  assumes "read_identity_new s n = Inr a" and "read_identity_new s' m = Inr b"
  shows "a = b \<longleftrightarrow> s = s' \<and> node_id n = node_id m \<and> node_size n = node_size m
    \<and> (if nonempty_tag (content_version n) = None \<and> nonempty_tag (content_version m) = None
       then etag n = etag m else content_version n = content_version m)"
proof -
  obtain x y where xy: "content_revision n = Some x" "content_revision m = Some y"
    using assms by (auto simp: read_identity_new_def result_simps)
  then have "a = b \<longleftrightarrow> s = s' \<and> node_id n = node_id m \<and> node_size n = node_size m \<and> x = y"
    using assms by (auto simp: read_identity_new_def result_simps split: prod.splits if_splits)
  moreover have "x = y \<longleftrightarrow> (if nonempty_tag (content_version n) = None \<and> nonempty_tag (content_version m) = None
       then etag n = etag m else content_version n = content_version m)"
    using xy by (auto simp: content_revision_def nonempty_tag_def split: option.splits if_splits)
  ultimately show ?thesis
    by simp
qed

theorem read_identity_separates_revisions_witness:
  "let n = \<lparr>node_id = ''1'', parent_id = None, node_name = ''x'', node_kind = File, node_size = 3, modified_unix = 0,
            etag = Some ''t'', content_version = None, node_target = None, package = False\<rparr>;
       s = \<lparr>account = ''a'', provider = ''p'', collection = ''c''\<rparr>;
       m = n\<lparr>etag := None, content_version := Some ''t''\<rparr>
   in read_identity_new s n \<noteq> read_identity_new s m"
proof -
  define n where "n = \<lparr>node_id = ''1'', parent_id = None, node_name = ''x'', node_kind = File, node_size = 3, modified_unix = 0,
            etag = Some ''t'', content_version = None, node_target = None, package = False\<rparr>"
  define s where "s = \<lparr>account = ''a'', provider = ''p'', collection = ''c''\<rparr>"
  obtain a b where ab: "read_identity_new s n = Inr a" "read_identity_new s (n\<lparr>etag := None, content_version := Some ''t''\<rparr>) = Inr b"
    by (simp add: read_identity_new_def content_revision_def nonempty_tag_def n_def)
  show ?thesis
    using read_identity_separates_revisions [OF ab] ab unfolding n_def [symmetric] s_def [symmetric] Let_def
    by (simp add: n_def nonempty_tag_def)
qed

end
