(* ===== verification/Store_State.thy ===== *)
theory Store_State
  imports Core_Types
begin

text \<open>
  The tables of the metadata database (\<open>cirrove-store\<close>, schema version 8), the
  database clock that orders network observations, the revision marks, and the
  resolution of one item (\<open>Store::node\<close>).

  A table is a finite map on its primary key. A row's \<open>body\<close> column is the node it
  encodes; the \<open>scope\<close> column is the scope itself, since \<open>Store::key\<close> is the JSON
  text of the scope record. A fallible operation returns the error or the result
  with the new state; an error leaves the transaction uncommitted.
\<close>

section \<open>Tables\<close>

datatype store_error = Database | Encoding | NoRefresh | OutOfOrder | SchemaVersion
  | InvalidDirectorySnapshot | DirectoryLimit | StoreCancelled

type_synonym item_key = "scope \<times> string"

record feed_row =
  fd_cursor :: "cursor option"
  fd_pending :: bool
  fd_next_cursor :: "cursor option"
  fd_reset :: bool

record observed_row =
  ob_body :: node
  ob_seen :: int
  ob_source_revision :: int

record directory_row =
  dir_seen :: int
  dir_source_revision :: int

record entry_row =
  en_name :: string
  en_body :: node

record source_row =
  src_source :: "node option"
  src_legacy :: "node option"

record db =
  feeds :: "(scope, feed_row) fmap"
  nodes :: "(item_key, node) fmap"
  staged :: "(item_key, node option) fmap"
  observed :: "(item_key, observed_row) fmap"
  directories :: "(item_key, directory_row) fmap"
  directory_entries :: "(item_key \<times> string, entry_row) fmap"
  directory_sources :: "(item_key, source_row) fmap"
  rounds :: "(scope, int) fmap"
  observed_absent :: "(item_key, int) fmap"
  clock_identity :: string
  clock_revision :: int
  metadata_versions :: "(scope \<times> nat \<times> string, int) fmap"

text \<open>A database that \<open>Store::open\<close> has just created; its identity is random.\<close>

definition empty_db :: "string \<Rightarrow> db" where
  "empty_db ident = \<lparr>feeds = fmempty, nodes = fmempty, staged = fmempty, observed = fmempty,
     directories = fmempty, directory_entries = fmempty, directory_sources = fmempty,
     rounds = fmempty, observed_absent = fmempty, clock_identity = ident,
     clock_revision = 0, metadata_versions = fmempty\<rparr>"

section \<open>The metadata clock and revision marks\<close>

definition clock :: "db \<Rightarrow> string \<times> int" where
  "clock d = (clock_identity d, clock_revision d)"

definition advance :: "db \<Rightarrow> store_error + (int \<times> db)" where
  "advance d =
     (let rv = snd (clock d) + 1
      in if rv > i64_max then Inl OutOfOrder else Inr (rv, d\<lparr>clock_revision := rv\<rparr>))"

definition mark :: "scope \<Rightarrow> nat \<Rightarrow> string \<Rightarrow> int \<Rightarrow> db \<Rightarrow> db" where
  "mark s kind ident rv d = d\<lparr>metadata_versions := fmupd (s, kind, ident) rv (metadata_versions d)\<rparr>"

definition changed_after :: "db \<Rightarrow> scope \<Rightarrow> nat \<Rightarrow> string \<Rightarrow> int \<Rightarrow> bool" where
  "changed_after d s kind ident rv =
     (case fmlookup (metadata_versions d) (s, kind, ident) of None \<Rightarrow> False | Some v \<Rightarrow> v > rv)"

text \<open>A loop of \<^const>\<open>mark\<close> calls with one kind and one revision.\<close>

definition mark_all :: "scope \<Rightarrow> nat \<Rightarrow> string list \<Rightarrow> int \<Rightarrow> db \<Rightarrow> db" where
  "mark_all s kind idents rv d = fold (\<lambda>i. mark s kind i rv) idents d"

lemma mark_all_eq:
  "mark_all s kind idents rv d =
     d\<lparr>metadata_versions := fold (\<lambda>i. fmupd (s, kind, i) rv) idents (metadata_versions d)\<rparr>"
  by (induction idents arbitrary: d) (simp_all add: mark_all_def mark_def)

lemma versions_fold [simp]:
  "fmlookup (fold (\<lambda>i. fmupd (s, kind, i) rv) idents t) (s', kind', i') =
     (if s' = s \<and> kind' = kind \<and> i' \<in> set idents then Some rv else fmlookup t (s', kind', i'))"
  by (induction idents arbitrary: t) auto

lemma versions_mark_all:
  "fmlookup (metadata_versions (mark_all s kind idents rv d)) (s', kind', i) =
     (if s' = s \<and> kind' = kind \<and> i \<in> set idents then Some rv
      else fmlookup (metadata_versions d) (s', kind', i))"
  by (simp add: mark_all_eq)

text \<open>The newest mark that covers an identity: its own, or its scope's reset.\<close>

definition mark_of :: "db \<Rightarrow> scope \<Rightarrow> nat \<Rightarrow> string \<Rightarrow> int" where
  "mark_of d s kind ident =
     (case fmlookup (metadata_versions d) (s, kind, ident) of None \<Rightarrow> -1 | Some v \<Rightarrow> v)"

definition effective_mark :: "db \<Rightarrow> scope \<Rightarrow> nat \<Rightarrow> string \<Rightarrow> int" where
  "effective_mark d s kind ident = max (mark_of d s kind ident) (mark_of d s 0 '''')"

lemma changed_after_iff: "0 \<le> rv \<Longrightarrow> changed_after d s kind ident rv \<longleftrightarrow> mark_of d s kind ident > rv"
  by (auto simp: changed_after_def mark_of_def split: option.splits)

lemma advance_cases [result_simps]:
  "advance d = Inr (rv, d') \<longleftrightarrow>
     rv = clock_revision d + 1 \<and> rv \<le> i64_max \<and> d' = d\<lparr>clock_revision := rv\<rparr>"
  "advance d = Inl e \<longleftrightarrow> e = OutOfOrder \<and> i64_max \<le> clock_revision d"
  by (auto simp: advance_def clock_def Let_def)

section \<open>Resolving one item\<close>

definition node_on :: "db \<Rightarrow> scope \<Rightarrow> string \<Rightarrow> node option" where
  "node_on d s i =
     (if fmlookup (observed_absent d) (s, i) \<noteq> None then None
      else case fmlookup (observed d) (s, i) of
             Some r \<Rightarrow> Some (ob_body r)
           | None \<Rightarrow> fmlookup (nodes d) (s, i))"

definition has_parent :: "string \<Rightarrow> node \<Rightarrow> bool" where
  "has_parent p n = (parent_id n = Some p)"

lemma node_on_cong:
  assumes "fmlookup (observed_absent d) (s, i) = fmlookup (observed_absent e) (s, i)"
    and "fmlookup (observed d) (s, i) = fmlookup (observed e) (s, i)"
    and "fmlookup (nodes d) (s, i) = fmlookup (nodes e) (s, i)"
  shows "node_on d s i = node_on e s i"
  using assms by (simp add: node_on_def split: option.splits)

section \<open>Well-formed databases\<close>

text \<open>
  What every committed state satisfies: a body is stored under its own identity,
  an item is never both observed and observed absent, the foreign keys and the
  check constraint of \<open>directory_sources\<close> hold, and no row is newer than the clock.
\<close>

definition bodies_ok :: "db \<Rightarrow> bool" where
  "bodies_ok d \<longleftrightarrow>
     (\<forall>s i n. fmlookup (nodes d) (s, i) = Some n \<longrightarrow> node_id n = i)
   \<and> (\<forall>s i n. fmlookup (staged d) (s, i) = Some (Some n) \<longrightarrow> node_id n = i)
   \<and> (\<forall>s i r. fmlookup (observed d) (s, i) = Some r \<longrightarrow> node_id (ob_body r) = i)
   \<and> (\<forall>p i e. fmlookup (directory_entries d) (p, i) = Some e \<longrightarrow>
        node_id (en_body e) = i \<and> en_name e = node_name (en_body e))"

definition exclusive_ok :: "db \<Rightarrow> bool" where
  "exclusive_ok d \<longleftrightarrow>
     (\<forall>k. fmlookup (observed d) k = None \<or> fmlookup (observed_absent d) k = None)"

definition keys_ok :: "db \<Rightarrow> bool" where
  "keys_ok d \<longleftrightarrow>
     (\<forall>p i. fmlookup (directory_entries d) (p, i) \<noteq> None \<longrightarrow> fmlookup (directories d) p \<noteq> None)
   \<and> (\<forall>p r. fmlookup (directory_sources d) p = Some r \<longrightarrow>
        fmlookup (directories d) p \<noteq> None \<and> (src_source r = None \<longleftrightarrow> src_legacy r \<noteq> None))"

definition revisions_ok :: "db \<Rightarrow> bool" where
  "revisions_ok d \<longleftrightarrow>
     0 \<le> clock_revision d \<and> clock_revision d \<le> i64_max
   \<and> (\<forall>k v. fmlookup (metadata_versions d) k = Some v \<longrightarrow> 0 \<le> v \<and> v \<le> clock_revision d)
   \<and> (\<forall>k r. fmlookup (observed d) k = Some r \<longrightarrow> ob_source_revision r \<le> clock_revision d)
   \<and> (\<forall>k v. fmlookup (observed_absent d) k = Some v \<longrightarrow> v \<le> clock_revision d)
   \<and> (\<forall>k r. fmlookup (directories d) k = Some r \<longrightarrow> dir_source_revision r \<le> clock_revision d)
   \<and> (\<forall>s v. fmlookup (rounds d) s = Some v \<longrightarrow> v \<le> clock_revision d)"

text \<open>A feed row that is not in a round has nothing saved for one, and no staged rows.\<close>

definition feeds_ok :: "db \<Rightarrow> bool" where
  "feeds_ok d \<longleftrightarrow>
     (\<forall>s f. fmlookup (feeds d) s = Some f \<longrightarrow> \<not> fd_pending f \<longrightarrow>
        fd_next_cursor f = None \<and> \<not> fd_reset f)
   \<and> (\<forall>s i. fmlookup (staged d) (s, i) \<noteq> None \<longrightarrow>
        (\<exists>f. fmlookup (feeds d) s = Some f \<and> fd_pending f))"

definition store_ok :: "db \<Rightarrow> bool" where
  "store_ok d \<longleftrightarrow> bodies_ok d \<and> exclusive_ok d \<and> keys_ok d \<and> revisions_ok d \<and> feeds_ok d"

lemmas store_ok_defs = store_ok_def bodies_ok_def exclusive_ok_def keys_ok_def revisions_ok_def
  feeds_ok_def

lemma revisionsD:
  assumes "revisions_ok d"
  shows "fmlookup (metadata_versions d) k = Some v \<Longrightarrow> 0 \<le> v \<and> v \<le> clock_revision d"
    and "fmlookup (observed d) j = Some ob \<Longrightarrow> ob_source_revision ob \<le> clock_revision d"
    and "fmlookup (observed_absent d) j = Some v \<Longrightarrow> v \<le> clock_revision d"
    and "fmlookup (directories d) j = Some row \<Longrightarrow> dir_source_revision row \<le> clock_revision d"
    and "fmlookup (rounds d) s = Some v \<Longrightarrow> v \<le> clock_revision d"
    and "0 \<le> clock_revision d" and "clock_revision d \<le> i64_max"
  using assms unfolding revisions_ok_def by blast+

lemma revisionsI:
  assumes "0 \<le> clock_revision d" and "clock_revision d \<le> i64_max"
    and "\<And>k v. fmlookup (metadata_versions d) k = Some v \<Longrightarrow> 0 \<le> v \<and> v \<le> clock_revision d"
    and "\<And>j ob. fmlookup (observed d) j = Some ob \<Longrightarrow> ob_source_revision ob \<le> clock_revision d"
    and "\<And>j v. fmlookup (observed_absent d) j = Some v \<Longrightarrow> v \<le> clock_revision d"
    and "\<And>j row. fmlookup (directories d) j = Some row \<Longrightarrow> dir_source_revision row \<le> clock_revision d"
    and "\<And>s v. fmlookup (rounds d) s = Some v \<Longrightarrow> v \<le> clock_revision d"
  shows "revisions_ok d"
  using assms unfolding revisions_ok_def by blast

lemma bodiesD:
  assumes "bodies_ok d"
  shows "fmlookup (nodes d) (s, i) = Some n \<Longrightarrow> node_id n = i"
    and "fmlookup (staged d) (s, i) = Some (Some n) \<Longrightarrow> node_id n = i"
    and "fmlookup (observed d) (s, i) = Some ob \<Longrightarrow> node_id (ob_body ob) = i"
    and "fmlookup (directory_entries d) (p, i) = Some e \<Longrightarrow>
      node_id (en_body e) = i \<and> en_name e = node_name (en_body e)"
  using assms unfolding bodies_ok_def by blast+

lemma bodiesI:
  assumes "\<And>s i n. fmlookup (nodes d) (s, i) = Some n \<Longrightarrow> node_id n = i"
    and "\<And>s i n. fmlookup (staged d) (s, i) = Some (Some n) \<Longrightarrow> node_id n = i"
    and "\<And>s i ob. fmlookup (observed d) (s, i) = Some ob \<Longrightarrow> node_id (ob_body ob) = i"
    and "\<And>p i e. fmlookup (directory_entries d) (p, i) = Some e \<Longrightarrow>
      node_id (en_body e) = i \<and> en_name e = node_name (en_body e)"
  shows "bodies_ok d"
  unfolding bodies_ok_def using assms by blast

lemma exclusiveD: "exclusive_ok d \<Longrightarrow> fmlookup (observed d) k = Some ob \<Longrightarrow> fmlookup (observed_absent d) k = None"
  unfolding exclusive_ok_def by (metis option.distinct(1))

lemma exclusiveI:
  "(\<And>k ob v. fmlookup (observed d) k = Some ob \<Longrightarrow> fmlookup (observed_absent d) k = Some v \<Longrightarrow> False)
   \<Longrightarrow> exclusive_ok d"
  unfolding exclusive_ok_def by (metis option.exhaust)

lemma feedsD:
  assumes "feeds_ok d"
  shows "fmlookup (feeds d) s = Some f \<Longrightarrow> \<not> fd_pending f \<Longrightarrow> fd_next_cursor f = None \<and> \<not> fd_reset f"
    and "fmlookup (staged d) (s, i) = Some b \<Longrightarrow> \<exists>f. fmlookup (feeds d) s = Some f \<and> fd_pending f"
  using assms unfolding feeds_ok_def by blast+

lemma feedsI:
  assumes "\<And>s f. fmlookup (feeds d) s = Some f \<Longrightarrow> \<not> fd_pending f \<Longrightarrow> fd_next_cursor f = None \<and> \<not> fd_reset f"
    and "\<And>s i b. fmlookup (staged d) (s, i) = Some b \<Longrightarrow> \<exists>f. fmlookup (feeds d) s = Some f \<and> fd_pending f"
  shows "feeds_ok d"
  unfolding feeds_ok_def using assms by blast

lemma store_ok_empty [simp]: "store_ok (empty_db ident)"
  by (simp add: store_ok_defs empty_db_def i64_max_def)

lemma node_on_id: "bodies_ok d \<Longrightarrow> node_on d s i = Some n \<Longrightarrow> node_id n = i"
  by (auto simp: node_on_def bodies_ok_def split: if_splits option.splits)

lemma effective_mark_le_clock: "revisions_ok d \<Longrightarrow> effective_mark d s kind ident \<le> clock_revision d"
  by (auto simp: effective_mark_def mark_of_def revisions_ok_def split: option.splits)

end
