(* ===== verification/Store_Directories.thy ===== *)
theory Store_Directories
  imports Store_State
begin

text \<open>
  Directory snapshots and ordered reads (\<open>cirrove-store/src/directories.rs\<close> and the
  readers of \<open>lib.rs\<close> that use it). A directory is read either from its snapshot,
  overlaid with observations newer than it, or, once the feed is complete, from
  the index overlaid with every observation.
\<close>

section \<open>Choosing and running the query\<close>

datatype read_plan = SnapshotChildren int | IndexedChildren

text \<open>\<open>SNAPSHOT_CHILDREN\<close>, before its \<open>ORDER BY\<close>.\<close>

definition newer_observed :: "db \<Rightarrow> scope \<Rightarrow> int \<Rightarrow> string \<Rightarrow> bool" where
  "newer_observed d s r i =
     (case fmlookup (observed d) (s, i) of None \<Rightarrow> False | Some ob \<Rightarrow> ob_source_revision ob > r)"

definition newer_absent :: "db \<Rightarrow> scope \<Rightarrow> int \<Rightarrow> string \<Rightarrow> bool" where
  "newer_absent d s r i =
     (case fmlookup (observed_absent d) (s, i) of None \<Rightarrow> False | Some v \<Rightarrow> v > r)"

definition snapshot_children :: "db \<Rightarrow> scope \<Rightarrow> string \<Rightarrow> int \<Rightarrow> node row list" where
  "snapshot_children d s p r =
     map (\<lambda>(i, e). (en_name e, i, en_body e))
       (filter (\<lambda>(i, e). \<not> newer_observed d s r i \<and> \<not> newer_absent d s r i)
          (scope_rows (s, p) (directory_entries d)))
   @ map (\<lambda>(i, ob). (node_name (ob_body ob), i, ob_body ob))
       (filter (\<lambda>(i, ob). has_parent p (ob_body ob) \<and> ob_source_revision ob > r
                  \<and> \<not> newer_absent d s r i)
          (scope_rows s (observed d)))"

text \<open>\<open>INDEXED_CHILDREN\<close>, before its \<open>ORDER BY\<close>.\<close>

definition indexed_children :: "db \<Rightarrow> scope \<Rightarrow> string \<Rightarrow> node row list" where
  "indexed_children d s p =
     map (\<lambda>(i, n). (node_name n, i, n))
       (filter (\<lambda>(i, n). has_parent p n \<and> fmlookup (observed d) (s, i) = None
                  \<and> fmlookup (observed_absent d) (s, i) = None)
          (scope_rows s (nodes d)))
   @ map (\<lambda>(i, ob). (node_name (ob_body ob), i, ob_body ob))
       (filter (\<lambda>(i, ob). has_parent p (ob_body ob)) (scope_rows s (observed d)))"

definition read_source :: "db \<Rightarrow> scope \<Rightarrow> string \<Rightarrow> bool \<Rightarrow> read_plan option" where
  "read_source d s p require_snapshot =
     (case fmlookup (directories d) (s, p) of
        Some row \<Rightarrow> Some (SnapshotChildren (dir_source_revision row))
      | None \<Rightarrow>
          if require_snapshot then None
          else if \<not> (case fmlookup (feeds d) s of None \<Rightarrow> False | Some f \<Rightarrow> fd_cursor f \<noteq> None)
          then None
          else if (case fmlookup (observed d) (s, p) of
                     Some ob \<Rightarrow> package (ob_body ob)
                   | None \<Rightarrow> (case fmlookup (nodes d) (s, p) of Some n \<Rightarrow> package n | None \<Rightarrow> False))
          then None
          else Some IndexedChildren)"

definition plan_rows :: "db \<Rightarrow> scope \<Rightarrow> string \<Rightarrow> read_plan \<Rightarrow> node row list" where
  "plan_rows d s p plan =
     (case plan of SnapshotChildren r \<Rightarrow> snapshot_children d s p r
                 | IndexedChildren \<Rightarrow> indexed_children d s p)"

definition row_body :: "node row \<Rightarrow> node" where
  "row_body r = snd (snd r)"

section \<open>Readers\<close>

definition child_on :: "db \<Rightarrow> scope \<Rightarrow> string \<Rightarrow> string \<Rightarrow> bool \<Rightarrow> node option option" where
  "child_on d s p nm require_snapshot =
     map_option (\<lambda>plan. map_option row_body (first_of_name nm (plan_rows d s p plan)))
       (read_source d s p require_snapshot)"

definition read_on :: "db \<Rightarrow> scope \<Rightarrow> string \<Rightarrow> (node list \<Rightarrow> 'a) \<Rightarrow> bool \<Rightarrow> 'a option" where
  "read_on d s p consume require_snapshot =
     map_option (\<lambda>plan. consume (map row_body (by_name_id (plan_rows d s p plan))))
       (read_source d s p require_snapshot)"

fun visit_rows :: "(node \<Rightarrow> 'v \<Rightarrow> store_error + 'v) \<Rightarrow> node list \<Rightarrow> 'v \<Rightarrow> store_error + 'v" where
  "visit_rows visit [] v = Inr v"
| "visit_rows visit (n # ns) v = and_then (visit n v) (visit_rows visit ns)"

definition visit_on ::
    "db \<Rightarrow> scope \<Rightarrow> string \<Rightarrow> (node \<Rightarrow> 'v \<Rightarrow> store_error + 'v) \<Rightarrow> 'v \<Rightarrow> store_error + (bool \<times> 'v)" where
  "visit_on d s p visit v =
     (case read_on d s p (\<lambda>rows. visit_rows visit rows v) False of
        None \<Rightarrow> Inr (False, v)
      | Some (Inl e) \<Rightarrow> Inl e
      | Some (Inr v') \<Rightarrow> Inr (True, v'))"

definition children_on :: "db \<Rightarrow> scope \<Rightarrow> string \<Rightarrow> store_error + node list option" where
  "children_on d s p =
     and_then (visit_on d s p (\<lambda>n acc. Inr (acc @ [n])) []) (\<lambda>(known, acc).
     Inr (if known then Some acc else None))"

definition child_id_on :: "db \<Rightarrow> scope \<Rightarrow> string \<Rightarrow> string \<Rightarrow> store_error + node option option" where
  "child_id_on d s p i =
     (case read_source d s p False of
        None \<Rightarrow> Inr None
      | Some plan \<Rightarrow>
          let n = map_option row_body (first_of_id i (plan_rows d s p plan))
          in case n of
               Some m \<Rightarrow> if node_id m \<noteq> i then Inl OutOfOrder else Inr (Some n)
             | None \<Rightarrow> Inr (Some None))"

definition child :: "db \<Rightarrow> scope \<Rightarrow> string \<Rightarrow> string \<Rightarrow> node option option" where
  "child d s p nm = child_on d s p nm False"

definition child_from_snapshot :: "db \<Rightarrow> scope \<Rightarrow> string \<Rightarrow> string \<Rightarrow> node option option" where
  "child_from_snapshot d s p nm = child_on d s p nm True"

definition with_children :: "db \<Rightarrow> scope \<Rightarrow> string \<Rightarrow> (node list \<Rightarrow> 'a) \<Rightarrow> 'a option" where
  "with_children d s p consume = read_on d s p consume False"

definition with_snapshot_children :: "db \<Rightarrow> scope \<Rightarrow> string \<Rightarrow> (node list \<Rightarrow> 'a) \<Rightarrow> 'a option" where
  "with_snapshot_children d s p consume = read_on d s p consume True"

definition known_package_directory :: "db \<Rightarrow> scope \<Rightarrow> string \<Rightarrow> bool" where
  "known_package_directory d s p =
     (if fmlookup (directories d) (s, p) = None then False
      else case node_on d s p of None \<Rightarrow> False | Some n \<Rightarrow> package n)"

text \<open>\<open>timestamp().saturating_sub(seen).max(0) as u64 / 1_000_000\<close>.\<close>

definition directory_age :: "db \<Rightarrow> int \<Rightarrow> scope \<Rightarrow> string \<Rightarrow> int option" where
  "directory_age d now s p =
     map_option (\<lambda>row. max (min (now - dir_seen row) i64_max) 0 div 1000000)
       (fmlookup (directories d) (s, p))"

section \<open>Writing a snapshot\<close>

text \<open>An identity listed twice violates the primary key and aborts the transaction.\<close>

fun insert_entries :: "item_key \<Rightarrow> node list \<Rightarrow> (item_key \<times> string, entry_row) fmap
    \<Rightarrow> store_error + (item_key \<times> string, entry_row) fmap" where
  "insert_entries k [] t = Inr t"
| "insert_entries k (n # ns) t =
     (if fmlookup t (k, node_id n) \<noteq> None then Inl Database
      else insert_entries k ns
             (fmupd (k, node_id n) \<lparr>en_name = node_name n, en_body = n\<rparr> t))"

definition write_snapshot ::
    "scope \<Rightarrow> string \<Rightarrow> node list \<Rightarrow> int \<Rightarrow> int \<Rightarrow> db \<Rightarrow> store_error + db" where
  "write_snapshot s p ns seen source_revision d =
     and_then (insert_entries (s, p) ns (delete_scope (s, p) (directory_entries d))) (\<lambda>entries.
     Inr (d\<lparr>directories := fmupd (s, p) \<lparr>dir_seen = seen, dir_source_revision = source_revision\<rparr>
                             (directories d),
            directory_entries := entries,
            directory_sources := fmdrop (s, p) (directory_sources d)\<rparr>))"

section \<open>Listings and lookups agree\<close>

lemma distinct_map_rows: "distinct (map fst (filter P (scope_rows s t)))"
  by (metis distinct_map_filter distinct_scope_ids fst_scope_rows)

interpretation snapshot: union_rows "\<lambda>(d, s, p, r). snapshot_children d s p r"
proof
  fix q :: "db \<times> scope \<times> string \<times> int"
  obtain d s p r where q: "q = (d, s, p, r)"
    by (cases q)
  have ids: "map (fst \<circ> snd) (map (\<lambda>(i, e). (f e, i, g e)) xs) = map fst xs"
    for f :: "'z \<Rightarrow> string" and g :: "'z \<Rightarrow> node" and xs
    by (auto simp: case_prod_beta)
  show "distinct (map (fst \<circ> snd) (case q of (d, s, p, r) \<Rightarrow> snapshot_children d s p r))"
    unfolding q snapshot_children_def prod.case map_append ids distinct_append
    by (auto simp: distinct_map_rows newer_observed_def)
qed

interpretation indexed: union_rows "\<lambda>(d, s, p). indexed_children d s p"
proof
  fix q :: "db \<times> scope \<times> string"
  obtain d s p where q: "q = (d, s, p)"
    by (cases q)
  have ids: "map (fst \<circ> snd) (map (\<lambda>(i, e). (f e, i, g e)) xs) = map fst xs"
    for f :: "'z \<Rightarrow> string" and g :: "'z \<Rightarrow> node" and xs
    by (auto simp: case_prod_beta)
  show "distinct (map (fst \<circ> snd) (case q of (d, s, p) \<Rightarrow> indexed_children d s p))"
    unfolding q indexed_children_def prod.case map_append ids distinct_append
    by (auto simp: distinct_map_rows)
qed

lemma plan_lookups:
  "first_of_name nm (plan_rows d s p plan) = find (\<lambda>(name, _, _). name = nm) (by_name_id (plan_rows d s p plan))"
  "first_of_id i (plan_rows d s p plan) = find (\<lambda>(_, j, _). j = i) (by_name_id (plan_rows d s p plan))"
  "distinct (map (fst \<circ> snd) (by_name_id (plan_rows d s p plan)))"
  using snapshot.name_lookup_eq_listing [of nm "(d, s, p, r)" for r] indexed.name_lookup_eq_listing [of nm "(d, s, p)"]
    snapshot.id_lookup_eq_listing [of i "(d, s, p, r)" for r] indexed.id_lookup_eq_listing [of i "(d, s, p)"]
    snapshot.distinct_listing [of "(d, s, p, r)" for r] indexed.distinct_listing [of "(d, s, p)"]
  by (auto simp: plan_rows_def split: read_plan.splits)

lemma plan_rows_named:
  assumes "bodies_ok d" and "r \<in> set (plan_rows d s p plan)"
  shows "fst r = node_name (row_body r) \<and> fst (snd r) = node_id (row_body r)"
  using assms
  by (auto simp: plan_rows_def snapshot_children_def indexed_children_def bodies_ok_def row_body_def
      split: read_plan.splits)

lemma find_map_body:
  assumes "\<And>r. r \<in> set rows \<Longrightarrow> P r \<longleftrightarrow> Q (f r)"
  shows "map_option f (find P rows) = find Q (map f rows)"
  using assms by (induction rows) auto

lemma visit_rows_collect: "visit_rows (\<lambda>n acc. Inr (acc @ [n])) ns v = Inr (v @ ns)"
  by (induction ns arbitrary: v) simp_all

definition listing :: "db \<Rightarrow> scope \<Rightarrow> string \<Rightarrow> bool \<Rightarrow> node list option" where
  "listing d s p req = read_on d s p (\<lambda>ns. ns) req"

lemma children_on_eq: "children_on d s p = Inr (listing d s p False)"
  by (simp add: children_on_def visit_on_def listing_def read_on_def visit_rows_collect
      split: option.splits)

lemma by_name_id_set [simp]: "set (by_name_id rows) = set rows"
  by (simp add: by_name_id_def)

lemma child_on_listing:
  assumes "bodies_ok d"
  shows "child_on d s p nm req = map_option (find (\<lambda>n. node_name n = nm)) (listing d s p req)"
  using plan_rows_named [OF assms, of _ s p]
  by (auto simp: child_on_def listing_def read_on_def plan_lookups option.map_comp comp_def
      intro!: option.map_cong find_map_body)

lemma child_id_on_listing:
  assumes "bodies_ok d"
  shows "child_id_on d s p i = Inr (map_option (find (\<lambda>n. node_id n = i)) (listing d s p False))"
proof -
  have "map_option row_body (first_of_id i (plan_rows d s p plan)) =
        find (\<lambda>n. node_id n = i) (map row_body (by_name_id (plan_rows d s p plan)))" for plan
    using plan_rows_named [OF assms, of _ s p plan]
    by (auto simp: plan_lookups intro!: find_map_body)
  then show ?thesis
    by (auto simp: child_id_on_def listing_def read_on_def Let_def find_Some_iff split: option.splits)
qed

lemma listing_props:
  assumes "bodies_ok d" and "listing d s p req = Some ns"
  shows "distinct (map node_id ns)" and "sorted (map (\<lambda>n. (node_name n, node_id n)) ns)"
proof -
  obtain plan where ns: "ns = map row_body (by_name_id (plan_rows d s p plan))"
    using assms(2) by (auto simp: listing_def read_on_def)
  have named: "r \<in> set (by_name_id (plan_rows d s p plan)) \<Longrightarrow>
      (\<lambda>(name, i, _). (name, i)) r = (node_name (row_body r), node_id (row_body r))" for r
    by (auto simp: case_prod_beta dest: plan_rows_named [OF assms(1)])
  then have "map node_id ns = map (fst \<circ> snd) (by_name_id (plan_rows d s p plan))"
    by (auto simp: ns case_prod_beta)
  then show "distinct (map node_id ns)"
    by (simp add: plan_lookups)
  have "map (\<lambda>n. (node_name n, node_id n)) ns =
        map (\<lambda>(name, i, _). (name, i)) (by_name_id (plan_rows d s p plan))"
    using named by (simp add: ns)
  then show "sorted (map (\<lambda>n. (node_name n, node_id n)) ns)"
    by (simp add: by_name_id_def)
qed

section \<open>Snapshots\<close>

lemma insert_entries_ok:
  assumes "insert_entries k ns t = Inr t'"
  shows "distinct (map node_id ns)
    \<and> (\<forall>n \<in> set ns. fmlookup t (k, node_id n) = None)
    \<and> (\<forall>k' i. fmlookup t' (k', i) =
         (case if k' = k then find (\<lambda>n. node_id n = i) ns else None of
            None \<Rightarrow> fmlookup t (k', i)
          | Some n \<Rightarrow> Some \<lparr>en_name = node_name n, en_body = n\<rparr>))"
  using assms
proof (induction ns arbitrary: t)
  case Nil
  then show ?case
    by simp
next
  case (Cons n ns)
  then have none: "fmlookup t (k, node_id n) = None"
    and rest: "insert_entries k ns
      (fmupd (k, node_id n) \<lparr>en_name = node_name n, en_body = n\<rparr> t) = Inr t'"
    by (auto split: if_splits)
  have notin: "node_id n \<notin> node_id ` set ns"
    using Cons.IH [OF rest] by auto
  then have "find (\<lambda>m. node_id m = node_id n) ns = None"
    by (auto simp: find_None_iff) (metis imageI)
  then show ?case
    using Cons.IH [OF rest] none notin by (auto split: option.splits if_splits)
qed

lemma insert_entries_complete:
  assumes "distinct (map node_id ns)" and "\<And>n. n \<in> set ns \<Longrightarrow> fmlookup t (k, node_id n) = None"
  shows "\<exists>t'. insert_entries k ns t = Inr t'"
  using assms
proof (induction ns arbitrary: t)
  case (Cons n ns)
  then have "m \<in> set ns \<Longrightarrow> node_id m \<noteq> node_id n" for m
    by (metis distinct.simps(2) imageI list.set_map list.simps(9))
  then show ?case
    using Cons.prems by (auto intro!: Cons.IH)
qed simp

end
