(* ===== verification/Store_Observations.thy ===== *)
theory Store_Observations
  imports Store_Directories
begin

text \<open>
  Publication of network observations (\<open>cirrove-store/src/observations.rs\<close>). A
  ticket is taken before the network call and carries the clock's revision; the
  reply is published only if nothing it depends on was marked since, and is
  superseded otherwise. Completed change feeds and publications both mark what
  they change, with a fresh revision.
\<close>

section \<open>Tickets\<close>

datatype target = TargetNode string | TargetDirectory string

record ticket =
  tk_scope :: scope
  tk_target :: target
  tk_database :: string
  tk_revision :: int

datatype 'a observation_result = Published 'a bool | Superseded "'a option"

datatype absence_result = AbsencePublished bool | AbsenceSuperseded "node option"

text \<open>\<open>publish_delta\<close>: marks what a completed change feed touches, before it is applied.\<close>

definition optional :: "'a option \<Rightarrow> 'a list" where
  "optional v = (case v of None \<Rightarrow> [] | Some x \<Rightarrow> [x])"

definition delta_parents :: "db \<Rightarrow> scope \<Rightarrow> string list" where
  "delta_parents d s =
     map fst (scope_rows s (staged d))
   @ concat (map (\<lambda>(i, b). case b of None \<Rightarrow> [] | Some n \<Rightarrow> optional (parent_id n))
       (scope_rows s (staged d)))
   @ concat (map (\<lambda>(i, b). case fmlookup (nodes d) (s, i) of None \<Rightarrow> []
                             | Some n \<Rightarrow> optional (parent_id n)) (scope_rows s (staged d)))
   @ concat (map (\<lambda>(i, b). case fmlookup (observed d) (s, i) of None \<Rightarrow> []
                             | Some ob \<Rightarrow> optional (parent_id (ob_body ob))) (scope_rows s (staged d)))"

definition publish_delta :: "scope \<Rightarrow> bool \<Rightarrow> db \<Rightarrow> store_error + db" where
  "publish_delta s reset d =
     (if \<not> reset \<and> scope_rows s (staged d) = [] then Inr d
      else and_then (advance d) (\<lambda>(rv, d).
        if reset
        then Inr (mark s 0 '''' rv
               (d\<lparr>metadata_versions := delete_scope s (metadata_versions d)\<rparr>))
        else Inr (mark_all s 2 (delta_parents d s) rv
               (mark_all s 1 (map fst (scope_rows s (staged d))) rv d))))"

definition current :: "db \<Rightarrow> ticket \<Rightarrow> node list \<Rightarrow> store_error + bool" where
  "current d t ns =
     (if fst (clock d) \<noteq> tk_database t then Inl OutOfOrder
      else let s = tk_scope t in
        if changed_after d s 0 '''' (tk_revision t) then Inr False
        else if (case tk_target t of
                   TargetNode i \<Rightarrow> changed_after d s 1 i (tk_revision t)
                 | TargetDirectory i \<Rightarrow> changed_after d s 2 i (tk_revision t)) then Inr False
        else if (case tk_target t of
                   TargetNode i \<Rightarrow> False
                 | TargetDirectory i \<Rightarrow> changed_after d s 1 i (tk_revision t)) then Inr False
        else if list_ex (\<lambda>n. changed_after d s 1 (node_id n) (tk_revision t)) ns then Inr False
        else if (case tk_target t of
                   TargetDirectory i \<Rightarrow> False
                 | TargetNode i \<Rightarrow>
                     (case ns of [] \<Rightarrow> False
                      | n # _ \<Rightarrow> (case parent_id n of None \<Rightarrow> False
                                 | Some p \<Rightarrow> changed_after d s 2 p (tk_revision t)))) then Inr False
        else Inr True)"

section \<open>Writing observations\<close>

definition changed_parents :: "db \<Rightarrow> scope \<Rightarrow> node list \<Rightarrow> string option \<Rightarrow> string list" where
  "changed_parents d s ns parent =
     optional parent
   @ concat (map (\<lambda>n. optional (parent_id n)
                   @ (case node_on d s (node_id n) of None \<Rightarrow> []
                      | Some old \<Rightarrow> optional (parent_id old))) ns)"

definition changed_items ::
    "scope \<Rightarrow> node list \<Rightarrow> node list \<Rightarrow> string option \<Rightarrow> db \<Rightarrow> store_error + db" where
  "changed_items s ns removed parent d =
     and_then (advance d) (\<lambda>(rv, d).
       Inr (mark_all s 2 (remdups (changed_parents d s (ns @ removed) parent)) rv
             (mark_all s 1 (map node_id (ns @ removed)) rv d)))"

definition write_node :: "scope \<Rightarrow> node \<Rightarrow> int \<Rightarrow> int \<Rightarrow> db \<Rightarrow> db" where
  "write_node s n seen source_revision d =
     d\<lparr>observed_absent := fmdrop (s, node_id n) (observed_absent d),
       observed := fmupd (s, node_id n)
         \<lparr>ob_body = n, ob_seen = seen, ob_source_revision = source_revision\<rparr> (observed d)\<rparr>"

text \<open>
  The rows of \<open>observed\<close> and of \<open>nodes\<close> below the parent that the listing does not
  mention, collected by identity; a row of \<open>nodes\<close> replaces one of \<open>observed\<close>.
\<close>

definition removed_children :: "db \<Rightarrow> scope \<Rightarrow> string \<Rightarrow> node list \<Rightarrow> (string, node) fmap" where
  "removed_children d s p ns =
     (let gone = (\<lambda>i n. has_parent p n \<and> i \<notin> set (map node_id ns));
          from_observed = filter (\<lambda>(i, n). gone i n)
             (map (\<lambda>(i, ob). (i, ob_body ob)) (scope_rows s (observed d)));
          from_nodes = filter (\<lambda>(i, n). gone i n) (scope_rows s (nodes d))
      in fold (\<lambda>(i, n). fmupd (node_id n) n) (from_observed @ from_nodes) fmempty)"

definition still_below :: "db \<Rightarrow> scope \<Rightarrow> string \<Rightarrow> string \<Rightarrow> bool" where
  "still_below d s p i = (case node_on d s i of None \<Rightarrow> True | Some n \<Rightarrow> parent_id n = Some p)"

definition hide_removed :: "scope \<Rightarrow> string \<Rightarrow> int \<Rightarrow> node \<Rightarrow> db \<Rightarrow> db" where
  "hide_removed s p source_revision n d =
     (if still_below d s p (node_id n)
      then d\<lparr>observed := fmdrop (s, node_id n) (observed d),
             observed_absent := fmupd (s, node_id n) source_revision (observed_absent d)\<rparr>
      else d)"

text \<open>The listed nodes that the previous listing did not have; its later duplicates win.\<close>

definition updated_nodes :: "node list option \<Rightarrow> node list \<Rightarrow> node list" where
  "updated_nodes previous ns =
     (let old = map_of (rev (map (\<lambda>n. (node_id n, n)) (case previous of None \<Rightarrow> [] | Some l \<Rightarrow> l)))
      in filter (\<lambda>n. old (node_id n) \<noteq> Some n) ns)"

definition write_directory ::
    "int \<Rightarrow> scope \<Rightarrow> string \<Rightarrow> node list \<Rightarrow> int \<Rightarrow> db \<Rightarrow> store_error + (bool \<times> db)" where
  "write_directory now s p ns source_revision d =
     and_then (children_on d s p) (\<lambda>previous.
     let changed = (previous \<noteq> Some ns);
         updated = updated_nodes previous ns;
         removed = fm_values (removed_children d s p ns)
     in and_then (changed_items s updated removed (Some p) d) (\<lambda>d.
        let d = fold (hide_removed s p source_revision) removed d;
            d = fold (\<lambda>n. write_node s n now source_revision) ns d
        in and_then (write_snapshot s p ns now source_revision d) (\<lambda>d. Inr (changed, d))))"

section \<open>Store operations\<close>

definition publish_absence :: "ticket \<Rightarrow> db \<Rightarrow> store_error + (absence_result \<times> db)" where
  "publish_absence t d =
     (case tk_target t of
        TargetDirectory _ \<Rightarrow> Inl OutOfOrder
      | TargetNode i \<Rightarrow>
          let s = tk_scope t; old = node_on d s i in
          and_then (current d t (optional old)) (\<lambda>ok.
          if \<not> ok then Inr (AbsenceSuperseded old, d)
          else
            let absent = (fmlookup (observed_absent d) (s, i) \<noteq> None) in
            and_then (advance d) (\<lambda>(rv, d).
            let d = mark s 2 i rv (mark s 1 i rv d);
                d = (case old of None \<Rightarrow> d
                     | Some n \<Rightarrow> (case parent_id n of None \<Rightarrow> d | Some p \<Rightarrow> mark s 2 p rv d));
                d = d\<lparr>observed := fmdrop (s, i) (observed d),
                      observed_absent := fmupd (s, i) (tk_revision t) (observed_absent d)\<rparr>
            in Inr (AbsencePublished (old \<noteq> None \<or> \<not> absent), d))))"

definition observation :: "scope \<Rightarrow> target \<Rightarrow> db \<Rightarrow> store_error + (ticket \<times> db)" where
  "observation s tgt d =
     and_then (advance d) (\<lambda>(rv, d').
       Inr (\<lparr>tk_scope = s, tk_target = tgt, tk_database = fst (clock d), tk_revision = rv\<rparr>, d'))"

definition node_observation :: "scope \<Rightarrow> string \<Rightarrow> db \<Rightarrow> store_error + (ticket \<times> db)" where
  "node_observation s item d = observation s (TargetNode item) d"

definition directory_observation :: "scope \<Rightarrow> string \<Rightarrow> db \<Rightarrow> store_error + (ticket \<times> db)" where
  "directory_observation s parent d = observation s (TargetDirectory parent) d"

definition publish_node ::
    "int \<Rightarrow> ticket \<Rightarrow> node \<Rightarrow> db \<Rightarrow> store_error + (node observation_result \<times> db)" where
  "publish_node now t n d =
     (case tk_target t of
        TargetDirectory _ \<Rightarrow> Inl OutOfOrder
      | TargetNode i \<Rightarrow>
          if i \<noteq> node_id n then Inl OutOfOrder
          else and_then (current d t [n]) (\<lambda>ok.
            if \<not> ok then Inr (Superseded (node_on d (tk_scope t) i), d)
            else
              let changed = (node_on d (tk_scope t) i \<noteq> Some n) in
              and_then (changed_items (tk_scope t) [n] [] None d) (\<lambda>d.
              Inr (Published n changed, write_node (tk_scope t) n now (tk_revision t) d))))"

definition publish_directory ::
    "int \<Rightarrow> ticket \<Rightarrow> node list \<Rightarrow> db \<Rightarrow> store_error + (node list observation_result \<times> db)" where
  "publish_directory now t ns d =
     (case tk_target t of
        TargetNode _ \<Rightarrow> Inl OutOfOrder
      | TargetDirectory p \<Rightarrow>
          and_then (current d t ns) (\<lambda>ok.
          if \<not> ok
          then and_then (children_on d (tk_scope t) p) (\<lambda>known. Inr (Superseded known, d))
          else and_then (write_directory now (tk_scope t) p ns (tk_revision t) d) (\<lambda>(changed, d).
            Inr (Published ns changed, d))))"

definition observe_node :: "int \<Rightarrow> scope \<Rightarrow> node \<Rightarrow> db \<Rightarrow> store_error + db" where
  "observe_node now s n d =
     and_then (changed_items s [n] [] None d) (\<lambda>d.
     and_then (advance d) (\<lambda>(rv, d).
     Inr (write_node s n now rv d)))"

definition observe_directory ::
    "int \<Rightarrow> scope \<Rightarrow> string \<Rightarrow> node list \<Rightarrow> db \<Rightarrow> store_error + (bool \<times> db)" where
  "observe_directory now s p ns d =
     and_then (advance d) (\<lambda>(rv, d). write_directory now s p ns rv d)"

section \<open>Receipt-bound handoffs\<close>

definition ordinary_handoff_ok :: "node \<Rightarrow> node \<Rightarrow> node \<Rightarrow> bool" where
  "ordinary_handoff_ok original cur backup = (\<not> (
       node_id original = [] \<or> node_id backup \<noteq> node_id original \<or> node_id cur = node_id original
     \<or> node_kind original \<noteq> File \<or> package original \<or> node_target original \<noteq> None
     \<or> content_revision original = None \<or> parent_id original = None
     \<or> node_kind backup \<noteq> node_kind original \<or> package backup \<or> node_target backup \<noteq> None
     \<or> content_revision backup = None \<or> node_size backup \<noteq> node_size original
     \<or> parent_id backup = None
     \<or> node_kind cur \<noteq> node_kind original \<or> package cur \<or> node_target cur \<noteq> None
     \<or> content_revision cur = None \<or> parent_id cur \<noteq> parent_id original
     \<or> node_name cur \<noteq> node_name original
     \<or> (parent_id backup = parent_id original \<and> node_name backup = node_name original)))"

definition differs :: "node option \<Rightarrow> node \<Rightarrow> bool" where
  "differs v n = (case v of None \<Rightarrow> False | Some m \<Rightarrow> m \<noteq> n)"

definition listed :: "node option option \<Rightarrow> node option" where
  "listed dir = (case dir of None \<Rightarrow> None | Some v \<Rightarrow> v)"

text \<open>The writes both handoffs end with: mark, take a fresh revision, write the nodes.\<close>

definition settle_handoff :: "int \<Rightarrow> scope \<Rightarrow> node list \<Rightarrow> node \<Rightarrow> db \<Rightarrow> store_error + db" where
  "settle_handoff now s published original d =
     and_then (changed_items s published [original] None d) (\<lambda>d.
     and_then (advance d) (\<lambda>(rv, d).
     Inr (fold (\<lambda>n. write_node s n now rv) published d)))"

definition publish_ordinary_handoff_backup ::
    "int \<Rightarrow> scope \<Rightarrow> node \<Rightarrow> node \<Rightarrow> node \<Rightarrow> db \<Rightarrow> store_error + (bool \<times> db)" where
  "publish_ordinary_handoff_backup now s original cur backup d =
     (if \<not> ordinary_handoff_ok original cur backup then Inl OutOfOrder
      else if fmlookup (observed_absent d) (s, node_id original) \<noteq> None then Inr (True, d)
      else
        let known = node_on d s (node_id original) in
        and_then (ok_or (parent_id original) OutOfOrder) (\<lambda>p.
        and_then (child_id_on d s p (node_id original)) (\<lambda>dir.
        if known = Some backup then Inr (True, d)
        else if differs known original \<or> differs (listed dir) original then Inr (True, d)
        else if known = None \<and> listed dir = None then Inr (False, d)
        else if dir \<noteq> None \<and> listed dir = None then Inr (True, d)
        else
          and_then (settle_handoff now s [backup] original d) (\<lambda>d. Inr (True, d)))))"

definition trash_root :: string where
  "trash_root = ''FOLDER::com.apple.CloudDocs::TRASH_ROOT''"

definition native_document :: "node \<Rightarrow> bool" where
  "native_document n =
     (prefix ''FILE::com.apple.CloudDocs::'' (node_id n) \<and> \<not> ends_with (node_id n) ''::''
      \<and> node_kind n = Folder \<and> package n \<and> node_target n = None \<and> content_version n = None
      \<and> (case etag n of None \<Rightarrow> False
         | Some t \<Rightarrow> t \<noteq> [] \<and> length t \<le> 4096 \<and> CHR 0x00 \<notin> set t \<and> CHR 0x0D \<notin> set t
                     \<and> CHR 0x0A \<notin> set t \<and> CHR ''*'' \<notin> set t))"

definition native_handoff_ok :: "scope \<Rightarrow> node \<Rightarrow> node \<Rightarrow> node \<Rightarrow> bool" where
  "native_handoff_ok s original cur backup = (\<not> (
       provider s \<noteq> ''icloud'' \<or> collection s \<noteq> ''drive''
     \<or> \<not> native_document original \<or> \<not> native_document cur \<or> \<not> native_document backup
     \<or> parent_id original = None \<or> parent_id original = Some trash_root
     \<or> node_name original = [] \<or> node_id cur = node_id original
     \<or> parent_id cur \<noteq> parent_id original \<or> node_name cur \<noteq> node_name original
     \<or> node_id backup \<noteq> node_id original \<or> parent_id backup \<noteq> Some trash_root
     \<or> node_name backup \<noteq> node_name original \<or> node_size backup \<noteq> node_size original))"

definition publish_native_handoff ::
    "int \<Rightarrow> scope \<Rightarrow> node \<Rightarrow> node \<Rightarrow> node \<Rightarrow> db \<Rightarrow> store_error + (bool \<times> db)" where
  "publish_native_handoff now s original cur backup d =
     (if \<not> native_handoff_ok s original cur backup then Inl OutOfOrder
      else
        and_then (ok_or (parent_id original) OutOfOrder) (\<lambda>p.
        let current_known = node_on d s (node_id cur) in
        and_then (child_id_on d s p (node_id cur)) (\<lambda>current_dir.
        let current_absent = (fmlookup (observed_absent d) (s, node_id cur) \<noteq> None) in
        if current_known = None \<and> listed current_dir = None \<and> \<not> current_absent then Inr (False, d)
        else
          let current_superseded = (current_absent \<or> differs current_known cur
                \<or> differs (listed current_dir) cur \<or> current_dir = Some None);
              original_known = node_on d s (node_id original) in
          and_then (child_id_on d s p (node_id original)) (\<lambda>original_dir.
          let original_absent = (fmlookup (observed_absent d) (s, node_id original) \<noteq> None) in
          if original_known = None \<and> listed original_dir = None \<and> \<not> original_absent
          then Inr (False, d)
          else if original_absent \<or> original_known = Some backup \<or> differs original_known original
                  \<or> differs (listed original_dir) original \<or> original_dir = Some None
          then Inr (True, d)
          else
            let published = backup # (if current_superseded then [] else [cur]) in
            and_then (settle_handoff now s published original d) (\<lambda>d. Inr (True, d))))))"

section \<open>Effects on the tables\<close>

lemma node_on_frame [frame_simps]:
  "node_on (d\<lparr>clock_revision := r\<rparr>) s i = node_on d s i"
  "node_on (d\<lparr>metadata_versions := vs\<rparr>) s i = node_on d s i"
  "node_on (mark_all s' kind ids rv d) s i = node_on d s i"
  "node_on (mark s' kind j rv d) s i = node_on d s i"
  by (simp_all add: node_on_def mark_all_eq mark_def cong: option.case_cong)

lemma node_on_write_node [simp]:
  "node_on (write_node s n seen src d) s' i =
     (if s' = s \<and> i = node_id n then Some n else node_on d s' i)"
  by (auto simp: node_on_def write_node_def split: option.splits)

lemma node_on_fold_write_node:
  "i \<notin> node_id ` set ns \<or> s' \<noteq> s \<Longrightarrow>
   node_on (fold (\<lambda>n. write_node s n seen src) ns d) s' i = node_on d s' i"
  by (induction ns arbitrary: d) auto

lemma fold_write_node:
  "fold (\<lambda>n. write_node s n seen src) ns d =
     d\<lparr>observed_absent := drop_keys s (map node_id ns) (observed_absent d),
       observed := upsert_rows s
         (map (\<lambda>n. (node_id n, \<lparr>ob_body = n, ob_seen = seen, ob_source_revision = src\<rparr>)) ns)
         (observed d)\<rparr>"
  by (induction ns arbitrary: d) (simp_all add: write_node_def drop_keys_def upsert_rows_def)

lemma still_below_hide [simp]:
  "still_below (hide_removed s p src n d) s p i = still_below d s p i"
  by (auto simp: still_below_def hide_removed_def node_on_def split: option.splits)

lemma hide_removed_step:
  "fmlookup (observed (hide_removed s p src n d)) (s', i) =
     (if s' = s \<and> i = node_id n \<and> still_below d s p i then None
      else fmlookup (observed d) (s', i))"
  "fmlookup (observed_absent (hide_removed s p src n d)) (s', i) =
     (if s' = s \<and> i = node_id n \<and> still_below d s p i then Some src
      else fmlookup (observed_absent d) (s', i))"
  by (auto simp: hide_removed_def)

lemma hide_removed_tables:
  "fmlookup (observed (fold (hide_removed s p src) rs d)) (s', i) =
     (if s' = s \<and> i \<in> node_id ` set rs \<and> still_below d s p i then None
      else fmlookup (observed d) (s', i))"
  "fmlookup (observed_absent (fold (hide_removed s p src) rs d)) (s', i) =
     (if s' = s \<and> i \<in> node_id ` set rs \<and> still_below d s p i then Some src
      else fmlookup (observed_absent d) (s', i))"
  by (induction rs arbitrary: d) (auto simp: hide_removed_step)

lemma hide_removed_frame [frame_simps]:
  "feeds (fold (hide_removed s p src) rs d) = feeds d"
  "nodes (fold (hide_removed s p src) rs d) = nodes d"
  "staged (fold (hide_removed s p src) rs d) = staged d"
  "directories (fold (hide_removed s p src) rs d) = directories d"
  "directory_entries (fold (hide_removed s p src) rs d) = directory_entries d"
  "directory_sources (fold (hide_removed s p src) rs d) = directory_sources d"
  "rounds (fold (hide_removed s p src) rs d) = rounds d"
  "clock_identity (fold (hide_removed s p src) rs d) = clock_identity d"
  "clock_revision (fold (hide_removed s p src) rs d) = clock_revision d"
  "metadata_versions (fold (hide_removed s p src) rs d) = metadata_versions d"
  by (induction rs arbitrary: d) (simp_all add: hide_removed_def)

lemma changed_items_ok:
  assumes "changed_items s ns removed parent d = Inr d'"
  shows "\<exists>vs. d' = d\<lparr>clock_revision := clock_revision d + 1, metadata_versions := vs\<rparr>
    \<and> clock_revision d + 1 \<le> i64_max
    \<and> (\<forall>s' k i. fmlookup vs (s', k, i) =
         (if s' = s \<and> (k = 1 \<and> i \<in> node_id ` set (ns @ removed)
                       \<or> k = 2 \<and> i \<in> set (changed_parents d s (ns @ removed) parent))
          then Some (clock_revision d + 1) else fmlookup (metadata_versions d) (s', k, i)))"
proof -
  have par: "changed_parents (d\<lparr>clock_revision := r\<rparr>) s l parent = changed_parents d s l parent" for r l
    by (simp add: changed_parents_def node_on_frame)
  define vs where "vs = fold (\<lambda>i. fmupd (s, 2, i) (clock_revision d + 1))
      (remdups (changed_parents d s (ns @ removed) parent))
      (fold (\<lambda>i. fmupd (s, 1, i) (clock_revision d + 1)) (map node_id (ns @ removed))
        (metadata_versions d))"
  have "d' = d\<lparr>clock_revision := clock_revision d + 1, metadata_versions := vs\<rparr>"
    and "clock_revision d + 1 \<le> i64_max"
    using assms by (auto simp: changed_items_def result_simps mark_all_eq par vs_def)
  moreover have "fmlookup vs (s', k, i) =
         (if s' = s \<and> (k = 1 \<and> i \<in> node_id ` set (ns @ removed)
                       \<or> k = 2 \<and> i \<in> set (changed_parents d s (ns @ removed) parent))
          then Some (clock_revision d + 1) else fmlookup (metadata_versions d) (s', k, i))" for s' k i
    unfolding vs_def by (auto simp del: fold_append map_append set_append)
  ultimately show ?thesis
    by blast
qed

lemma removed_children_lookup:
  assumes "bodies_ok d"
  shows "fmlookup (removed_children d s p ns) i \<noteq> None \<longleftrightarrow>
     i \<notin> node_id ` set ns \<and>
     ((\<exists>ob. fmlookup (observed d) (s, i) = Some ob \<and> has_parent p (ob_body ob))
      \<or> (\<exists>n. fmlookup (nodes d) (s, i) = Some n \<and> has_parent p n))"
    and "fmlookup (removed_children d s p ns) i = Some n \<Longrightarrow> node_id n = i \<and> parent_id n = Some p"
proof -
  have F: "fmlookup (fold (\<lambda>(i, n). fmupd (node_id n) n) xs t) i =
      (case map_of (rev (map (\<lambda>(i, n). (node_id n, n)) xs)) i of None \<Rightarrow> fmlookup t i | Some n \<Rightarrow> Some n)"
    for xs :: "(string \<times> node) list" and t
    by (induction xs rule: rev_induct) (auto simp: case_prod_beta)
  define xs where "xs = filter (\<lambda>(i, n). has_parent p n \<and> i \<notin> set (map node_id ns))
       (map (\<lambda>(i, ob). (i, ob_body ob)) (scope_rows s (observed d)))
     @ filter (\<lambda>(i, n). has_parent p n \<and> i \<notin> set (map node_id ns)) (scope_rows s (nodes d))"
  have R: "fmlookup (removed_children d s p ns) i =
      map_of (rev (map (\<lambda>(i, n). (node_id n, n)) xs)) i"
    unfolding removed_children_def Let_def xs_def [symmetric] F by (simp split: option.splits)
  have ids: "(j, n) \<in> set xs \<Longrightarrow> node_id n = j \<and> parent_id n = Some p" for j n
    using assms by (auto simp: xs_def bodies_ok_def has_parent_def)
  have "fmlookup (removed_children d s p ns) i \<noteq> None \<longleftrightarrow> i \<in> (\<lambda>x. node_id (snd x)) ` set xs"
    unfolding R map_of_eq_None_iff by (simp add: image_image case_prod_beta)
  also have "\<dots> \<longleftrightarrow> (\<exists>n. (i, n) \<in> set xs)"
    using ids by (force simp: image_iff)
  finally show "fmlookup (removed_children d s p ns) i \<noteq> None \<longleftrightarrow>
     i \<notin> node_id ` set ns \<and>
     ((\<exists>ob. fmlookup (observed d) (s, i) = Some ob \<and> has_parent p (ob_body ob))
      \<or> (\<exists>n. fmlookup (nodes d) (s, i) = Some n \<and> has_parent p n))"
    by (force simp: xs_def)
  show "fmlookup (removed_children d s p ns) i = Some n \<Longrightarrow> node_id n = i \<and> parent_id n = Some p"
    using ids by (auto simp: R dest!: map_of_SomeD)
qed

lemma removed_ids:
  assumes "bodies_ok d"
  shows "i \<in> node_id ` set (fm_values (removed_children d s p ns)) \<longleftrightarrow>
    fmlookup (removed_children d s p ns) i \<noteq> None"
proof -
  have "i \<in> node_id ` set (fm_values (removed_children d s p ns)) \<longleftrightarrow>
      (\<exists>n j. fmlookup (removed_children d s p ns) j = Some n \<and> node_id n = i)"
    by (auto simp: set_fm_values image_iff) (metis set_fm_values)
  also have "\<dots> \<longleftrightarrow> (\<exists>n. fmlookup (removed_children d s p ns) i = Some n)"
    using removed_children_lookup(2) [OF assms] by metis
  finally show ?thesis
    by simp
qed

end
