(* ===== verification/Observation_Safety.thy ===== *)
theory Observation_Safety
  imports Store_Observations
begin

text \<open>
  What the publications of \<open>observations.rs\<close> guarantee: they keep the database well
  formed, only move revision marks forward, serve back exactly what was published,
  and refuse a reply that anything newer has superseded.
\<close>

section \<open>Revision marks only grow\<close>

definition marks_grow :: "db \<Rightarrow> db \<Rightarrow> bool" where
  "marks_grow d d' \<longleftrightarrow> clock_identity d' = clock_identity d \<and> clock_revision d \<le> clock_revision d'
     \<and> (\<forall>s k i. effective_mark d s k i \<le> effective_mark d' s k i)"

lemma marks_grow_refl [simp]: "marks_grow d d"
  by (simp add: marks_grow_def)

lemma marks_grow_trans: "marks_grow d e \<Longrightarrow> marks_grow e f \<Longrightarrow> marks_grow d f"
  unfolding marks_grow_def by (metis order_trans)

text \<open>A new version table whose rows are the old ones or carry the new clock value.\<close>

lemma marks_grow_bump:
  assumes "revisions_ok d" and "clock_identity d' = clock_identity d"
    and "clock_revision d \<le> clock_revision d'"
    and "\<And>s k i. fmlookup (metadata_versions d') (s, k, i) = fmlookup (metadata_versions d) (s, k, i)
           \<or> fmlookup (metadata_versions d') (s, k, i) = Some (clock_revision d')"
  shows "marks_grow d d'"
proof -
  have "mark_of d s k i \<le> mark_of d' s k i" for s k i
  proof -
    have "fmlookup (metadata_versions d) (s, k, i) = Some v \<Longrightarrow> v \<le> clock_revision d'" for v
      using assms(1,3) unfolding revisions_ok_def by (meson order_trans)
    moreover have "0 \<le> clock_revision d'"
      using assms(1,3) unfolding revisions_ok_def by linarith
    ultimately show ?thesis
      using assms(4) [of s k i] by (auto simp: mark_of_def split: option.splits)
  qed
  then show ?thesis
    using assms(2,3) by (auto simp: marks_grow_def effective_mark_def max.coboundedI1 max.coboundedI2)
qed

section \<open>Directory publication\<close>

definition observed_as :: "node \<Rightarrow> int \<Rightarrow> int \<Rightarrow> observed_row" where
  "observed_as n seen src = \<lparr>ob_body = n, ob_seen = seen, ob_source_revision = src\<rparr>"

lemma map_of_find: "map_of (map (\<lambda>n. (f n, g n)) ns) i = map_option g (find (\<lambda>n. f n = i) ns)"
  by (induction ns) auto

lemma find_node_id_None: "find (\<lambda>n. node_id n = i) ns = None \<longleftrightarrow> i \<notin> node_id ` set ns"
  by (auto simp: find_None_iff)

lemma find_distinct_id:
  "distinct (map node_id ns) \<Longrightarrow> n \<in> set ns \<Longrightarrow> find (\<lambda>m. node_id m = node_id n) ns = Some n"
  by (induction ns) (auto simp: image_iff)

lemma write_directory_ok:
  assumes "bodies_ok d" and "write_directory now s p ns src d = Inr (changed, d')"
  defines "gone \<equiv> \<lambda>i. fmlookup (removed_children d s p ns) i \<noteq> None \<and> still_below d s p i"
  shows "distinct (map node_id ns)"
    and "clock_revision d' = clock_revision d + 1" and "clock_revision d' \<le> i64_max"
    and "clock_identity d' = clock_identity d"
    and "feeds d' = feeds d" and "nodes d' = nodes d" and "staged d' = staged d"
    and "rounds d' = rounds d"
    and "directories d' = fmupd (s, p) \<lparr>dir_seen = now, dir_source_revision = src\<rparr> (directories d)"
    and "directory_sources d' = fmdrop (s, p) (directory_sources d)"
    and "fmlookup (directory_entries d') (k, i) =
      (if k = (s, p)
       then map_option (\<lambda>n. \<lparr>en_name = node_name n, en_body = n\<rparr>) (find (\<lambda>n. node_id n = i) ns)
       else fmlookup (directory_entries d) (k, i))"
    and "fmlookup (observed d') (s', i) =
      (if s' = s \<and> i \<in> node_id ` set ns
       then map_option (\<lambda>n. observed_as n now src) (find (\<lambda>n. node_id n = i) ns)
       else if s' = s \<and> gone i then None else fmlookup (observed d) (s', i))"
    and "fmlookup (observed_absent d') (s', i) =
      (if s' = s \<and> i \<in> node_id ` set ns then None
       else if s' = s \<and> gone i then Some src else fmlookup (observed_absent d) (s', i))"
    and "fmlookup (metadata_versions d') (s', k', i) \<in>
      {fmlookup (metadata_versions d) (s', k', i), Some (clock_revision d')}"
    and "fmlookup (metadata_versions d') (s, 2, p) = Some (clock_revision d')"
    and "fmlookup (metadata_versions d') (s', k', i) =
      (let touched = updated_nodes (listing d s p False) ns @ fm_values (removed_children d s p ns) in
       if s' = s \<and> (k' = 1 \<and> i \<in> node_id ` set touched
                    \<or> k' = 2 \<and> i \<in> set (changed_parents d s touched (Some p)))
       then Some (clock_revision d + 1) else fmlookup (metadata_versions d) (s', k', i))"
    and "changed \<longleftrightarrow> listing d s p False \<noteq> Some ns"
proof -
  define upd where "upd = updated_nodes (listing d s p False) ns"
  define rm where "rm = fm_values (removed_children d s p ns)"
  obtain e where ci: "changed_items s upd rm (Some p) d = Inr e"
    and ch: "changed \<longleftrightarrow> listing d s p False \<noteq> Some ns"
    and ws: "write_snapshot s p ns now src
      (fold (\<lambda>n. write_node s n now src) ns (fold (hide_removed s p src) rm e)) = Inr d'"
    using assms(2)
    by (auto simp: write_directory_def Let_def result_simps rm_def upd_def children_on_eq)
  obtain vs where e: "e = d\<lparr>clock_revision := clock_revision d + 1, metadata_versions := vs\<rparr>"
    and le: "clock_revision d + 1 \<le> i64_max"
    and vs: "\<And>s' k i. fmlookup vs (s', k, i) =
         (if s' = s \<and> (k = 1 \<and> i \<in> node_id ` set (upd @ rm)
                       \<or> k = 2 \<and> i \<in> set (changed_parents d s (upd @ rm) (Some p)))
          then Some (clock_revision d + 1) else fmlookup (metadata_versions d) (s', k, i))"
    using changed_items_ok [OF ci] by blast
  have ids: "j \<in> node_id ` set rm \<longleftrightarrow> fmlookup (removed_children d s p ns) j \<noteq> None" for j
    unfolding rm_def by (rule removed_ids [OF assms(1)])
  have eo: "observed e = observed d" "observed_absent e = observed_absent d"
    by (simp_all add: e)
  have sb: "still_below e s p j = still_below d s p j" for j
    by (simp add: still_below_def e node_on_frame)
  obtain t where t: "insert_entries (s, p) ns (delete_scope (s, p) (directory_entries d)) = Inr t"
    and d': "d' = (fold (\<lambda>n. write_node s n now src) ns (fold (hide_removed s p src) rm e))
        \<lparr>directories := fmupd (s, p) \<lparr>dir_seen = now, dir_source_revision = src\<rparr> (directories d),
         directory_entries := t, directory_sources := fmdrop (s, p) (directory_sources d)\<rparr>"
    using ws by (auto simp: write_snapshot_def result_simps fold_write_node frame_simps e)
  show dist: "distinct (map node_id ns)"
    using insert_entries_ok [OF t] by simp
  show "clock_revision d' = clock_revision d + 1" "clock_revision d' \<le> i64_max"
    "clock_identity d' = clock_identity d" "feeds d' = feeds d" "nodes d' = nodes d"
    "staged d' = staged d" "rounds d' = rounds d"
    "directories d' = fmupd (s, p) \<lparr>dir_seen = now, dir_source_revision = src\<rparr> (directories d)"
    "directory_sources d' = fmdrop (s, p) (directory_sources d)"
    using le by (simp_all add: d' fold_write_node frame_simps e)
  show "fmlookup (directory_entries d') (k, i) =
      (if k = (s, p)
       then map_option (\<lambda>n. \<lparr>en_name = node_name n, en_body = n\<rparr>) (find (\<lambda>n. node_id n = i) ns)
       else fmlookup (directory_entries d) (k, i))"
    using insert_entries_ok [OF t, THEN conjunct2, THEN conjunct2, rule_format, of k i]
    by (cases "find (\<lambda>n. node_id n = i) ns") (auto simp: d')
  show "fmlookup (observed d') (s', i) =
      (if s' = s \<and> i \<in> node_id ` set ns
       then map_option (\<lambda>n. observed_as n now src) (find (\<lambda>n. node_id n = i) ns)
       else if s' = s \<and> gone i then None else fmlookup (observed d) (s', i))"
    using dist find_node_id_None [of i ns] eo
    by (cases "find (\<lambda>n. node_id n = i) ns")
       (simp_all add: d' fold_write_node fmlookup_upsert_distinct comp_def map_of_find gone_def
        hide_removed_tables sb ids observed_as_def)
  show "fmlookup (observed_absent d') (s', i) =
      (if s' = s \<and> i \<in> node_id ` set ns then None
       else if s' = s \<and> gone i then Some src else fmlookup (observed_absent d) (s', i))"
    using eo by (auto simp: d' fold_write_node gone_def hide_removed_tables sb ids)
  show "fmlookup (metadata_versions d') (s', k', i) \<in>
      {fmlookup (metadata_versions d) (s', k', i), Some (clock_revision d')}"
    by (auto simp: d' fold_write_node frame_simps e vs)
  show "fmlookup (metadata_versions d') (s, 2, p) = Some (clock_revision d')"
    by (simp add: d' fold_write_node frame_simps e vs changed_parents_def optional_def)
  show "fmlookup (metadata_versions d') (s', k', i) =
      (let touched = updated_nodes (listing d s p False) ns @ fm_values (removed_children d s p ns) in
       if s' = s \<and> (k' = 1 \<and> i \<in> node_id ` set touched
                    \<or> k' = 2 \<and> i \<in> set (changed_parents d s touched (Some p)))
       then Some (clock_revision d + 1) else fmlookup (metadata_versions d) (s', k', i))"
    unfolding upd_def [symmetric] rm_def [symmetric] Let_def
    by (simp add: d' fold_write_node frame_simps e vs)
  show "changed \<longleftrightarrow> listing d s p False \<noteq> Some ns"
    by (rule ch)
qed

lemma write_directory_total:
  assumes "clock_revision d + 1 \<le> i64_max" and "distinct (map node_id ns)"
  shows "\<exists>changed d'. write_directory now s p ns src d = Inr (changed, d')"
proof -
  have ci: "\<exists>e. changed_items s upd rm par d = Inr e" for upd rm par
    using assms(1) by (auto simp: changed_items_def advance_def clock_def Let_def)
  have ws: "\<exists>e. write_snapshot s p ns now src f = Inr e" for f
  proof -
    have "\<exists>t. insert_entries (s, p) ns (delete_scope (s, p) (directory_entries f)) = Inr t"
      using assms(2) by (intro insert_entries_complete) auto
    then show ?thesis
      by (auto simp: write_snapshot_def)
  qed
  show ?thesis
    unfolding write_directory_def children_on_eq and_then_simps Let_def
    using ci ws by (metis and_then_simps(2))
qed

lemma write_directory_no_newer:
  assumes "bodies_ok d" "exclusive_ok d" and w: "write_directory now s p ns src d = Inr (changed, d')"
    and "fmlookup (observed d') (s, i) = Some ob" and "has_parent p (ob_body ob)"
  shows "ob_source_revision ob = src"
proof (cases "i \<in> node_id ` set ns")
  case True
  then show ?thesis
    using assms(4) by (auto simp: write_directory_ok(12) [OF assms(1) w] observed_as_def)
next
  case False
  then have old: "fmlookup (observed d) (s, i) = Some ob"
    and keep: "\<not> (fmlookup (removed_children d s p ns) i \<noteq> None \<and> still_below d s p i)"
    using assms(4) by (auto simp: write_directory_ok(12) [OF assms(1) w] split: if_splits)
  have "fmlookup (removed_children d s p ns) i \<noteq> None"
    using False old assms(5) by (subst removed_children_lookup(1) [OF assms(1)]) auto
  moreover have "still_below d s p i"
    using old assms(2,5) by (auto simp: still_below_def node_on_def exclusive_ok_def has_parent_def)
  ultimately show ?thesis
    using keep by blast
qed

text \<open>After a directory is written, reading it serves the nodes that were written.\<close>

lemma write_directory_listing:
  assumes "store_ok d" and w: "write_directory now s p ns src d = Inr (changed, d')" and "bodies_ok d'"
  shows "listing d' s p req = Some (sort_key (\<lambda>n. (node_name n, node_id n)) ns)"
proof -
  have b: "bodies_ok d" "exclusive_ok d"
    using assms(1) by (simp_all add: store_ok_def)
  note ok = write_directory_ok [OF b(1) w]
  define rows where "rows = snapshot_children d' s p src"
  have arm2: "filter (\<lambda>(i, ob). has_parent p (ob_body ob) \<and> ob_source_revision ob > src
                 \<and> \<not> newer_absent d' s src i) (scope_rows s (observed d')) = []"
    using write_directory_no_newer [OF b w] by (auto simp: filter_empty_conv)
  have fresh: "\<not> newer_observed d' s src i \<and> \<not> newer_absent d' s src i"
    if e: "fmlookup (directory_entries d') ((s, p), i) = Some e" for i e
  proof -
    obtain n where "find (\<lambda>m. node_id m = i) ns = Some n"
      using e by (auto simp: ok(11))
    moreover from this have "i \<in> node_id ` set ns"
      by (auto simp: find_Some_iff)
    ultimately show ?thesis
      by (simp add: newer_observed_def newer_absent_def ok(12,13) observed_as_def)
  qed
  have arm1: "filter (\<lambda>(i, e). \<not> newer_observed d' s src i \<and> \<not> newer_absent d' s src i)
      (scope_rows (s, p) (directory_entries d')) = scope_rows (s, p) (directory_entries d')"
    using fresh by (auto simp: filter_id_conv)
  have "row_body ` set rows =
      {n. \<exists>i e. (i, e) \<in> set (scope_rows (s, p) (directory_entries d')) \<and> n = en_body e}"
    unfolding rows_def snapshot_children_def arm1 arm2
    by (force simp: row_body_def simp del: set_scope_rows)
  also have "\<dots> = {n. \<exists>i. find (\<lambda>m. node_id m = i) ns = Some n}"
    by (force simp: ok(11))
  also have "\<dots> = set ns"
    using find_distinct_id [OF ok(1)] by (auto simp: find_Some_iff)
  finally have set_rows: "row_body ` set rows = set ns" .
  have l: "listing d' s p req = Some (map row_body (by_name_id rows))"
    by (simp add: listing_def read_on_def read_source_def ok(9) plan_rows_def rows_def)
  note props = listing_props [OF assms(3) l]
  have "map row_body (by_name_id rows) = sort_key (\<lambda>n. (node_name n, node_id n)) ns"
  proof (rule sorted_key_unique [where k = "\<lambda>n. (node_name n, node_id n)"])
    show "distinct (map (\<lambda>n. (node_name n, node_id n)) (map row_body (by_name_id rows)))"
      using props(1) by (auto simp: distinct_map inj_on_def)
    show "distinct (map (\<lambda>n. (node_name n, node_id n)) (sort_key (\<lambda>n. (node_name n, node_id n)) ns))"
      using ok(1) by (auto simp: distinct_map inj_on_def)
  qed (use props set_rows in auto)
  then show ?thesis
    using l by simp
qed

section \<open>Publications keep the database well formed\<close>

lemma store_ok_bump:
  assumes "store_ok d" and "clock_revision d \<le> c" and "c \<le> i64_max"
    and "\<And>k v. fmlookup vs k = Some v \<Longrightarrow> 0 \<le> v \<and> v \<le> c"
  shows "store_ok (d\<lparr>clock_revision := c, metadata_versions := vs\<rparr>)"
proof -
  have "revisions_ok (d\<lparr>clock_revision := c, metadata_versions := vs\<rparr>)"
    using assms unfolding store_ok_def revisions_ok_def
    by (simp, meson order_trans)
  then show ?thesis
    using assms(1) by (simp add: store_ok_def bodies_ok_def exclusive_ok_def keys_ok_def feeds_ok_def)
qed

lemma versions_bounded:
  assumes "revisions_ok d" and "clock_revision d \<le> c"
    and "\<And>s k i. fmlookup vs (s, k, i) \<in> {fmlookup (metadata_versions d) (s, k, i), Some c}"
    and v: "fmlookup vs k = Some v"
  shows "0 \<le> v \<and> v \<le> c"
proof -
  have "fmlookup vs k = fmlookup (metadata_versions d) k \<or> v = c"
    using assms(3) [of "fst k" "fst (snd k)" "snd (snd k)"] v by auto
  moreover have "fmlookup (metadata_versions d) k = Some v \<Longrightarrow> 0 \<le> v \<and> v \<le> clock_revision d"
    and "0 \<le> clock_revision d"
    using assms(1) unfolding revisions_ok_def by blast+
  ultimately show ?thesis
    using assms(2) v by auto
qed

lemma store_ok_advance:
  assumes "store_ok d" and "advance d = Inr (rv, d')"
  shows "store_ok d'" and "marks_grow d d'" and "clock_revision d' = rv" and "rv = clock_revision d + 1"
proof -
  have r: "revisions_ok d" and d': "d' = d\<lparr>clock_revision := rv, metadata_versions := metadata_versions d\<rparr>"
    and rv: "rv = clock_revision d + 1" "rv \<le> i64_max"
    using assms by (auto simp: store_ok_def result_simps)
  show "store_ok d'"
    unfolding d' using assms(1) rv
    by (intro store_ok_bump versions_bounded [OF r]) auto
  show "marks_grow d d'"
    using r rv by (intro marks_grow_bump) (auto simp: d')
qed (use assms in \<open>auto simp: result_simps\<close>)

lemma store_ok_changed_items:
  assumes "store_ok d" and "changed_items s ns removed parent d = Inr d'"
  shows "store_ok d'" and "marks_grow d d'" and "clock_revision d' = clock_revision d + 1"
proof -
  have r: "revisions_ok d"
    using assms(1) by (simp add: store_ok_def)
  obtain vs where d': "d' = d\<lparr>clock_revision := clock_revision d + 1, metadata_versions := vs\<rparr>"
    and le: "clock_revision d + 1 \<le> i64_max"
    and vs: "\<And>s' k i. fmlookup vs (s', k, i) \<in> {fmlookup (metadata_versions d) (s', k, i), Some (clock_revision d + 1)}"
    using changed_items_ok [OF assms(2)] by auto
  show "store_ok d'"
    unfolding d' using assms(1) le versions_bounded [OF r _ vs] by (intro store_ok_bump) auto
  show "marks_grow d d'"
    using r vs by (intro marks_grow_bump) (auto simp: d')
  show "clock_revision d' = clock_revision d + 1"
    by (simp add: d')
qed

lemma store_ok_mark_all:
  assumes "store_ok d"
  shows "store_ok (mark_all s k ids (clock_revision d) d)"
    and "marks_grow d (mark_all s k ids (clock_revision d) d)"
proof -
  have r: "revisions_ok d"
    using assms by (simp add: store_ok_def)
  define vs where "vs = fold (\<lambda>i. fmupd (s, k, i) (clock_revision d)) ids (metadata_versions d)"
  have eq: "mark_all s k ids (clock_revision d) d = d\<lparr>clock_revision := clock_revision d, metadata_versions := vs\<rparr>"
    by (simp add: mark_all_eq vs_def)
  have vs: "\<And>s' k' i. fmlookup vs (s', k', i) \<in> {fmlookup (metadata_versions d) (s', k', i), Some (clock_revision d)}"
    by (simp add: vs_def)
  show "store_ok (mark_all s k ids (clock_revision d) d)"
    unfolding eq using assms revisionsD(7) [OF r] versions_bounded [OF r _ vs]
    by (intro store_ok_bump) auto
  show "marks_grow d (mark_all s k ids (clock_revision d) d)"
    unfolding eq using r vs by (intro marks_grow_bump) auto
qed

lemma marks_grow_tables:
  assumes "metadata_versions d' = metadata_versions d" "clock_revision d' = clock_revision d"
    "clock_identity d' = clock_identity d"
  shows "marks_grow d d'"
  using assms by (simp add: marks_grow_def effective_mark_def mark_of_def)

lemma store_ok_write_node:
  assumes "store_ok d" and "src \<le> clock_revision d"
  shows "store_ok (write_node s n seen src d)" and "marks_grow d (write_node s n seen src d)"
  using assms by (auto simp: write_node_def store_ok_defs intro!: marks_grow_tables)

lemma store_ok_fold_write_node:
  assumes "store_ok d" and "src \<le> clock_revision d"
  shows "store_ok (fold (\<lambda>n. write_node s n seen src) ns d)"
    and "marks_grow d (fold (\<lambda>n. write_node s n seen src) ns d)"
proof -
  show "store_ok (fold (\<lambda>n. write_node s n seen src) ns d)"
    using assms
  proof (induction ns arbitrary: d)
    case (Cons n ns)
    moreover have "clock_revision (write_node s n seen src d) = clock_revision d"
      by (simp add: write_node_def)
    ultimately show ?case
      by (simp add: store_ok_write_node)
  qed simp
  show "marks_grow d (fold (\<lambda>n. write_node s n seen src) ns d)"
    by (rule marks_grow_tables) (simp_all add: fold_write_node)
qed

lemma store_ok_write_directory:
  assumes "store_ok d" and w: "write_directory now s p ns src d = Inr (changed, d')"
    and "src \<le> clock_revision d"
  shows "store_ok d'" and "marks_grow d d'"
proof -
  have b: "bodies_ok d" and r: "revisions_ok d" and x: "exclusive_ok d" and k: "keys_ok d" and f: "feeds_ok d"
    using assms(1) by (simp_all add: store_ok_def)
  note ok = write_directory_ok [OF b w]
  have "bodies_ok d'"
    using b unfolding bodies_ok_def ok(6,7,11,12)
    by (auto simp: observed_as_def find_Some_iff split: if_splits)
  moreover have "exclusive_ok d'"
    using x unfolding exclusive_ok_def by (auto simp: ok(12,13) split: if_splits)
  moreover have "keys_ok d'"
    using k unfolding keys_ok_def by (auto simp: ok(9,10,11) split: if_splits) blast+
  moreover have "revisions_ok d'"
  proof -
    have v: "fmlookup (metadata_versions d') kk = Some v \<Longrightarrow> 0 \<le> v \<and> v \<le> clock_revision d'" for kk v
      using versions_bounded [OF r _ ok(14)] ok(2) by simp
    have le: "src \<le> clock_revision d'" "clock_revision d \<le> clock_revision d'"
      using assms(3) ok(2) by simp_all
    show ?thesis
    proof (rule revisionsI)
      show "0 \<le> clock_revision d'" "clock_revision d' \<le> i64_max"
        using revisionsD(6) [OF r] ok(2,3) by simp_all
      show "ob_source_revision ob \<le> clock_revision d'" if "fmlookup (observed d') j = Some ob" for j ob
        using that le revisionsD(2) [OF r, of j]
        by (cases j) (fastforce simp: ok(12) observed_as_def split: if_splits)
      show "v \<le> clock_revision d'" if "fmlookup (observed_absent d') j = Some v" for j v
        using that le revisionsD(3) [OF r, of j] by (cases j) (fastforce simp: ok(13) split: if_splits)
      show "dir_source_revision row \<le> clock_revision d'" if "fmlookup (directories d') j = Some row" for j row
        using that le revisionsD(4) [OF r, of j] by (cases j) (fastforce simp: ok(9) split: if_splits)
      show "v \<le> clock_revision d'" if "fmlookup (rounds d') x = Some v" for x v
        using that le revisionsD(5) [OF r, of x] by (fastforce simp: ok(8))
    qed (use v in blast)
  qed
  moreover have "feeds_ok d'"
    using f by (simp add: feeds_ok_def ok)
  ultimately show "store_ok d'"
    by (simp add: store_ok_def)
  show "marks_grow d d'"
    using r ok(2,4,14) by (intro marks_grow_bump) auto
qed

section \<open>Tickets\<close>

definition issued :: "db \<Rightarrow> ticket \<Rightarrow> bool" where
  "issued d t \<longleftrightarrow> tk_database t = clock_identity d \<and> 0 \<le> tk_revision t
     \<and> tk_revision t \<le> clock_revision d"

text \<open>The marks a reply depends on, by kind and identity.\<close>

definition watched :: "ticket \<Rightarrow> node list \<Rightarrow> (nat \<times> string) list" where
  "watched t ns = (case tk_target t of
       TargetNode i \<Rightarrow> (1, i) # map (\<lambda>n. (1, node_id n)) ns
         @ (case ns of [] \<Rightarrow> [] | n # _ \<Rightarrow> map (Pair 2) (optional (parent_id n)))
     | TargetDirectory p \<Rightarrow> (2, p) # (1, p) # map (\<lambda>n. (1, node_id n)) ns)"

lemma issued_grows: "marks_grow d d' \<Longrightarrow> issued d t \<Longrightarrow> issued d' t"
  by (auto simp: marks_grow_def issued_def)

lemma current_iff:
  assumes "issued d t"
  shows "current d t ns =
    Inr (\<forall>k i. (k, i) \<in> set (watched t ns) \<longrightarrow> effective_mark d (tk_scope t) k i \<le> tk_revision t)"
  using assms
  by (auto simp: not_less not_le current_def clock_def issued_def watched_def effective_mark_def changed_after_iff
      optional_def list_ex_iff Let_def split: target.splits list.splits option.splits)

lemma superseded_stays:
  assumes "marks_grow d d'" and "issued d t" and "current d t ns = Inr False"
  shows "current d' t ns = Inr False"
  using assms(1,3) issued_grows [OF assms(1,2)]
  unfolding current_iff [OF assms(2)] current_iff [OF issued_grows [OF assms(1,2)]] marks_grow_def
  by (simp, meson order_trans)

lemma issued_observation:
  assumes "store_ok d" and "observation s tgt d = Inr (t, d')"
  shows "issued d' t" and "store_ok d'" and "marks_grow d d'"
    and "tk_revision t = clock_revision d + 1" and "tk_scope t = s" and "tk_target t = tgt"
    and "clock_revision d' = tk_revision t" and "tk_database t = clock_identity d"
proof -
  obtain rv where a: "advance d = Inr (rv, d')"
    and t: "t = \<lparr>tk_scope = s, tk_target = tgt, tk_database = fst (clock d), tk_revision = rv\<rparr>"
    using assms(2) by (auto simp: observation_def result_simps)
  note ok = store_ok_advance [OF assms(1) a]
  show "issued d' t"
    using ok assms(1) by (auto simp: issued_def t clock_def marks_grow_def store_ok_def revisions_ok_def)
  show "store_ok d'" "marks_grow d d'" "tk_revision t = clock_revision d + 1" "tk_scope t = s"
    "tk_target t = tgt" "clock_revision d' = tk_revision t" "tk_database t = clock_identity d"
    using ok by (simp_all add: t clock_def)
qed

section \<open>The operations\<close>

lemma publish_node_cases:
  assumes "publish_node now t n d = Inr (res, d')" and "issued d t"
  shows "(res = Superseded (node_on d (tk_scope t) (node_id n)) \<and> d' = d \<and> current d t [n] = Inr False)
    \<or> (\<exists>e. res = Published n (node_on d (tk_scope t) (node_id n) \<noteq> Some n)
         \<and> tk_target t = TargetNode (node_id n) \<and> current d t [n] = Inr True
         \<and> changed_items (tk_scope t) [n] [] None d = Inr e
         \<and> d' = write_node (tk_scope t) n now (tk_revision t) e)"
  using assms by (auto simp: publish_node_def result_simps split: target.splits if_splits)

lemma publish_node_ok:
  assumes "store_ok d" and "issued d t" and "publish_node now t n d = Inr (res, d')"
  shows "store_ok d'" and "marks_grow d d'"
proof -
  have "store_ok d' \<and> marks_grow d d'"
    using publish_node_cases [OF assms(3,2)]
  proof (elim disjE conjE exE)
    fix e
    assume ci: "changed_items (tk_scope t) [n] [] None d = Inr e"
      and d': "d' = write_node (tk_scope t) n now (tk_revision t) e"
    note e = store_ok_changed_items [OF assms(1) ci]
    have "tk_revision t \<le> clock_revision e"
      using assms(2) e(3) by (simp add: issued_def)
    then show ?thesis
      using e(1,2) by (auto simp: d' store_ok_write_node intro: marks_grow_trans)
  qed (use assms(1) in auto)
  then show "store_ok d'" "marks_grow d d'"
    by simp_all
qed

lemma publish_directory_cases:
  assumes "publish_directory now t ns d = Inr (res, d')"
  shows "\<exists>p. tk_target t = TargetDirectory p \<and>
    ((res = Superseded (listing d (tk_scope t) p False) \<and> d' = d \<and> current d t ns = Inr False)
    \<or> (\<exists>changed. res = Published ns changed \<and> current d t ns = Inr True
         \<and> write_directory now (tk_scope t) p ns (tk_revision t) d = Inr (changed, d')))"
  using assms
  by (auto simp: publish_directory_def result_simps children_on_eq split: target.splits if_splits)

lemma publish_directory_ok:
  assumes "store_ok d" and "issued d t" and "publish_directory now t ns d = Inr (res, d')"
  shows "store_ok d'" and "marks_grow d d'"
proof -
  have le: "tk_revision t \<le> clock_revision d"
    using assms(2) by (simp add: issued_def)
  have "store_ok d' \<and> marks_grow d d'"
    using publish_directory_cases [OF assms(3)] store_ok_write_directory [OF assms(1) _ le] assms(1)
    by (metis marks_grow_refl)
  then show "store_ok d'" "marks_grow d d'"
    by simp_all
qed

lemma observe_node_ok:
  assumes "store_ok d" and "observe_node now s n d = Inr d'"
  shows "store_ok d'" and "marks_grow d d'" and "node_on d' s (node_id n) = Some n"
proof -
  obtain e f rv where ci: "changed_items s [n] [] None d = Inr e" and a: "advance e = Inr (rv, f)"
    and d': "d' = write_node s n now rv f"
    using assms(2) by (auto simp: observe_node_def result_simps)
  note e = store_ok_changed_items [OF assms(1) ci]
  note f = store_ok_advance [OF e(1) a]
  show "store_ok d'" "marks_grow d d'"
    using e(2) f by (auto simp: d' store_ok_write_node intro: marks_grow_trans)
  show "node_on d' s (node_id n) = Some n"
    by (simp add: d' write_node_def node_on_def)
qed

lemma observe_directory_ok:
  assumes "store_ok d" and "observe_directory now s p ns d = Inr (changed, d')"
  shows "store_ok d'" and "marks_grow d d'"
proof -
  obtain e rv where a: "advance d = Inr (rv, e)" and w: "write_directory now s p ns rv e = Inr (changed, d')"
    using assms(2) by (auto simp: observe_directory_def result_simps)
  note e = store_ok_advance [OF assms(1) a]
  have "rv \<le> clock_revision e"
    using e(3) by simp
  then show "store_ok d'" "marks_grow d d'"
    using store_ok_write_directory [OF e(1) w] e(2) by (auto intro: marks_grow_trans)
qed

lemma mark_as_all: "mark s k i rv d = mark_all s k [i] rv d"
  by (simp add: mark_all_def)

lemma publish_absence_cases:
  assumes "publish_absence t d = Inr (res, d')"
  shows "\<exists>i. tk_target t = TargetNode i \<and>
    ((res = AbsenceSuperseded (node_on d (tk_scope t) i) \<and> d' = d)
    \<or> (\<exists>e ps. current d t (optional (node_on d (tk_scope t) i)) = Inr True
         \<and> advance d = Inr (clock_revision d + 1, e)
         \<and> res = AbsencePublished (node_on d (tk_scope t) i \<noteq> None
                    \<or> fmlookup (observed_absent d) (tk_scope t, i) = None)
         \<and> d' = (mark_all (tk_scope t) 2 (i # ps) (clock_revision d + 1)
                  (mark_all (tk_scope t) 1 [i] (clock_revision d + 1) e))
                \<lparr>observed := fmdrop (tk_scope t, i) (observed d),
                 observed_absent := fmupd (tk_scope t, i) (tk_revision t) (observed_absent d)\<rparr>))"
proof -
  obtain i where i: "tk_target t = TargetNode i"
    using assms by (auto simp: publish_absence_def split: target.splits)
  let ?old = "node_on d (tk_scope t) i"
  define ps where "ps = (case ?old of None \<Rightarrow> [] | Some n \<Rightarrow> optional (parent_id n))"
  show ?thesis
    using assms
    by (auto simp: publish_absence_def i Let_def result_simps mark_def mark_all_def optional_def
        intro!: exI [of _ ps] split: if_splits)
       (auto simp: ps_def optional_def mark_def split: option.splits)
qed

lemma publish_absence_ok:
  assumes "store_ok d" and "issued d t" and "publish_absence t d = Inr (res, d')"
  shows "store_ok d'" and "marks_grow d d'"
    and "res = AbsencePublished changed \<Longrightarrow> tk_target t = TargetNode i \<Longrightarrow> node_on d' (tk_scope t) i = None"
proof -
  have "store_ok d' \<and> marks_grow d d' \<and>
      (res = AbsencePublished changed \<longrightarrow> tk_target t = TargetNode i \<longrightarrow> node_on d' (tk_scope t) i = None)"
    using publish_absence_cases [OF assms(3)]
  proof (elim exE conjE disjE)
    fix j e ps
    assume a: "advance d = Inr (clock_revision d + 1, e)" and j: "tk_target t = TargetNode j"
      and d': "d' = (mark_all (tk_scope t) 2 (j # ps) (clock_revision d + 1)
                  (mark_all (tk_scope t) 1 [j] (clock_revision d + 1) e))
                \<lparr>observed := fmdrop (tk_scope t, j) (observed d),
                 observed_absent := fmupd (tk_scope t, j) (tk_revision t) (observed_absent d)\<rparr>"
    note e = store_ok_advance [OF assms(1) a]
    let ?m = "mark_all (tk_scope t) 2 (j # ps) (clock_revision d + 1)
                  (mark_all (tk_scope t) 1 [j] (clock_revision d + 1) e)"
    have m: "store_ok ?m" "marks_grow d ?m"
      using store_ok_mark_all [OF e(1), of "tk_scope t" 1 "[j]"]
        store_ok_mark_all [OF store_ok_mark_all(1) [OF e(1), of "tk_scope t" 1 "[j]"], of "tk_scope t" 2 "j # ps"]
        e(2,3) by (auto simp: mark_all_eq intro: marks_grow_trans)
    have tab: "observed ?m = observed d" "observed_absent ?m = observed_absent d"
      "clock_revision ?m = clock_revision d + 1"
      using a by (auto simp: mark_all_eq result_simps)
    have "tk_revision t \<le> clock_revision ?m"
      using assms(2) tab(3) by (simp add: issued_def)
    then have "store_ok d'"
      using m(1) tab unfolding d' by (auto simp: store_ok_defs)
    moreover have "marks_grow ?m d'"
      by (rule marks_grow_tables) (simp_all add: d')
    ultimately show ?thesis
      using m(2) j by (auto simp: d' node_on_def intro: marks_grow_trans)
  qed (use assms(1) in auto)
  then show "store_ok d'" "marks_grow d d'"
    "res = AbsencePublished changed \<Longrightarrow> tk_target t = TargetNode i \<Longrightarrow> node_on d' (tk_scope t) i = None"
    by simp_all
qed

text \<open>Both handoffs either leave the database alone or publish through the same three steps.\<close>

lemma settle_handoff_ok:
  assumes "store_ok d" and "settle_handoff now s ns original d = Inr d'"
  shows "store_ok d'" and "marks_grow d d'"
    and "n \<in> set ns \<Longrightarrow> distinct (map node_id ns) \<Longrightarrow> node_on d' s (node_id n) = Some n"
    and "i \<notin> node_id ` set ns \<Longrightarrow> node_on d' s i = node_on d s i"
proof -
  obtain e rv f where ci: "changed_items s ns [original] None d = Inr e" and a: "advance e = Inr (rv, f)"
    and d': "d' = fold (\<lambda>n. write_node s n now rv) ns f"
    using assms(2) by (auto simp: settle_handoff_def result_simps)
  note e = store_ok_changed_items [OF assms(1) ci]
  note f = store_ok_advance [OF e(1) a]
  show "store_ok d'" "marks_grow d d'"
    unfolding d' using e(2) f store_ok_fold_write_node [OF f(1), of rv] by (auto intro: marks_grow_trans)
  show "node_on d' s (node_id n) = Some n" if "n \<in> set ns" "distinct (map node_id ns)"
    using that find_distinct_id [OF that(2,1)]
    by (simp add: d' node_on_def fold_write_node fmlookup_upsert_distinct comp_def map_of_find)
  have "node_on f s i = node_on d s i"
    using changed_items_ok [OF ci] a by (auto simp: result_simps node_on_frame)
  then show "node_on d' s i = node_on d s i" if "i \<notin> node_id ` set ns"
    using that by (simp add: d' node_on_fold_write_node)
qed

lemma ordinary_handoff_cases:
  assumes "publish_ordinary_handoff_backup now s original cur backup d = Inr (settled, d')"
  shows "ordinary_handoff_ok original cur backup \<and> (d' = d \<or>
    (settled \<and> fmlookup (observed_absent d) (s, node_id original) = None
     \<and> node_on d s (node_id original) \<in> {None, Some original}
     \<and> settle_handoff now s [backup] original d = Inr d'))"
  using assms
  by (auto simp: publish_ordinary_handoff_backup_def result_simps Let_def differs_def
      split: if_splits option.splits)

lemma native_handoff_cases:
  assumes "publish_native_handoff now s original cur backup d = Inr (settled, d')"
  shows "native_handoff_ok s original cur backup \<and> (d' = d \<or>
    (settled \<and> fmlookup (observed_absent d) (s, node_id original) = None
     \<and> node_on d s (node_id original) \<in> {None, Some original}
     \<and> (\<exists>published \<in> {[backup], [backup, cur]}. settle_handoff now s published original d = Inr d')))"
  using assms
  by (auto simp: publish_native_handoff_def result_simps Let_def differs_def
      split: if_splits option.splits)

end
