(* ===== verification/Store_Feed.thy ===== *)
theory Store_Feed
  imports Observation_Safety
begin

text \<open>
  Crash-resumable change feeds (\<open>cirrove-store/src/lib.rs\<close>): rounds are begun,
  pages are staged, and only the last page replaces the visible index, advances
  the cursor and invalidates what it supersedes, all in one transaction.
\<close>

section \<open>Rounds\<close>

definition feed_default :: feed_row where
  "feed_default = \<lparr>fd_cursor = None, fd_pending = False, fd_next_cursor = None, fd_reset = False\<rparr>"

text \<open>\<open>INSERT OR IGNORE INTO feeds(scope)\<close>.\<close>

definition feed_of :: "db \<Rightarrow> scope \<Rightarrow> feed_row" where
  "feed_of d s = (case fmlookup (feeds d) s of None \<Rightarrow> feed_default | Some f \<Rightarrow> f)"

definition start_round :: "scope \<Rightarrow> db \<Rightarrow> store_error + db" where
  "start_round s d =
     and_then (advance d) (\<lambda>(rv, d). Inr (d\<lparr>rounds := fmupd s rv (rounds d)\<rparr>))"

definition reset_feed :: "scope \<Rightarrow> feed_row \<Rightarrow> db \<Rightarrow> db" where
  "reset_feed s f d =
     d\<lparr>staged := delete_scope s (staged d),
       feeds := fmupd s (f\<lparr>fd_pending := True, fd_next_cursor := None, fd_reset := True\<rparr>) (feeds d)\<rparr>"

definition begin_feed :: "scope \<Rightarrow> bool \<Rightarrow> db \<Rightarrow> store_error + (cursor option \<times> db)" where
  "begin_feed s reset d =
     (let f = feed_of d s; d = d\<lparr>feeds := fmupd s f (feeds d)\<rparr> in
      and_then (if reset \<or> \<not> fd_pending f then start_round s d else Inr d) (\<lambda>d.
      let d = (if reset then reset_feed s f d
               else if \<not> fd_pending f
               then d\<lparr>feeds := fmupd s (f\<lparr>fd_pending := True, fd_next_cursor := fd_cursor f,
                                          fd_reset := (fd_cursor f = None)\<rparr>) (feeds d)\<rparr>
               else d)
      in Inr (fd_next_cursor (feed_of d s), d)))"

definition begin_snapshot :: "scope \<Rightarrow> db \<Rightarrow> store_error + (cursor option \<times> db)" where
  "begin_snapshot s d =
     (let f = feed_of d s; d = d\<lparr>feeds := fmupd s f (feeds d)\<rparr> in
      and_then (if \<not> fd_pending f
                then and_then (start_round s d) (\<lambda>d. Inr (reset_feed s f d))
                else Inr d) (\<lambda>d.
      Inr (fd_next_cursor (feed_of d s), d)))"

section \<open>Staging pages\<close>

fun stage_change :: "scope \<Rightarrow> change \<Rightarrow> (item_key, node option) fmap \<Rightarrow> (item_key, node option) fmap" where
  "stage_change s (Upsert n) t = fmupd (s, node_id n) (Some n) t"
| "stage_change s (Delete i) t = fmupd (s, i) None t"

definition within_round :: "db \<Rightarrow> scope \<Rightarrow> int \<Rightarrow> bool" where
  "within_round d s rv = (case fmlookup (rounds d) s of None \<Rightarrow> False | Some started \<Rightarrow> rv \<le> started)"

text \<open>\<open>DELETE FROM directories\<close> with the cascade of its two foreign keys.\<close>

definition delete_directories :: "(item_key \<Rightarrow> directory_row \<Rightarrow> bool) \<Rightarrow> db \<Rightarrow> db" where
  "delete_directories P d =
     (let gone = (\<lambda>k. case fmlookup (directories d) k of None \<Rightarrow> False | Some row \<Rightarrow> P k row)
      in d\<lparr>directories := fmfilter (\<lambda>k. \<not> gone k) (directories d),
           directory_entries := fmfilter (\<lambda>k. \<not> gone (fst k)) (directory_entries d),
           directory_sources := fmfilter (\<lambda>k. \<not> gone k) (directory_sources d)\<rparr>)"

definition bound_source :: "db \<Rightarrow> item_key \<Rightarrow> bool" where
  "bound_source d k =
     (case fmlookup (directory_sources d) k of None \<Rightarrow> False | Some row \<Rightarrow> src_source row \<noteq> None)"

definition delete_absent :: "(item_key \<Rightarrow> int \<Rightarrow> bool) \<Rightarrow> db \<Rightarrow> db" where
  "delete_absent P d =
     d\<lparr>observed_absent := fmfilter (\<lambda>k. case fmlookup (observed_absent d) k of
          None \<Rightarrow> True | Some v \<Rightarrow> \<not> P k v) (observed_absent d)\<rparr>"

definition delete_observed :: "(item_key \<Rightarrow> int \<Rightarrow> bool) \<Rightarrow> db \<Rightarrow> db" where
  "delete_observed P d =
     d\<lparr>observed := fmfilter (\<lambda>k. case fmlookup (observed d) k of
          None \<Rightarrow> True | Some ob \<Rightarrow> \<not> P k (ob_source_revision ob)) (observed d)\<rparr>"

definition invalidate :: "scope \<Rightarrow> bool \<Rightarrow> db \<Rightarrow> db" where
  "invalidate s reset d =
     (if reset then
        delete_directories (\<lambda>k row. fst k = s \<and> \<not> bound_source d k
            \<and> within_round d s (dir_source_revision row))
          (delete_observed (\<lambda>k v. fst k = s \<and> within_round d s v)
            (delete_absent (\<lambda>k v. fst k = s \<and> within_round d s v) d))
      else
        let touched = (\<lambda>k. fst k = s \<and> fmlookup (staged d) k \<noteq> None) in
        delete_observed (\<lambda>k v. touched k \<and> within_round d s v)
          (delete_absent (\<lambda>k v. touched k \<and> within_round d s v)
            (delete_directories (\<lambda>k row. fst k = s \<and> \<not> bound_source d k
                \<and> within_round d s (dir_source_revision row)
                \<and> snd k \<in> set (delta_parents d s)) d)))"

definition replace_rows :: "scope \<Rightarrow> bool \<Rightarrow> db \<Rightarrow> db" where
  "replace_rows s reset d =
     (let base = (if reset then delete_scope s (nodes d) else nodes d);
          kept = fmfilter (\<lambda>k. \<not> (fst k = s \<and> fmlookup (staged d) k = Some None)) base;
          rows = List.map_filter (\<lambda>(i, b). map_option (Pair i) b) (scope_rows s (staged d))
      in d\<lparr>nodes := upsert_rows s rows kept, staged := delete_scope s (staged d)\<rparr>)"

definition stage :: "scope \<Rightarrow> cursor option \<Rightarrow> change_page \<Rightarrow> db \<Rightarrow> store_error + db" where
  "stage s expected page d =
     (case fmlookup (feeds d) s of
        None \<Rightarrow> Inl NoRefresh
      | Some f \<Rightarrow>
          if \<not> fd_pending f then Inl NoRefresh
          else if fd_next_cursor f \<noteq> expected then Inl OutOfOrder
          else
            let d = d\<lparr>staged := fold (stage_change s) (page_changes page) (staged d)\<rparr>;
                c = checkpoint_cursor (page_checkpoint page) in
            if checkpoint_complete (page_checkpoint page) then
              and_then (publish_delta s (fd_reset f) d) (\<lambda>d.
              let d = replace_rows s (fd_reset f) (invalidate s (fd_reset f) d) in
              Inr (d\<lparr>feeds := fmupd s (f\<lparr>fd_cursor := Some c, fd_next_cursor := None,
                                        fd_pending := False, fd_reset := False\<rparr>) (feeds d)\<rparr>))
            else Inr (d\<lparr>feeds := fmupd s (f\<lparr>fd_next_cursor := Some c\<rparr>) (feeds d)\<rparr>))"

definition feed_cursor :: "db \<Rightarrow> scope \<Rightarrow> cursor option" where
  "feed_cursor d s = (case fmlookup (feeds d) s of None \<Rightarrow> None | Some f \<Rightarrow> fd_cursor f)"

definition scope_nodes :: "db \<Rightarrow> scope \<Rightarrow> node list" where
  "scope_nodes d s = map snd (scope_rows s (nodes d))"

definition counts :: "db \<Rightarrow> nat \<times> nat" where
  "counts d = (fcard (fmdom (feeds d)), fcard (fmdom (nodes d)))"

section \<open>What the feed promises\<close>

text \<open>
  The specification of one scope's feed: what readers see, the completed cursor,
  and, while a round runs, its saved cursor with the index it is building.
\<close>

record feed_spec =
  spec_visible :: "string \<Rightarrow> node option"
  spec_cursor :: "cursor option"
  spec_round :: "(cursor option \<times> (string \<Rightarrow> node option)) option"

fun apply_change :: "change \<Rightarrow> (string \<Rightarrow> node option) \<Rightarrow> (string \<Rightarrow> node option)" where
  "apply_change (Upsert n) m = m(node_id n \<mapsto> n)"
| "apply_change (Delete i) m = m(i := None)"

definition spec_begin :: "bool \<Rightarrow> feed_spec \<Rightarrow> feed_spec" where
  "spec_begin reset sp =
     (if reset then sp\<lparr>spec_round := Some (None, Map.empty)\<rparr>
      else case spec_round sp of
        Some r \<Rightarrow> sp
      | None \<Rightarrow> sp\<lparr>spec_round := Some (spec_cursor sp,
                   if spec_cursor sp = None then Map.empty else spec_visible sp)\<rparr>)"

definition spec_stage :: "cursor option \<Rightarrow> change_page \<Rightarrow> feed_spec \<Rightarrow> store_error + feed_spec" where
  "spec_stage expected page sp =
     (case spec_round sp of
        None \<Rightarrow> Inl NoRefresh
      | Some (saved, img) \<Rightarrow>
          if saved \<noteq> expected then Inl OutOfOrder
          else
            let img' = fold apply_change (page_changes page) img in
            case page_checkpoint page of
              Continue c \<Rightarrow> Inr (sp\<lparr>spec_round := Some (Some c, img')\<rparr>)
            | Complete c \<Rightarrow> Inr \<lparr>spec_visible = img', spec_cursor = Some c, spec_round = None\<rparr>)"

definition staged_image :: "db \<Rightarrow> scope \<Rightarrow> bool \<Rightarrow> string \<Rightarrow> node option" where
  "staged_image d s reset i =
     (case fmlookup (staged d) (s, i) of
        Some b \<Rightarrow> b
      | None \<Rightarrow> if reset then None else fmlookup (nodes d) (s, i))"

definition abs_feed :: "db \<Rightarrow> scope \<Rightarrow> feed_spec" where
  "abs_feed d s = \<lparr>spec_visible = (\<lambda>i. fmlookup (nodes d) (s, i)), spec_cursor = feed_cursor d s,
     spec_round = (case fmlookup (feeds d) s of None \<Rightarrow> None
       | Some f \<Rightarrow> if fd_pending f then Some (fd_next_cursor f, staged_image d s (fd_reset f)) else None)\<rparr>"

section \<open>Refinement\<close>

lemma staged_image_stage:
  "staged_image (d\<lparr>staged := fold (stage_change s) cs (staged d)\<rparr>) s r =
   fold apply_change cs (staged_image d s r)"
proof (induction cs arbitrary: d)
  case (Cons c cs)
  have "staged_image (d\<lparr>staged := stage_change s c (staged d)\<rparr>) s r =
      apply_change c (staged_image d s r)"
    by (cases c) (auto simp: staged_image_def fun_eq_iff cong: option.case_cong)
  then show ?case
    using Cons [of "d\<lparr>staged := stage_change s c (staged d)\<rparr>"] by simp
qed simp

lemma staged_other_scope:
  "s' \<noteq> s \<Longrightarrow> fmlookup (fold (stage_change s) cs t) (s', i) = fmlookup t (s', i)"
proof (induction cs arbitrary: t)
  case (Cons c cs)
  then show ?case
    by (cases c) auto
qed simp

definition present_rows :: "('k \<times> 'v option) list \<Rightarrow> ('k \<times> 'v) list" where
  "present_rows rows = List.map_filter (\<lambda>(i, b). map_option (Pair i) b) rows"

lemma present_rows_simps [simp]:
  "present_rows [] = []"
  "present_rows ((i, None) # rows) = present_rows rows"
  "present_rows ((i, Some v) # rows) = (i, v) # present_rows rows"
  by (simp_all add: present_rows_def List.map_filter_simps)

lemma fst_present_rows: "fst ` set (present_rows rows) \<subseteq> fst ` set rows"
proof (induction rows)
  case (Cons r rows)
  then show ?case
    by (cases r; cases "snd r") auto
qed simp

lemma map_of_present_rows:
  assumes "distinct (map fst rows)"
  shows "map_of (present_rows rows) i = Option.bind (map_of rows i) id"
    and "distinct (map fst (present_rows rows))"
proof -
  have "map_of (present_rows rows) i = Option.bind (map_of rows i) id \<and> distinct (map fst (present_rows rows))"
    using assms
  proof (induction rows)
    case (Cons r rows)
    obtain j b where r: "r = (j, b)"
      by (cases r)
    have "j \<notin> fst ` set (present_rows rows)"
      using Cons.prems fst_present_rows [of rows] by (auto simp: r)
    moreover have "map_of rows j = None"
      using Cons.prems by (simp add: r map_of_eq_None_iff)
    ultimately show ?case
      using Cons by (cases b) (auto simp: r)
  qed simp
  then show "map_of (present_rows rows) i = Option.bind (map_of rows i) id"
    and "distinct (map fst (present_rows rows))"
    by simp_all
qed

lemma replace_rows_nodes:
  "fmlookup (nodes (replace_rows s reset d)) (s', i) =
     (if s' = s then staged_image d s reset i else fmlookup (nodes d) (s', i))"
proof -
  have dist: "distinct (map fst (scope_rows s (staged d)))"
    by (simp add: fst_scope_rows)
  show ?thesis
    unfolding replace_rows_def Let_def
    by (auto simp: fmlookup_upsert_distinct map_of_present_rows [OF dist] present_rows_def [symmetric] staged_image_def
        split: option.splits Option.bind_splits)
qed

lemma invalidate_frame [frame_simps]:
  "feeds (invalidate s reset d) = feeds d"
  "nodes (invalidate s reset d) = nodes d"
  "staged (invalidate s reset d) = staged d"
  "rounds (invalidate s reset d) = rounds d"
  "clock_identity (invalidate s reset d) = clock_identity d"
  "clock_revision (invalidate s reset d) = clock_revision d"
  "metadata_versions (invalidate s reset d) = metadata_versions d"
  by (simp_all add: invalidate_def delete_directories_def delete_absent_def delete_observed_def Let_def)

lemma replace_rows_frame [frame_simps]:
  "feeds (replace_rows s reset d) = feeds d"
  "observed (replace_rows s reset d) = observed d"
  "directories (replace_rows s reset d) = directories d"
  "directory_entries (replace_rows s reset d) = directory_entries d"
  "directory_sources (replace_rows s reset d) = directory_sources d"
  "rounds (replace_rows s reset d) = rounds d"
  "observed_absent (replace_rows s reset d) = observed_absent d"
  "clock_identity (replace_rows s reset d) = clock_identity d"
  "clock_revision (replace_rows s reset d) = clock_revision d"
  "metadata_versions (replace_rows s reset d) = metadata_versions d"
  "staged (replace_rows s reset d) = delete_scope s (staged d)"
  by (simp_all add: replace_rows_def Let_def)

lemma publish_delta_frame:
  assumes "publish_delta s reset d = Inr d'"
  shows "\<exists>c vs. d' = d\<lparr>clock_revision := c, metadata_versions := vs\<rparr>"
proof (cases "\<not> reset \<and> scope_rows s (staged d) = []")
  case True
  then have "d' = d\<lparr>clock_revision := clock_revision d, metadata_versions := metadata_versions d\<rparr>"
    using assms by (simp add: publish_delta_def)
  then show ?thesis
    by blast
next
  case False
  then show ?thesis
    using assms by (cases reset) (auto simp: publish_delta_def result_simps mark_def mark_all_eq)
qed

lemma staged_image_cong:
  "staged d = staged e \<Longrightarrow> nodes d = nodes e \<Longrightarrow> staged_image d = staged_image e"
  by (simp add: staged_image_def fun_eq_iff cong: option.case_cong)

lemma staged_image_scope:
  assumes "\<And>i. fmlookup (staged d) (s, i) = fmlookup (staged e) (s, i)"
    and "\<And>i. fmlookup (nodes d) (s, i) = fmlookup (nodes e) (s, i)"
  shows "staged_image d s = staged_image e s"
  using assms by (simp add: staged_image_def fun_eq_iff cong: option.case_cong)

lemma abs_feed_other:
  assumes "\<And>i. fmlookup (staged d) (s, i) = fmlookup (staged e) (s, i)"
    and "\<And>i. fmlookup (nodes d) (s, i) = fmlookup (nodes e) (s, i)"
    and "fmlookup (feeds d) s = fmlookup (feeds e) s"
  shows "abs_feed d s = abs_feed e s"
  using assms staged_image_scope [of d s e]
  by (simp add: abs_feed_def feed_cursor_def split: option.splits)

lemma stage_complete:
  assumes "stage s expected page d = Inr d'" and "page_checkpoint page = Complete c"
    and "fmlookup (feeds d) s = Some f"
  obtains g where
    "publish_delta s (fd_reset f)
       (d\<lparr>staged := fold (stage_change s) (page_changes page) (staged d)\<rparr>) = Inr g"
    "d' = (replace_rows s (fd_reset f) (invalidate s (fd_reset f) g))
        \<lparr>feeds := fmupd s (f\<lparr>fd_cursor := Some c, fd_next_cursor := None, fd_pending := False,
                          fd_reset := False\<rparr>) (feeds g)\<rparr>"
  using assms by (auto simp: stage_def Let_def result_simps frame_simps split: if_splits)

lemma abs_feed_stage:
  assumes "stage s expected page d = Inr d'"
  shows "spec_stage expected page (abs_feed d s) = Inr (abs_feed d' s)"
    and "s' \<noteq> s \<Longrightarrow> abs_feed d' s' = abs_feed d s'"
proof -
  obtain f where f: "fmlookup (feeds d) s = Some f" "fd_pending f" "fd_next_cursor f = expected"
    using assms by (auto simp: stage_def split: option.splits if_splits)
  define e where "e = d\<lparr>staged := fold (stage_change s) (page_changes page) (staged d)\<rparr>"
  let ?img = "fold apply_change (page_changes page) (staged_image d s (fd_reset f))"
  have img: "staged_image e s (fd_reset f) = ?img"
    unfolding e_def by (rule staged_image_stage)
  have e: "nodes e = nodes d" "feeds e = feeds d"
    "s' \<noteq> s \<Longrightarrow> fmlookup (staged e) (s', i) = fmlookup (staged d) (s', i)" for s' i
    by (simp_all add: e_def staged_other_scope)
  have "spec_stage expected page (abs_feed d s) = Inr (abs_feed d' s)
      \<and> (s' \<noteq> s \<longrightarrow> abs_feed d' s' = abs_feed d s')" for s'
  proof (cases "page_checkpoint page")
    case (Continue c)
    then have d': "d' = e\<lparr>feeds := fmupd s (f\<lparr>fd_next_cursor := Some c\<rparr>) (feeds d)\<rparr>"
      using assms f by (simp add: stage_def e_def)
    then have "staged_image d' = staged_image e"
      by (intro staged_image_cong) simp_all
    then have "spec_stage expected page (abs_feed d s) = Inr (abs_feed d' s)"
      using Continue f img by (simp add: spec_stage_def abs_feed_def feed_cursor_def d' e)
    moreover have "s' \<noteq> s \<Longrightarrow> abs_feed d' s' = abs_feed d s'"
      by (rule abs_feed_other) (simp_all add: d' e)
    ultimately show ?thesis
      by blast
  next
    case (Complete c)
    from stage_complete [OF assms Complete f(1)]
    obtain g where g: "publish_delta s (fd_reset f) e = Inr g"
      and d': "d' = (replace_rows s (fd_reset f) (invalidate s (fd_reset f) g))
        \<lparr>feeds := fmupd s (f\<lparr>fd_cursor := Some c, fd_next_cursor := None, fd_pending := False,
                          fd_reset := False\<rparr>) (feeds g)\<rparr>"
      unfolding e_def .
    have gs: "staged g = staged e" "nodes g = nodes e" "feeds g = feeds e"
      using publish_delta_frame [OF g] by auto
    have si: "staged_image (invalidate s (fd_reset f) g) = staged_image e"
      by (rule staged_image_cong) (simp_all add: frame_simps gs)
    have "spec_stage expected page (abs_feed d s) = Inr (abs_feed d' s)"
      using Complete f by (simp add: spec_stage_def abs_feed_def feed_cursor_def d' replace_rows_nodes si img e gs)
    moreover have "s' \<noteq> s \<Longrightarrow> abs_feed d' s' = abs_feed d s'"
      by (rule abs_feed_other) (simp_all add: d' e gs replace_rows_nodes frame_simps)
    ultimately show ?thesis
      by blast
  qed
  then show "spec_stage expected page (abs_feed d s) = Inr (abs_feed d' s)"
    and "s' \<noteq> s \<Longrightarrow> abs_feed d' s' = abs_feed d s'"
    by simp_all
qed

lemma start_round_frame:
  assumes "start_round s d = Inr d'"
  shows "d' = d\<lparr>clock_revision := clock_revision d + 1, rounds := fmupd s (clock_revision d + 1) (rounds d)\<rparr>"
    and "clock_revision d + 1 \<le> i64_max"
  using assms by (auto simp: start_round_def result_simps)

lemma feed_of_upd [simp]: "feed_of (d\<lparr>feeds := fmupd s f t\<rparr>) s = f"
  by (simp add: feed_of_def)

lemma feed_of_reset [simp]:
  "feed_of (reset_feed s f d) s = f\<lparr>fd_pending := True, fd_next_cursor := None, fd_reset := True\<rparr>"
  by (simp add: reset_feed_def)

lemma begin_feed_cases:
  assumes "begin_feed s reset d = Inr (c, d')"
  obtains (resumed) "fd_pending (feed_of d s)" "\<not> reset"
      "d' = d\<lparr>feeds := fmupd s (feed_of d s) (feeds d)\<rparr>" "c = fd_next_cursor (feed_of d s)"
    | (reset) e where "reset" "start_round s (d\<lparr>feeds := fmupd s (feed_of d s) (feeds d)\<rparr>) = Inr e"
      "d' = reset_feed s (feed_of d s) e" "c = None"
    | (fresh) e where "\<not> reset" "\<not> fd_pending (feed_of d s)"
      "start_round s (d\<lparr>feeds := fmupd s (feed_of d s) (feeds d)\<rparr>) = Inr e"
      "d' = e\<lparr>feeds := fmupd s ((feed_of d s)\<lparr>fd_pending := True, fd_next_cursor := fd_cursor (feed_of d s),
          fd_reset := (fd_cursor (feed_of d s) = None)\<rparr>) (feeds e)\<rparr>" "c = fd_cursor (feed_of d s)"
  using assms
  by (cases reset; cases "fd_pending (feed_of d s)") (auto simp: begin_feed_def Let_def result_simps)

lemma begin_snapshot_cases:
  assumes "begin_snapshot s d = Inr (c, d')"
  obtains (resumed) "fd_pending (feed_of d s)"
      "d' = d\<lparr>feeds := fmupd s (feed_of d s) (feeds d)\<rparr>" "c = fd_next_cursor (feed_of d s)"
    | (reset) e where "\<not> fd_pending (feed_of d s)"
      "start_round s (d\<lparr>feeds := fmupd s (feed_of d s) (feeds d)\<rparr>) = Inr e"
      "d' = reset_feed s (feed_of d s) e" "c = None"
  using assms
  by (cases "fd_pending (feed_of d s)") (auto simp: begin_snapshot_def Let_def result_simps)

lemma abs_feed_begin:
  assumes "feeds_ok d" and "begin_feed s reset d = Inr (c, d')"
  shows "abs_feed d' s = spec_begin reset (abs_feed d s)"
    and "map_option fst (spec_round (abs_feed d' s)) = Some c"
proof -
  have st: "fmlookup (staged d) (s, i) = None" if "\<not> fd_pending (feed_of d s)" for i
  proof (rule ccontr)
    assume "fmlookup (staged d) (s, i) \<noteq> None"
    then obtain f where "fmlookup (feeds d) s = Some f" "fd_pending f"
      using assms(1) unfolding feeds_ok_def by blast
    then show False
      using that by (simp add: feed_of_def)
  qed
  have "abs_feed d' s = spec_begin reset (abs_feed d s)
      \<and> map_option fst (spec_round (abs_feed d' s)) = Some c"
    using assms(2)
  proof (cases rule: begin_feed_cases)
    case resumed
    then show ?thesis
      by (auto simp: abs_feed_def spec_begin_def feed_cursor_def staged_image_def feed_of_def
          feed_default_def fun_eq_iff cong: option.case_cong split: option.splits)
  next
    case (reset e)
    then show ?thesis
      using start_round_frame(1) [OF reset(2)]
      by (auto simp: abs_feed_def spec_begin_def feed_cursor_def staged_image_def feed_of_def
          feed_default_def reset_feed_def fun_eq_iff split: option.splits)
  next
    case (fresh e)
    then show ?thesis
      using start_round_frame(1) [OF fresh(3)] st
      by (auto simp: abs_feed_def spec_begin_def feed_cursor_def staged_image_def feed_of_def
          feed_default_def fun_eq_iff cong: option.case_cong split: option.splits)
  qed
  then show "abs_feed d' s = spec_begin reset (abs_feed d s)"
    and "map_option fst (spec_round (abs_feed d' s)) = Some c"
    by blast+
qed

end
