(* ===== verification/Feed_Safety.thy ===== *)
theory Feed_Safety
  imports Store_Feed
begin

text \<open>
  The change feed keeps the database well formed and moves revision marks forward,
  and a completed feed supersedes every ticket for what it touched.
\<close>

lemma versions_reset:
  "fmlookup (metadata_versions (mark s 0 '''' rv (d\<lparr>metadata_versions := delete_scope s (metadata_versions d)\<rparr>))) (s', k, i) =
     (if s' = s then (if k = 0 \<and> i = '''' then Some rv else None)
      else fmlookup (metadata_versions d) (s', k, i))"
  by (auto simp: mark_def)

lemma publish_delta_reset:
  assumes "store_ok d" and "publish_delta s True d = Inr g"
  shows "store_ok g" and "marks_grow d g" and "clock_revision g = clock_revision d + 1"
    and "effective_mark g s k i = clock_revision g"
proof -
  obtain rv e where a: "advance d = Inr (rv, e)"
    and g: "g = mark s 0 '''' rv (e\<lparr>metadata_versions := delete_scope s (metadata_versions e)\<rparr>)"
    using assms(2) by (auto simp: publish_delta_def result_simps)
  note e = store_ok_advance [OF assms(1) a]
  have r: "revisions_ok e"
    using e(1) by (simp add: store_ok_def)
  have ge: "g = e\<lparr>clock_revision := clock_revision e, metadata_versions := metadata_versions g\<rparr>"
    by (simp add: g mark_def)
  have vs: "fmlookup (metadata_versions g) (s', k, i) =
     (if s' = s then (if k = 0 \<and> i = '''' then Some rv else None)
      else fmlookup (metadata_versions e) (s', k, i))" for s' k i
    unfolding g by (rule versions_reset)
  have "0 \<le> v \<and> v \<le> clock_revision e" if "fmlookup (metadata_versions g) kk = Some v" for kk v
    using that vs [of "fst kk" "fst (snd kk)" "snd (snd kk)"] e(3) revisionsD(1,6) [OF r]
    by (auto split: if_splits)
  then have "store_ok (e\<lparr>clock_revision := clock_revision e, metadata_versions := metadata_versions g\<rparr>)"
    using e(1) revisionsD(7) [OF r] by (intro store_ok_bump) auto
  then show "store_ok g"
    using ge by simp
  show c: "clock_revision g = clock_revision d + 1"
    using e(3,4) by (simp add: g mark_def)
  show em: "effective_mark g s k i = clock_revision g" for k i
    using revisionsD(6) [OF r] e(3,4) c
    by (simp add: effective_mark_def mark_of_def vs)
  have "effective_mark e s' k i \<le> effective_mark g s' k i" for s' k i
  proof (cases "s' = s")
    case True
    then show ?thesis
      using effective_mark_le_clock [OF r] em c e(3,4) by simp
  next
    case False
    then show ?thesis
      by (simp add: effective_mark_def mark_of_def vs)
  qed
  then have "marks_grow e g"
    by (simp add: marks_grow_def g mark_def)
  then show "marks_grow d g"
    using e(2) marks_grow_trans by blast
qed

lemma publish_delta_staged:
  assumes "store_ok d" and "publish_delta s False d = Inr g"
  shows "store_ok g" and "marks_grow d g"
    and "fmlookup (staged d) (s, i) \<noteq> None \<Longrightarrow>
      clock_revision g = clock_revision d + 1 \<and> mark_of g s 1 i = clock_revision g"
proof -
  have "store_ok g \<and> marks_grow d g \<and> (fmlookup (staged d) (s, i) \<noteq> None \<longrightarrow>
      clock_revision g = clock_revision d + 1 \<and> mark_of g s 1 i = clock_revision g)"
  proof (cases "scope_rows s (staged d) = []")
    case True
    then have "fmlookup (staged d) (s, i) = None"
      by (metis empty_iff list.set(1) not_Some_eq set_scope_rows)
    then show ?thesis
      using assms True by (simp add: publish_delta_def)
  next
    case False
    then obtain rv e where a: "advance d = Inr (rv, e)"
      and g: "g = mark_all s 2 (delta_parents e s) rv (mark_all s 1 (map fst (scope_rows s (staged e))) rv e)"
      using assms(2) by (auto simp: publish_delta_def result_simps)
    note e = store_ok_advance [OF assms(1) a]
    let ?m = "mark_all s 1 (map fst (scope_rows s (staged e))) rv e"
    have m: "store_ok ?m" "marks_grow e ?m" "clock_revision ?m = rv"
      using store_ok_mark_all [OF e(1)] e(3) by (simp_all add: mark_all_eq)
    have g': "store_ok g" "marks_grow ?m g"
      using store_ok_mark_all [OF m(1), of s 2 "delta_parents e s"] unfolding g m(3) by simp_all
    have st: "staged e = staged d"
      using a by (auto simp: result_simps)
    have "mark_of g s 1 i = rv" if "fmlookup (staged d) (s, i) \<noteq> None"
      using that by (simp add: g mark_of_def versions_mark_all fst_scope_rows set_scope_ids st)
    moreover have "clock_revision g = rv"
      using e(3) by (simp add: g mark_all_eq)
    ultimately show ?thesis
      using g' m(2) e(2,4) by (auto intro: marks_grow_trans)
  qed
  then show "store_ok g" "marks_grow d g"
    "fmlookup (staged d) (s, i) \<noteq> None \<Longrightarrow>
      clock_revision g = clock_revision d + 1 \<and> mark_of g s 1 i = clock_revision g"
    by blast+
qed

lemma publish_delta_ok:
  assumes "store_ok d" and "publish_delta s reset d = Inr g"
  shows "store_ok g" and "marks_grow d g"
proof -
  have "store_ok g \<and> marks_grow d g"
  proof (cases reset)
    case True
    then have "publish_delta s True d = Inr g"
      using assms(2) by simp
    then show ?thesis
      using assms(1) publish_delta_reset(1,2) by blast
  next
    case False
    then have "publish_delta s False d = Inr g"
      using assms(2) by simp
    then show ?thesis
      using assms(1) publish_delta_staged(1,2) by blast
  qed
  then show "store_ok g" "marks_grow d g"
    by blast+
qed

section \<open>Invalidation and replacement\<close>

definition subtable :: "('k, 'v) fmap \<Rightarrow> ('k, 'v) fmap \<Rightarrow> bool" where
  "subtable t u \<longleftrightarrow> (\<forall>k v. fmlookup t k = Some v \<longrightarrow> fmlookup u k = Some v)"

lemma subtable_refl [simp]: "subtable t t"
  by (simp add: subtable_def)

lemma subtable_trans: "subtable t u \<Longrightarrow> subtable u w \<Longrightarrow> subtable t w"
  by (simp add: subtable_def)

lemma subtable_filter [simp]: "subtable (fmfilter P t) t"
  by (simp add: subtable_def)

lemma subtableD: "subtable t u \<Longrightarrow> fmlookup t k = Some v \<Longrightarrow> fmlookup u k = Some v"
  by (simp add: subtable_def)

definition shrinks :: "db \<Rightarrow> db \<Rightarrow> bool" where
  "shrinks d e \<longleftrightarrow>
     subtable (observed e) (observed d) \<and> subtable (observed_absent e) (observed_absent d)
   \<and> subtable (directories e) (directories d)
   \<and> subtable (directory_entries e) (directory_entries d)
   \<and> subtable (directory_sources e) (directory_sources d)
   \<and> feeds e = feeds d \<and> nodes e = nodes d \<and> staged e = staged d \<and> rounds e = rounds d
   \<and> clock_identity e = clock_identity d \<and> clock_revision e = clock_revision d
   \<and> metadata_versions e = metadata_versions d \<and> (keys_ok d \<longrightarrow> keys_ok e)"

lemma shrinks_trans: "shrinks d e \<Longrightarrow> shrinks e f \<Longrightarrow> shrinks d f"
  unfolding shrinks_def by (auto intro: subtable_trans)

lemma shrinks_observed: "shrinks d (delete_observed P d)"
  by (simp add: shrinks_def delete_observed_def keys_ok_def)

lemma shrinks_absent: "shrinks d (delete_absent P d)"
  by (simp add: shrinks_def delete_absent_def keys_ok_def)

lemma shrinks_directories: "shrinks d (delete_directories P d)"
proof -
  define gone where "gone = (\<lambda>k. case fmlookup (directories d) k of None \<Rightarrow> False | Some row \<Rightarrow> P k row)"
  have eq: "delete_directories P d =
      d\<lparr>directories := fmfilter (\<lambda>k. \<not> gone k) (directories d),
        directory_entries := fmfilter (\<lambda>k. \<not> gone (fst k)) (directory_entries d),
        directory_sources := fmfilter (\<lambda>k. \<not> gone k) (directory_sources d)\<rparr>"
    unfolding delete_directories_def gone_def Let_def ..
  have "keys_ok d \<Longrightarrow> keys_ok (delete_directories P d)"
    unfolding keys_ok_def eq by (auto split: if_splits)
  then show ?thesis
    by (simp add: shrinks_def eq)
qed

lemma shrinks_invalidate: "shrinks d (invalidate s reset d)"
  unfolding invalidate_def Let_def
  by (simp add: shrinks_trans [OF shrinks_trans [OF shrinks_absent shrinks_observed] shrinks_directories]
      shrinks_trans [OF shrinks_trans [OF shrinks_directories shrinks_absent] shrinks_observed])

lemma shrinks_ok:
  assumes "store_ok d" and "shrinks d e"
  shows "store_ok e" and "marks_grow d e"
proof -
  have sub: "subtable (observed e) (observed d)" "subtable (observed_absent e) (observed_absent d)"
      "subtable (directories e) (directories d)" "subtable (directory_entries e) (directory_entries d)"
    and same: "feeds e = feeds d" "nodes e = nodes d" "staged e = staged d" "rounds e = rounds d"
      "clock_revision e = clock_revision d" "clock_identity e = clock_identity d"
      "metadata_versions e = metadata_versions d" and k: "keys_ok e"
    using assms by (auto simp: shrinks_def store_ok_def)
  note D = sub [THEN subtableD]
  have r: "revisions_ok d"
    using assms(1) by (simp add: store_ok_def)
  have "bodies_ok e"
  proof (rule bodiesI)
    have b: "bodies_ok d"
      using assms(1) by (simp add: store_ok_def)
    show "node_id (ob_body ob) = i" if "fmlookup (observed e) (s, i) = Some ob" for s i ob
      by (rule bodiesD(3) [OF b D(1) [OF that]])
    show "node_id (en_body en) = i \<and> en_name en = node_name (en_body en)"
      if "fmlookup (directory_entries e) (p, i) = Some en" for p i en
      by (rule bodiesD(4) [OF b D(4) [OF that]])
  qed (use assms(1) same bodiesD(1,2) in \<open>auto simp: store_ok_def\<close>)
  moreover have "exclusive_ok e"
    using assms(1) unfolding store_ok_def
    by (intro exclusiveI) (metis D(1,2) exclusiveD option.distinct(1))
  moreover have "revisions_ok e"
    by (rule revisionsI) (use revisionsD [OF r] in \<open>auto simp: same dest: D\<close>)
  moreover have "feeds_ok e"
    using assms(1) by (simp add: store_ok_def feeds_ok_def same)
  ultimately show "store_ok e"
    using k by (simp add: store_ok_def)
  show "marks_grow d e"
    by (rule marks_grow_tables) (simp_all add: same)
qed

lemma staged_bodies:
  assumes "\<And>s i n. fmlookup t (s, i) = Some (Some n) \<Longrightarrow> node_id n = i"
    and "fmlookup (fold (stage_change s) cs t) (s', i) = Some (Some n)"
  shows "node_id n = i"
  using assms
proof (induction cs arbitrary: t)
  case (Cons c cs)
  show ?case
  proof (rule Cons.IH [OF _ Cons.prems(2) [unfolded fold.simps comp_apply]])
    show "fmlookup (stage_change s c t) (s', i) = Some (Some n) \<Longrightarrow> node_id n = i" for s' i n
      using Cons.prems(1) by (cases c) (auto split: if_splits)
  qed
qed simp

lemma store_ok_staged:
  assumes "store_ok d" and "fmlookup (feeds d) s = Some f" and "fd_pending f"
  shows "store_ok (d\<lparr>staged := fold (stage_change s) cs (staged d)\<rparr>)"
proof -
  let ?e = "d\<lparr>staged := fold (stage_change s) cs (staged d)\<rparr>"
  have "bodies_ok ?e"
  proof (rule bodiesI)
    have b: "bodies_ok d"
      using assms(1) by (simp add: store_ok_def)
    show "node_id n = i" if "fmlookup (staged ?e) (s', i) = Some (Some n)" for s' i n
      by (rule staged_bodies [of "staged d" s cs s']) (use bodiesD(2) [OF b] that in auto)
    show "node_id (en_body en) = i \<and> en_name en = node_name (en_body en)"
      if "fmlookup (directory_entries ?e) (p, i) = Some en" for p i en
      using that bodiesD(4) [OF b] by simp
  qed (use assms(1) bodiesD(1,3) in \<open>auto simp: store_ok_def\<close>)
  moreover have "feeds_ok ?e"
  proof (rule feedsI)
    show "\<exists>f. fmlookup (feeds ?e) s' = Some f \<and> fd_pending f"
      if "fmlookup (staged ?e) (s', i) = Some b" for s' i b
      using assms that staged_other_scope [of s' s cs "staged d" i] feedsD(2) [of d s' i b]
      by (cases "s' = s") (auto simp: store_ok_def)
  qed (use assms(1) feedsD(1) in \<open>auto simp: store_ok_def\<close>)
  ultimately show ?thesis
    using assms(1) by (simp add: store_ok_def exclusive_ok_def keys_ok_def revisions_ok_def)
qed

lemma store_ok_replace:
  assumes "store_ok d"
  shows "store_ok ((replace_rows s reset d)\<lparr>feeds := fmupd s
    (f\<lparr>fd_cursor := c, fd_next_cursor := None, fd_pending := False, fd_reset := False\<rparr>) (feeds d)\<rparr>)"
    (is "store_ok ?e")
proof -
  have "fmlookup (nodes ?e) (s', i) = Some n \<Longrightarrow> node_id n = i" for s' i n
    using assms
    by (auto simp: replace_rows_nodes staged_image_def store_ok_def bodies_ok_def split: if_splits option.splits)
  then have "bodies_ok ?e"
    using assms unfolding store_ok_def bodies_ok_def by (auto simp: frame_simps split: if_splits)
  moreover have "feeds_ok ?e"
    using assms unfolding store_ok_def feeds_ok_def by (auto simp: frame_simps split: if_splits)
  ultimately show ?thesis
    using assms by (simp add: store_ok_def exclusive_ok_def keys_ok_def revisions_ok_def frame_simps)
qed

section \<open>The operations\<close>

lemma stage_feed:
  assumes "stage s expected page d = Inr d'"
  obtains f where "fmlookup (feeds d) s = Some f" "fd_pending f" "fd_next_cursor f = expected"
  using assms by (auto simp: stage_def split: option.splits if_splits)

lemma stage_continue:
  assumes "stage s expected page d = Inr d'" and "page_checkpoint page = Continue c"
    and "fmlookup (feeds d) s = Some f"
  shows "d' = d\<lparr>staged := fold (stage_change s) (page_changes page) (staged d),
                feeds := fmupd s (f\<lparr>fd_next_cursor := Some c\<rparr>) (feeds d)\<rparr>"
  using assms by (auto simp: stage_def split: if_splits)

lemma store_ok_feed:
  assumes "store_ok d" and "fd_pending f"
  shows "store_ok (d\<lparr>feeds := fmupd s f (feeds d)\<rparr>)" (is "store_ok ?e")
proof -
  have "feeds_ok ?e"
  proof (rule feedsI)
    show "\<exists>f. fmlookup (feeds ?e) s' = Some f \<and> fd_pending f"
      if "fmlookup (staged ?e) (s', i) = Some b" for s' i b
      using assms that feedsD(2) [of d s' i b] by (auto simp: store_ok_def)
  qed (use assms feedsD(1) in \<open>auto simp: store_ok_def split: if_splits\<close>)
  then show ?thesis
    using assms(1) by (simp add: store_ok_def bodies_ok_def exclusive_ok_def keys_ok_def revisions_ok_def)
qed

lemma stage_ok:
  assumes "store_ok d" and "stage s expected page d = Inr d'"
  shows "store_ok d'" and "marks_grow d d'"
proof -
  obtain f where f: "fmlookup (feeds d) s = Some f" "fd_pending f"
    using stage_feed [OF assms(2)] by blast
  let ?e = "d\<lparr>staged := fold (stage_change s) (page_changes page) (staged d)\<rparr>"
  note e = store_ok_staged [OF assms(1) f, of "page_changes page"]
  have "marks_grow d ?e"
    by (rule marks_grow_tables) simp_all
  have "store_ok d' \<and> marks_grow d d'"
  proof (cases "page_checkpoint page")
    case (Continue c)
    have d': "d' = ?e\<lparr>feeds := fmupd s (f\<lparr>fd_next_cursor := Some c\<rparr>) (feeds ?e)\<rparr>"
      using stage_continue [OF assms(2) Continue f(1)] by simp
    have "store_ok d'"
      unfolding d' using e f(2) by (intro store_ok_feed) auto
    moreover have "marks_grow d d'"
      by (rule marks_grow_tables) (simp_all add: d')
    ultimately show ?thesis ..
  next
    case (Complete c)
    obtain g where g: "publish_delta s (fd_reset f) ?e = Inr g"
      and d': "d' = (replace_rows s (fd_reset f) (invalidate s (fd_reset f) g))
        \<lparr>feeds := fmupd s (f\<lparr>fd_cursor := Some c, fd_next_cursor := None, fd_pending := False,
                          fd_reset := False\<rparr>) (feeds g)\<rparr>"
      using stage_complete [OF assms(2) Complete f(1)] by blast
    note g' = publish_delta_ok [OF e g]
    note i = shrinks_ok [OF g'(1) shrinks_invalidate, of s "fd_reset f"]
    have "store_ok d'"
      using store_ok_replace [OF i(1), where s = s and reset = "fd_reset f" and f = f and c = "Some c"] by (simp add: d' frame_simps)
    moreover have "marks_grow (invalidate s (fd_reset f) g) d'"
      by (rule marks_grow_tables) (simp_all add: d' frame_simps)
    ultimately show ?thesis
      using \<open>marks_grow d ?e\<close> g'(2) i(2) by (blast intro: marks_grow_trans)
  qed
  then show "store_ok d'" "marks_grow d d'"
    by blast+
qed

text \<open>A completed feed leaves a mark above every ticket issued before it, on all it touched.\<close>

lemma staged_after:
  "fmlookup (fold (stage_change s) cs t) (s, i) \<noteq> None \<longleftrightarrow>
     fmlookup t (s, i) \<noteq> None \<or> (\<exists>n. Upsert n \<in> set cs \<and> node_id n = i) \<or> Delete i \<in> set cs"
proof (induction cs arbitrary: t)
  case (Cons c cs)
  then show ?case
    by (cases c) auto
qed simp

lemma stage_complete_marks:
  assumes "store_ok d" and "stage s expected page d = Inr d'"
    and "page_checkpoint page = Complete c" and "fmlookup (feeds d) s = Some f"
    and "fd_reset f \<or> fmlookup (staged d) (s, i) \<noteq> None
      \<or> (\<exists>n. Upsert n \<in> set (page_changes page) \<and> node_id n = i) \<or> Delete i \<in> set (page_changes page)"
  shows "effective_mark d' s 1 i = clock_revision d + 1"
proof -
  have p: "fd_pending f"
    using stage_feed [OF assms(2)] assms(4) by auto
  let ?e = "d\<lparr>staged := fold (stage_change s) (page_changes page) (staged d)\<rparr>"
  note e = store_ok_staged [OF assms(1,4) p, of "page_changes page"]
  obtain g where g: "publish_delta s (fd_reset f) ?e = Inr g"
    and d': "d' = (replace_rows s (fd_reset f) (invalidate s (fd_reset f) g))
        \<lparr>feeds := fmupd s (f\<lparr>fd_cursor := Some c, fd_next_cursor := None, fd_pending := False,
                          fd_reset := False\<rparr>) (feeds g)\<rparr>"
    using stage_complete [OF assms(2,3,4)] by blast
  have "effective_mark d' s 1 i = effective_mark g s 1 i"
    by (simp add: effective_mark_def mark_of_def d' frame_simps)
  moreover have "effective_mark g s 1 i = clock_revision d + 1"
  proof (cases "fd_reset f")
    case True
    then show ?thesis
      using publish_delta_reset(3,4) [OF e] g by simp
  next
    case False
    then have "fmlookup (staged ?e) (s, i) \<noteq> None"
      using assms(5) by (simp add: staged_after del: not_None_eq)
    then have m: "clock_revision g = clock_revision d + 1" "mark_of g s 1 i = clock_revision g"
      using publish_delta_staged(3) [OF e] g False by auto
    have "store_ok g"
      using publish_delta_ok(1) [OF e g] .
    then have "effective_mark g s 1 i \<le> clock_revision g"
      by (intro effective_mark_le_clock) (simp add: store_ok_def)
    then show ?thesis
      using m by (simp add: effective_mark_def)
  qed
  ultimately show ?thesis
    by simp
qed

lemma start_round_ok:
  assumes "store_ok d" and "start_round s d = Inr e"
  shows "store_ok e" and "marks_grow d e" and "feeds e = feeds d" and "staged e = staged d"
proof -
  obtain rv f where a: "advance d = Inr (rv, f)" and e: "e = f\<lparr>rounds := fmupd s rv (rounds f)\<rparr>"
    using assms(2) by (auto simp: start_round_def result_simps)
  note f = store_ok_advance [OF assms(1) a]
  have r: "revisions_ok f"
    using f(1) by (simp add: store_ok_def)
  have "revisions_ok e"
    by (rule revisionsI) (use revisionsD [OF r] f(3) in \<open>auto simp: e split: if_splits\<close>)
  then show "store_ok e"
    using f(1) by (simp add: e store_ok_def bodies_ok_def exclusive_ok_def keys_ok_def feeds_ok_def)
  have "marks_grow f e"
    by (rule marks_grow_tables) (simp_all add: e)
  then show "marks_grow d e"
    using f(2) marks_grow_trans by blast
  show "feeds e = feeds d" "staged e = staged d"
    using a by (auto simp: e result_simps)
qed

lemma store_ok_default_feed:
  assumes "store_ok d"
  shows "store_ok (d\<lparr>feeds := fmupd s (feed_of d s) (feeds d)\<rparr>)" (is "store_ok ?e")
proof -
  have "feeds_ok ?e"
  proof (rule feedsI)
    show "\<exists>f. fmlookup (feeds ?e) s' = Some f \<and> fd_pending f"
      if "fmlookup (staged ?e) (s', i) = Some b" for s' i b
      using assms that feedsD(2) [of d s' i b] by (auto simp: store_ok_def feed_of_def)
    show "fd_next_cursor f = None \<and> \<not> fd_reset f"
      if "fmlookup (feeds ?e) s' = Some f" "\<not> fd_pending f" for s' f
      using assms that feedsD(1) [of d s' f]
      by (auto simp: store_ok_def feed_of_def feed_default_def split: if_splits option.splits)
  qed
  then show ?thesis
    using assms by (simp add: store_ok_def bodies_ok_def exclusive_ok_def keys_ok_def revisions_ok_def)
qed

lemma store_ok_reset_feed:
  assumes "store_ok d"
  shows "store_ok (reset_feed s f d)" and "marks_grow d (reset_feed s f d)"
proof -
  let ?e = "d\<lparr>staged := delete_scope s (staged d)\<rparr>"
  have "bodies_ok ?e" "feeds_ok ?e"
    using assms by (auto simp: store_ok_def bodies_ok_def feeds_ok_def split: if_splits)
  then have "store_ok ?e"
    using assms by (simp add: store_ok_def exclusive_ok_def keys_ok_def revisions_ok_def)
  then show "store_ok (reset_feed s f d)"
    using store_ok_feed [of ?e "f\<lparr>fd_pending := True, fd_next_cursor := None, fd_reset := True\<rparr>" s]
    by (simp add: reset_feed_def)
  show "marks_grow d (reset_feed s f d)"
    by (rule marks_grow_tables) (simp_all add: reset_feed_def)
qed

lemma begin_feed_ok:
  assumes "store_ok d" and "begin_feed s reset d = Inr (c, d')"
  shows "store_ok d' \<and> marks_grow d d'"
proof -
  let ?d = "d\<lparr>feeds := fmupd s (feed_of d s) (feeds d)\<rparr>"
  have d: "store_ok ?d" "marks_grow d ?d"
    using store_ok_default_feed [OF assms(1)] by (auto intro: marks_grow_tables)
  show ?thesis
    using assms(2)
  proof (cases rule: begin_feed_cases)
    case resumed
    then show ?thesis
      using d by simp
  next
    case (reset e)
    note e = start_round_ok [OF d(1) reset(2)]
    show ?thesis
      using store_ok_reset_feed [OF e(1)] d(2) e(2) reset(3) by (auto intro: marks_grow_trans)
  next
    case (fresh e)
    note e = start_round_ok [OF d(1) fresh(3)]
    have "store_ok d'"
      unfolding fresh(4) using e(1) by (rule store_ok_feed) simp
    moreover have "marks_grow e d'"
      by (rule marks_grow_tables) (simp_all add: fresh(4))
    ultimately show ?thesis
      using d(2) e(2) by (blast intro: marks_grow_trans)
  qed
qed

lemma begin_snapshot_ok:
  assumes "store_ok d" and "begin_snapshot s d = Inr (c, d')"
  shows "store_ok d' \<and> marks_grow d d'"
proof -
  let ?d = "d\<lparr>feeds := fmupd s (feed_of d s) (feeds d)\<rparr>"
  have d: "store_ok ?d" "marks_grow d ?d"
    using store_ok_default_feed [OF assms(1)] by (auto intro: marks_grow_tables)
  show ?thesis
    using assms(2)
  proof (cases rule: begin_snapshot_cases)
    case resumed
    then show ?thesis
      using d by simp
  next
    case (reset e)
    note e = start_round_ok [OF d(1) reset(2)]
    show ?thesis
      using store_ok_reset_feed [OF e(1)] d(2) e(2) reset(3) by (auto intro: marks_grow_trans)
  qed
qed

end
