(* ===== verification/Store_Publication.thy ===== *)
theory Store_Publication
  imports Observation_Safety
begin

text \<open>
  Bounded staging and publication of complete listings
  (\<open>cirrove-store/src/observations/directory_publication.rs\<close>) and the binding of
  generated directories to their source (\<open>directory_sources.rs\<close>).

  Every call to \<open>check\<close> consults the cancellation token and the wall clock; the
  model takes the outcomes as a function \<open>alive\<close> of the number of the check within
  the call. The length of a node's JSON text is the parameter \<open>json_len\<close>.
\<close>

section \<open>Source bindings\<close>

definition source_valid :: "node \<Rightarrow> bool" where
  "source_valid n = (package n \<and> node_kind n = Folder \<and> node_target n = None
     \<and> content_revision n \<noteq> None)"

definition source_same :: "node \<Rightarrow> node \<Rightarrow> bool" where
  "source_same before after =
     (source_valid before \<and> source_valid after \<and> node_id before = node_id after
      \<and> parent_id before = parent_id after \<and> node_name before = node_name after
      \<and> node_size before = node_size after
      \<and> content_revision before = content_revision after)"

record source_state =
  dss_bound :: "node option"
  dss_legacy_classification :: "node option"
  dss_current :: "node option"
  dss_changed :: bool

definition directory_source_state :: "db \<Rightarrow> scope \<Rightarrow> string \<Rightarrow> source_state option" where
  "directory_source_state d s p =
     (case fmlookup (directories d) (s, p) of
        None \<Rightarrow> None
      | Some row \<Rightarrow>
          let src = fmlookup (directory_sources d) (s, p);
              bound = Option.bind src src_source;
              legacy = Option.bind src src_legacy;
              cur = node_on d s p;
              changed =
                (case bound of
                   Some b \<Rightarrow> \<not> (case cur of None \<Rightarrow> False | Some c \<Rightarrow> source_same b c)
                 | None \<Rightarrow>
                     if (case legacy of None \<Rightarrow> False
                         | Some l \<Rightarrow> \<not> (case cur of None \<Rightarrow> False
                                       | Some c \<Rightarrow> source_valid c \<and> node_id c = node_id l))
                     then True
                     else changed_after d s 1 p (dir_source_revision row)
                          \<or> changed_after d s 0 '''' (dir_source_revision row))
          in Some \<lparr>dss_bound = bound, dss_legacy_classification = legacy, dss_current = cur,
                   dss_changed = changed\<rparr>)"

section \<open>The builder\<close>

definition max_input_bytes :: nat where "max_input_bytes = 256 * 1024 * 1024"
definition max_node_bytes :: nat where "max_node_bytes = 1024 * 1024"
definition max_page_bytes :: nat where "max_page_bytes = 16 * 1024 * 1024"
definition max_pages :: nat where "max_pages = 65536"
definition max_cursor_bytes :: nat where "max_cursor_bytes = 16 * 1024"

record directory_publication =
  pub_ticket :: ticket
  pub_incoming :: "(string, node) fmap"
  pub_cursors :: "cursor list"
  pub_input_bytes :: nat
  pub_pages :: nat
  pub_complete :: bool
  pub_source :: "node option"

datatype publication_result = SourceChanged | PubPublished bool | PubSuperseded bool

definition publication_start ::
    "bool \<Rightarrow> bool \<Rightarrow> scope \<Rightarrow> string \<Rightarrow> db \<Rightarrow> store_error + (directory_publication \<times> db)" where
  "publication_start alive memory_only s p d =
     and_then (ensure alive StoreCancelled) (\<lambda>_.
     and_then (directory_observation s p d) (\<lambda>(t, d).
     if memory_only then Inl DirectoryLimit
     else Inr (\<lparr>pub_ticket = t, pub_incoming = fmempty, pub_cursors = [], pub_input_bytes = 0,
                pub_pages = 0, pub_complete = False, pub_source = None\<rparr>, d)))"

definition bind_source ::
    "(node \<Rightarrow> nat) \<Rightarrow> node \<Rightarrow> directory_publication \<Rightarrow> store_error + directory_publication" where
  "bind_source json_len source b =
     (case tk_target (pub_ticket b) of
        TargetNode _ \<Rightarrow> Inl OutOfOrder
      | TargetDirectory p \<Rightarrow>
          if \<not> source_valid source \<or> node_id source \<noteq> p then Inl InvalidDirectorySnapshot
          else if json_len source > max_node_bytes then Inl DirectoryLimit
          else Inr (b\<lparr>pub_source := Some source\<rparr>))"

definition string_bytes :: "string \<Rightarrow> node \<Rightarrow> nat" where
  "string_bytes p n = length (node_id n) + length (node_name n) + length p
     + (case etag n of None \<Rightarrow> 0 | Some t \<Rightarrow> length t)
     + (case content_version n of None \<Rightarrow> 0 | Some t \<Rightarrow> length t)
     + (case node_target n of None \<Rightarrow> 0 | Some t \<Rightarrow> length (ref_collection t) + length (ref_item t))"

fun stage_nodes ::
    "(nat \<Rightarrow> bool) \<Rightarrow> (node \<Rightarrow> nat) \<Rightarrow> string \<Rightarrow> nat \<Rightarrow> node list \<Rightarrow> (string, node) fmap \<Rightarrow> nat
       \<Rightarrow> store_error + ((string, node) fmap \<times> nat)" where
  "stage_nodes alive json_len p k [] t bytes = Inr (t, bytes)"
| "stage_nodes alive json_len p k (n # ns) t bytes =
     (if \<not> alive k then Inl StoreCancelled
      else if parent_id n \<noteq> Some p \<or> node_id n = [] then Inl InvalidDirectorySnapshot
      else if string_bytes p n > max_node_bytes then Inl DirectoryLimit
      else if json_len n > max_node_bytes \<or> bytes + json_len n > max_page_bytes
      then Inl DirectoryLimit
      else if fmlookup t (node_id n) \<noteq> None then Inl Database
      else stage_nodes alive json_len p (k + 1) ns (fmupd (node_id n) n t) (bytes + json_len n))"

definition stage_cursor :: "cursor option \<Rightarrow> cursor list \<Rightarrow> nat \<Rightarrow> store_error + (cursor list \<times> nat)" where
  "stage_cursor next cs bytes = (case next of
       None \<Rightarrow> Inr (cs, bytes)
     | Some c \<Rightarrow>
         if length c > max_cursor_bytes then Inl DirectoryLimit
         else if c \<in> set cs then Inl Database
         else Inr (c # cs, bytes + length c))"

definition publication_page ::
    "(nat \<Rightarrow> bool) \<Rightarrow> (node \<Rightarrow> nat) \<Rightarrow> directory_page \<Rightarrow> directory_publication
       \<Rightarrow> store_error + directory_publication" where
  "publication_page alive json_len page b =
     (if \<not> alive 0 then Inl StoreCancelled
      else if pub_complete b \<or> pub_pages b \<ge> max_pages then Inl OutOfOrder
      else case tk_target (pub_ticket b) of
        TargetNode _ \<Rightarrow> Inl OutOfOrder
      | TargetDirectory p \<Rightarrow>
          and_then (stage_nodes alive json_len p 1 (page_nodes page) (pub_incoming b) 0) (\<lambda>(t, bytes).
          and_then (stage_cursor (page_next page) (pub_cursors b) bytes) (\<lambda>(cs, bytes).
          if pub_input_bytes b + bytes > max_input_bytes then Inl DirectoryLimit
          else if \<not> alive (length (page_nodes page) + 1) then Inl StoreCancelled
          else Inr (b\<lparr>pub_incoming := t, pub_cursors := cs, pub_input_bytes := pub_input_bytes b + bytes,
                      pub_pages := pub_pages b + 1, pub_complete := (page_next page = None)\<rparr>))))"

section \<open>Publishing the staged rows\<close>

definition visit_previous ::
    "(nat \<Rightarrow> bool) \<Rightarrow> node \<Rightarrow> nat \<times> (string, node) fmap \<Rightarrow> store_error + (nat \<times> (string, node) fmap)" where
  "visit_previous alive n acc =
     (if \<not> alive (fst acc) then Inl StoreCancelled
      else if fmlookup (snd acc) (node_id n) \<noteq> None then Inl Database
      else Inr (fst acc + 1, fmupd (node_id n) n (snd acc)))"

text \<open>The rows of a table below the parent that are not among the incoming ones.\<close>

definition unlisted :: "string \<Rightarrow> (string, node) fmap \<Rightarrow> (string \<times> node) list \<Rightarrow> (string \<times> string option) list" where
  "unlisted p incoming rows =
     map (\<lambda>(i, n). (i, parent_id n))
       (filter (\<lambda>(i, n). has_parent p n \<and> fmlookup incoming i = None) rows)"

definition publish_rows ::
    "int \<Rightarrow> scope \<Rightarrow> string \<Rightarrow> int \<Rightarrow> node option \<Rightarrow> (string, node) fmap \<Rightarrow> bool
       \<Rightarrow> (string, node) fmap \<Rightarrow> db \<Rightarrow> store_error + (bool \<times> db)" where
  "publish_rows now s p source_revision source incoming known previous d =
     (let rows = fm_values incoming;
          updated = filter (\<lambda>n. fmlookup previous (node_id n) \<noteq> Some n) rows;
          changed = (\<not> known \<or> updated \<noteq> []
             \<or> list_ex (\<lambda>n. fmlookup incoming (node_id n) = None) (fm_values previous));
          removed = fold (\<lambda>(i, q). fmupd i q)
             (unlisted p incoming (map (\<lambda>(i, ob). (i, ob_body ob)) (scope_rows s (observed d)))
              @ unlisted p incoming (scope_rows s (nodes d))) fmempty;
          removed_ids = sorted_list_of_fset (fmdom removed);
          affected = fold (\<lambda>i. fmupd i (the (fmlookup removed i))) removed_ids
             (fold (\<lambda>n. fmupd (node_id n) (parent_id n)) updated fmempty);
          affected_ids = sorted_list_of_fset (fmdom affected);
          affected_parents = concat (map optional (fm_values affected));
          resolved_parents = concat (map (\<lambda>i. case node_on d s i of None \<Rightarrow> []
                                              | Some n \<Rightarrow> optional (parent_id n)) affected_ids)
      in and_then (advance d) (\<lambda>(rv, d).
         let d = mark s 2 p rv d;
             d = mark_all s 1 affected_ids rv d;
             d = mark_all s 2 affected_parents rv d;
             d = mark_all s 2 resolved_parents rv d;
             hidden = filter (still_below d s p) removed_ids;
             d = d\<lparr>observed := drop_keys s hidden (observed d),
                   observed_absent := put_keys s hidden source_revision (observed_absent d)\<rparr>;
             d = d\<lparr>observed_absent := drop_keys s (map node_id rows) (observed_absent d),
                   observed := upsert_rows s (map (\<lambda>n. (node_id n, observed_as n now source_revision)) rows)
                      (observed d),
                   directories := fmupd (s, p) \<lparr>dir_seen = now, dir_source_revision = source_revision\<rparr>
                      (directories d),
                   directory_entries := upsert_rows (s, p)
                      (map (\<lambda>n. (node_id n, \<lparr>en_name = node_name n, en_body = n\<rparr>)) rows)
                      (delete_scope (s, p) (directory_entries d)),
                   directory_sources := (case source of
                      Some n \<Rightarrow> fmupd (s, p) \<lparr>src_source = Some n, src_legacy = None\<rparr> (directory_sources d)
                    | None \<Rightarrow> fmdrop (s, p) (directory_sources d))\<rparr>
         in Inr (changed, d)))"

definition bulk_publish ::
    "(nat \<Rightarrow> bool) \<Rightarrow> int \<Rightarrow> ticket \<Rightarrow> node option \<Rightarrow> (string, node) fmap \<Rightarrow> db
       \<Rightarrow> store_error + (publication_result \<times> nat \<times> db)" where
  "bulk_publish alive now t source incoming d =
     (case tk_target t of
        TargetNode _ \<Rightarrow> Inl OutOfOrder
      | TargetDirectory p \<Rightarrow>
          let s = tk_scope t in
          if (case source of None \<Rightarrow> False
              | Some b \<Rightarrow> \<not> (case node_on d s p of None \<Rightarrow> False | Some c \<Rightarrow> source_same b c))
          then Inr (SourceChanged, 1, d)
          else
            let newer = list_ex (\<lambda>n. changed_after d s 1 (node_id n) (tk_revision t)) (fm_values incoming) in
            and_then (current d t []) (\<lambda>ok.
            if \<not> ok \<or> newer
            then Inr (PubSuperseded (read_on d s p (\<lambda>_. ()) False \<noteq> None), 1, d)
            else
              and_then (visit_on d s p (visit_previous alive) (1, fmempty)) (\<lambda>(known, k, previous).
              and_then (publish_rows now s p (tk_revision t) source incoming known previous d) (\<lambda>(changed, d).
              Inr (PubPublished changed, k, d)))))"

definition publication_publish ::
    "(nat \<Rightarrow> bool) \<Rightarrow> int \<Rightarrow> directory_publication \<Rightarrow> db \<Rightarrow> store_error + (publication_result \<times> db)" where
  "publication_publish alive now b d =
     (if \<not> alive 0 then Inl StoreCancelled
      else if \<not> pub_complete b then Inl OutOfOrder
      else and_then (bulk_publish alive now (pub_ticket b) (pub_source b) (pub_incoming b) d) (\<lambda>(r, k, d).
        if \<not> alive k then Inl StoreCancelled else Inr (r, d)))"

section \<open>Bulk publication is directory publication\<close>

lemma fold_fmupd_pairs:
  "fmlookup (fold (\<lambda>(i, q). fmupd i q) xs t) i = (case map_of (rev xs) i of None \<Rightarrow> fmlookup t i | Some q \<Rightarrow> Some q)"
  by (induction xs rule: rev_induct) auto

definition bulk_removed :: "scope \<Rightarrow> string \<Rightarrow> (string, node) fmap \<Rightarrow> db \<Rightarrow> (string, string option) fmap" where
  "bulk_removed s p incoming d = fold (\<lambda>(i, q). fmupd i q)
     (unlisted p incoming (map (\<lambda>(i, ob). (i, ob_body ob)) (scope_rows s (observed d)))
      @ unlisted p incoming (scope_rows s (nodes d))) fmempty"

lemma set_unlisted:
  "(j, q) \<in> set (unlisted p incoming rows) \<longleftrightarrow>
     q = Some p \<and> fmlookup incoming j = None \<and> (\<exists>n. (j, n) \<in> set rows \<and> has_parent p n)"
  by (force simp: unlisted_def has_parent_def)

lemma bulk_removed_lookup:
  assumes "bodies_ok d" and k: "\<And>i n. fmlookup incoming i = Some n \<Longrightarrow> node_id n = i"
  shows "fmlookup (bulk_removed s p incoming d) i \<noteq> None \<longleftrightarrow>
    fmlookup (removed_children d s p (fm_values incoming)) i \<noteq> None"
    and "fmlookup (bulk_removed s p incoming d) i = Some q \<Longrightarrow> q = Some p"
proof -
  define xs where "xs = unlisted p incoming (map (\<lambda>(i, ob). (i, ob_body ob)) (scope_rows s (observed d)))
      @ unlisted p incoming (scope_rows s (nodes d))"
  have L: "fmlookup (bulk_removed s p incoming d) i = map_of (rev xs) i"
    unfolding bulk_removed_def xs_def [symmetric] fold_fmupd_pairs by (simp split: option.splits)
  have ids: "i \<in> node_id ` set (fm_values incoming) \<longleftrightarrow> fmlookup incoming i \<noteq> None"
    using fm_values_keys(1) [of incoming node_id, OF k] by (metis list.set_map set_sorted_fmdom)
  have mem: "(j, q) \<in> set xs \<longleftrightarrow> q = Some p \<and> fmlookup incoming j = None \<and>
      ((\<exists>ob. fmlookup (observed d) (s, j) = Some ob \<and> has_parent p (ob_body ob))
       \<or> (\<exists>n. fmlookup (nodes d) (s, j) = Some n \<and> has_parent p n))" for j q
    by (auto simp: xs_def set_unlisted) force
  have "fmlookup (bulk_removed s p incoming d) i \<noteq> None \<longleftrightarrow> (\<exists>q. (i, q) \<in> set xs)"
    unfolding L map_of_eq_None_iff by force
  then show "fmlookup (bulk_removed s p incoming d) i \<noteq> None \<longleftrightarrow>
      fmlookup (removed_children d s p (fm_values incoming)) i \<noteq> None"
    unfolding mem removed_children_lookup(1) [OF assms(1)] ids by auto
  show "fmlookup (bulk_removed s p incoming d) i = Some q \<Longrightarrow> q = Some p"
    unfolding L by (auto dest!: map_of_SomeD simp: mem)
qed

lemma bulk_affected_lookup:
  assumes "\<And>i q. fmlookup removed i = Some q \<Longrightarrow> q = Some p"
    and "\<And>n. n \<in> set updated \<Longrightarrow> parent_id n = Some p"
  shows "fmlookup (fold (\<lambda>i. fmupd i (the (fmlookup removed i))) (sorted_list_of_fset (fmdom removed))
       (fold (\<lambda>n. fmupd (node_id n) (parent_id n)) updated fmempty)) i =
     (if fmlookup removed i \<noteq> None \<or> i \<in> node_id ` set updated then Some (Some p) else None)"
proof -
  have up: "fmlookup (fold (\<lambda>n. fmupd (node_id n) (parent_id n)) us t) i =
      (if i \<in> node_id ` set us then Some (Some p) else fmlookup t i)"
    if "\<And>n. n \<in> set us \<Longrightarrow> parent_id n = Some p" for us t
    using that by (induction us arbitrary: t) auto
  have rm: "fmlookup (fold (\<lambda>i. fmupd i (the (fmlookup removed i))) ks t) i =
      (if i \<in> set ks then fmlookup removed i else fmlookup t i)"
    if "\<And>k. k \<in> set ks \<Longrightarrow> fmlookup removed k \<noteq> None" for ks t
    using that by (induction ks arbitrary: t) auto
  show ?thesis
    using assms(1) [of i]
    by (subst rm) (auto simp: set_sorted_fmdom up [OF assms(2)] simp del: not_None_eq)
qed

definition prior :: "node list option \<Rightarrow> node list" where
  "prior l = (case l of None \<Rightarrow> [] | Some ns \<Rightarrow> ns)"

lemma set_optional [simp]: "i \<in> set (optional v) \<longleftrightarrow> v = Some i"
  by (auto simp: optional_def split: option.splits)

lemma set_changed_parents:
  "i \<in> set (changed_parents d s ns (Some p)) \<longleftrightarrow> i = p \<or>
     (\<exists>n \<in> set ns. parent_id n = Some i \<or> (\<exists>m. node_on d s (node_id n) = Some m \<and> parent_id m = Some i))"
proof -
  have "i \<in> set (case v of None \<Rightarrow> [] | Some old \<Rightarrow> optional (parent_id old)) \<longleftrightarrow>
      (\<exists>m. v = Some m \<and> parent_id m = Some i)" for v
    by (cases v) auto
  then show ?thesis
    by (auto simp: changed_parents_def)
qed

lemma updated_nodes_eq:
  assumes "distinct (map node_id (prior l))"
    and "\<And>i. fmlookup previous i = find (\<lambda>n. node_id n = i) (prior l)"
  shows "updated_nodes l ns = filter (\<lambda>n. fmlookup previous (node_id n) \<noteq> Some n) ns"
proof -
  have "map_of (rev (map (\<lambda>n. (node_id n, n)) (prior l))) i = fmlookup previous i" for i
  proof -
    have "distinct (map fst (map (\<lambda>n. (node_id n, n)) (prior l)))"
      using assms(1) by (simp add: comp_def)
    then show ?thesis
      by (simp only: map_of_rev_distinct map_of_find assms(2)) (simp add: option.map_ident)
  qed
  then show ?thesis
    unfolding updated_nodes_def prior_def Let_def by simp
qed

lemma visit_previous_Inr:
  "visit_previous alive n (k, t) = Inr acc \<longleftrightarrow>
     alive k \<and> fmlookup t (node_id n) = None \<and> acc = (k + 1, fmupd (node_id n) n t)"
  by (auto simp: visit_previous_def)

lemma visit_previous_ok:
  assumes "visit_rows (visit_previous alive) ns (k, t) = Inr (k', t')"
  shows "k' = k + length ns \<and> distinct (map node_id ns) \<and>
    (\<forall>i. fmlookup t' i = (case find (\<lambda>n. node_id n = i) ns of None \<Rightarrow> fmlookup t i | Some n \<Rightarrow> Some n))
    \<and> (\<forall>n \<in> set ns. fmlookup t (node_id n) = None)"
  using assms
proof (induction ns arbitrary: k t)
  case (Cons n ns)
  then have none: "fmlookup t (node_id n) = None"
    and rest: "visit_rows (visit_previous alive) ns (k + 1, fmupd (node_id n) n t) = Inr (k', t')"
    by (auto simp: result_simps visit_previous_Inr)
  note IH = Cons.IH [OF rest]
  have notin: "node_id n \<notin> node_id ` set ns"
    using IH by auto
  then have "find (\<lambda>m. node_id m = node_id n) ns = None"
    by (simp add: find_node_id_None)
  then show ?case
    using IH none notin by (auto split: option.splits if_splits)
qed simp

text \<open>
  The two implementations of directory publication leave the same database behind,
  up to the source binding that only the bulk one records.
\<close>

definition bulk_updated :: "(string, node) fmap \<Rightarrow> (string, node) fmap \<Rightarrow> node list" where
  "bulk_updated incoming previous = filter (\<lambda>n. fmlookup previous (node_id n) \<noteq> Some n) (fm_values incoming)"

definition bulk_affected :: "(string, string option) fmap \<Rightarrow> node list \<Rightarrow> (string, string option) fmap" where
  "bulk_affected removed updated =
     fold (\<lambda>i. fmupd i (the (fmlookup removed i))) (sorted_list_of_fset (fmdom removed))
       (fold (\<lambda>n. fmupd (node_id n) (parent_id n)) updated fmempty)"

definition resolved_parents :: "db \<Rightarrow> scope \<Rightarrow> string list \<Rightarrow> string list" where
  "resolved_parents d s ids =
     concat (map (\<lambda>i. case node_on d s i of None \<Rightarrow> [] | Some n \<Rightarrow> optional (parent_id n)) ids)"

lemma set_resolved_parents:
  "i \<in> set (resolved_parents d s ids) \<longleftrightarrow> (\<exists>j \<in> set ids. \<exists>m. node_on d s j = Some m \<and> parent_id m = Some i)"
  by (force simp: resolved_parents_def split: option.splits)

text \<open>The staged listing as the bulk publication sees it.\<close>

definition staged_listing :: "string \<Rightarrow> (string, node) fmap \<Rightarrow> bool" where
  "staged_listing p incoming \<longleftrightarrow> (\<forall>i n. fmlookup incoming i = Some n \<longrightarrow> node_id n = i \<and> parent_id n = Some p)"

definition bulk_touched :: "scope \<Rightarrow> string \<Rightarrow> (string, node) fmap \<Rightarrow> (string, node) fmap \<Rightarrow> db \<Rightarrow> node list" where
  "bulk_touched s p incoming previous d =
     bulk_updated incoming previous @ fm_values (removed_children d s p (fm_values incoming))"

lemma bulk_touched_parent:
  assumes "bodies_ok d" and "staged_listing p incoming" and "n \<in> set (bulk_touched s p incoming previous d)"
  shows "parent_id n = Some p"
  using assms(2,3) removed_children_lookup(2) [OF assms(1)]
  by (auto simp: bulk_touched_def bulk_updated_def staged_listing_def set_fm_values)

lemma lookup_bulk_affected:
  assumes "bodies_ok d" and "staged_listing p incoming"
  shows "fmlookup (bulk_affected (bulk_removed s p incoming d) (bulk_updated incoming previous)) i =
    (if i \<in> node_id ` set (bulk_touched s p incoming previous d) then Some (Some p) else None)"
proof -
  have k: "fmlookup incoming i = Some n \<Longrightarrow> node_id n = i" for i n
    using assms(2) by (simp add: staged_listing_def)
  have u: "n \<in> set (bulk_updated incoming previous) \<Longrightarrow> parent_id n = Some p" for n
    using bulk_touched_parent [OF assms, of n s previous] by (simp add: bulk_touched_def)
  have r: "fmlookup (bulk_removed s p incoming d) i = Some q \<Longrightarrow> q = Some p" for i q
    by (rule bulk_removed_lookup(2) [OF assms(1) k])
  have "fmlookup (bulk_removed s p incoming d) i \<noteq> None \<longleftrightarrow> i \<in> node_id ` set (fm_values (removed_children d s p (fm_values incoming)))"
    unfolding removed_ids [OF assms(1)] by (rule bulk_removed_lookup(1) [OF assms(1) k])
  then show ?thesis
    unfolding bulk_affected_def bulk_touched_def set_append image_Un
    by (subst bulk_affected_lookup [of "bulk_removed s p incoming d" p]) (auto dest: r u)
qed

lemma bulk_marks:
  fixes d s p incoming previous
  defines "affected \<equiv> bulk_affected (bulk_removed s p incoming d) (bulk_updated incoming previous)"
  defines "ids \<equiv> sorted_list_of_fset (fmdom affected)"
  assumes "bodies_ok d" and "staged_listing p incoming"
  shows "i \<in> set ids \<longleftrightarrow> i \<in> node_id ` set (bulk_touched s p incoming previous d)"
    and "i = p \<or> i \<in> set (concat (map optional (fm_values affected))) \<or> i \<in> set (resolved_parents d s ids) \<longleftrightarrow>
      i \<in> set (changed_parents d s (bulk_touched s p incoming previous d) (Some p))"
proof -
  note L = lookup_bulk_affected [OF assms(3,4), of s previous, folded affected_def]
  show ids: "i \<in> set ids \<longleftrightarrow> i \<in> node_id ` set (bulk_touched s p incoming previous d)" for i
    unfolding ids_def set_sorted_fmdom by (simp add: L)
  have "i \<in> set (concat (map optional (fm_values affected))) \<Longrightarrow> i = p"
    by (auto simp: set_fm_values L split: if_splits)
  moreover have "i \<in> set (resolved_parents d s ids) \<longleftrightarrow>
      (\<exists>n \<in> set (bulk_touched s p incoming previous d). \<exists>m. node_on d s (node_id n) = Some m \<and> parent_id m = Some i)"
  proof -
    have "set ids = node_id ` set (bulk_touched s p incoming previous d)"
      using ids by blast
    then show ?thesis
      unfolding set_resolved_parents by simp
  qed
  ultimately show "i = p \<or> i \<in> set (concat (map optional (fm_values affected))) \<or> i \<in> set (resolved_parents d s ids) \<longleftrightarrow>
      i \<in> set (changed_parents d s (bulk_touched s p incoming previous d) (Some p))"
    using bulk_touched_parent [OF assms(3,4)] unfolding set_changed_parents by (metis option.inject)
qed

text \<open>The database a bulk publication leaves, table by table.\<close>

lemma publish_rows_result:
  fixes d s p incoming previous
  defines "affected \<equiv> bulk_affected (bulk_removed s p incoming d) (bulk_updated incoming previous)"
  defines "ids \<equiv> sorted_list_of_fset (fmdom affected)"
    and "hid \<equiv> filter (still_below d s p) (sorted_list_of_fset (fmdom (bulk_removed s p incoming d)))"
  assumes "publish_rows now s p src source incoming known previous d = Inr (changed, d1)"
  shows "clock_revision d + 1 \<le> i64_max"
    and "d1 = d\<lparr>clock_revision := clock_revision d + 1,
        metadata_versions := metadata_versions (mark_all s 2 (resolved_parents d s ids) (clock_revision d + 1)
          (mark_all s 2 (concat (map optional (fm_values affected))) (clock_revision d + 1)
            (mark_all s 1 ids (clock_revision d + 1) (mark s 2 p (clock_revision d + 1) d)))),
        observed := upsert_rows s (map (\<lambda>n. (node_id n, observed_as n now src)) (fm_values incoming))
          (drop_keys s hid (observed d)),
        observed_absent := drop_keys s (map node_id (fm_values incoming)) (put_keys s hid src (observed_absent d)),
        directories := fmupd (s, p) \<lparr>dir_seen = now, dir_source_revision = src\<rparr> (directories d),
        directory_entries := upsert_rows (s, p)
          (map (\<lambda>n. (node_id n, \<lparr>en_name = node_name n, en_body = n\<rparr>)) (fm_values incoming))
          (delete_scope (s, p) (directory_entries d)),
        directory_sources := (case source of
          Some n \<Rightarrow> fmupd (s, p) \<lparr>src_source = Some n, src_legacy = None\<rparr> (directory_sources d)
        | None \<Rightarrow> fmdrop (s, p) (directory_sources d))\<rparr>"
proof -
  have sb: "still_below (d\<lparr>clock_revision := r, metadata_versions := v\<rparr>) s p = still_below d s p" for r v
    by (simp add: still_below_def fun_eq_iff node_on_frame)
  note pr = assms(4) [unfolded publish_rows_def Let_def bulk_removed_def [symmetric] bulk_updated_def [symmetric]
      bulk_affected_def [symmetric] resolved_parents_def [symmetric], folded affected_def, folded ids_def]
  show "clock_revision d + 1 \<le> i64_max"
    using pr by (auto simp: result_simps)
  show "d1 = d\<lparr>clock_revision := clock_revision d + 1,
        metadata_versions := metadata_versions (mark_all s 2 (resolved_parents d s ids) (clock_revision d + 1)
          (mark_all s 2 (concat (map optional (fm_values affected))) (clock_revision d + 1)
            (mark_all s 1 ids (clock_revision d + 1) (mark s 2 p (clock_revision d + 1) d)))),
        observed := upsert_rows s (map (\<lambda>n. (node_id n, observed_as n now src)) (fm_values incoming))
          (drop_keys s hid (observed d)),
        observed_absent := drop_keys s (map node_id (fm_values incoming)) (put_keys s hid src (observed_absent d)),
        directories := fmupd (s, p) \<lparr>dir_seen = now, dir_source_revision = src\<rparr> (directories d),
        directory_entries := upsert_rows (s, p)
          (map (\<lambda>n. (node_id n, \<lparr>en_name = node_name n, en_body = n\<rparr>)) (fm_values incoming))
          (delete_scope (s, p) (directory_entries d)),
        directory_sources := (case source of
          Some n \<Rightarrow> fmupd (s, p) \<lparr>src_source = Some n, src_legacy = None\<rparr> (directory_sources d)
        | None \<Rightarrow> fmdrop (s, p) (directory_sources d))\<rparr>"
    using pr by (intro db.equality) (auto simp: result_simps mark_all_eq mark_def sb hid_def cong: option.case_cong)
qed

lemma publish_rows_equiv:
  assumes "store_ok d"
    and k: "\<And>i n. fmlookup incoming i = Some n \<Longrightarrow> node_id n = i"
    and pp: "\<And>i n. fmlookup incoming i = Some n \<Longrightarrow> parent_id n = Some p"
    and pv: "\<And>i. fmlookup previous i = find (\<lambda>n. node_id n = i) (prior (listing d s p False))"
    and pr: "publish_rows now s p src source incoming known previous d = Inr (changed, d1)"
  shows "\<exists>c d2. write_directory now s p (fm_values incoming) src d = Inr (c, d2)
    \<and> d1 = d2\<lparr>directory_sources := (case source of
          Some n \<Rightarrow> fmupd (s, p) \<lparr>src_source = Some n, src_legacy = None\<rparr> (directory_sources d)
        | None \<Rightarrow> fmdrop (s, p) (directory_sources d))\<rparr>"
proof -
  define rows where "rows = fm_values incoming"
  have b: "bodies_ok d" and st: "staged_listing p incoming"
    using assms(1) k pp by (simp_all add: store_ok_def staged_listing_def)
  have dist: "distinct (map node_id rows)"
    unfolding rows_def by (rule fm_values_keys(2)) (rule k)
  note d1 = publish_rows_result(2) [OF pr, folded rows_def]
  obtain c d2 where w: "write_directory now s p rows src d = Inr (c, d2)"
    using write_directory_total [OF publish_rows_result(1) [OF pr] dist] by blast
  note ok = write_directory_ok [OF b w]
  have "distinct (map node_id (prior (listing d s p False)))"
    using listing_props(1) [OF b] by (cases "listing d s p False") (auto simp: prior_def)
  then have touched: "updated_nodes (listing d s p False) rows @ fm_values (removed_children d s p rows) = bulk_touched s p incoming previous d"
    using updated_nodes_eq [OF _ pv, of rows] by (simp add: bulk_touched_def bulk_updated_def rows_def)
  let ?hid = "filter (still_below d s p) (sorted_list_of_fset (fmdom (bulk_removed s p incoming d)))"
  have hid: "i \<in> set ?hid \<longleftrightarrow> fmlookup (removed_children d s p rows) i \<noteq> None \<and> still_below d s p i" for i
    using bulk_removed_lookup(1) [where d = d and s = s and p = p and i = i, OF b k] unfolding rows_def by (auto simp: fmlookup_dom_iff)
  have keysd: "distinct (map fst (map (\<lambda>n. (node_id n, g n)) rows))" for g :: "node \<Rightarrow> 'z"
    using dist by (simp add: comp_def)
  have vs: "fmlookup (metadata_versions d1) (s', k', i) = fmlookup (metadata_versions d2) (s', k', i)" for s' k' i
    unfolding ok(16) touched Let_def bulk_marks(1) [OF b st, symmetric] bulk_marks(2) [OF b st, symmetric]
    by (auto simp: d1 versions_mark_all mark_def)
  have ob: "fmlookup (observed d1) (s', i) = fmlookup (observed d2) (s', i)" for s' i
    using find_node_id_None [of i rows] hid [of i]
    by (cases "find (\<lambda>n. node_id n = i) rows") (auto simp: d1 ok(12) fmlookup_upsert_distinct [OF keysd] map_of_find)
  have ab: "fmlookup (observed_absent d1) (s', i) = fmlookup (observed_absent d2) (s', i)" for s' i
    using hid by (auto simp: d1 ok(13))
  have en: "fmlookup (directory_entries d1) (kk, i) = fmlookup (directory_entries d2) (kk, i)" for kk i
    by (cases "find (\<lambda>n. node_id n = i) rows") (simp_all add: d1 ok(11) fmlookup_upsert_distinct [OF keysd] map_of_find)
  have "metadata_versions d1 = metadata_versions d2" "observed d1 = observed d2"
    "observed_absent d1 = observed_absent d2" "directory_entries d1 = directory_entries d2"
    using vs ob ab en by (auto intro!: fmap_ext)
  then have "d1 = d2\<lparr>directory_sources := directory_sources d1\<rparr>"
    by (intro db.equality) (simp_all add: ok(2,4-9), simp_all add: d1)
  then show ?thesis
    using w by (auto simp: d1 rows_def)
qed

section \<open>What the builder keeps\<close>

definition publication_ok :: "directory_publication \<Rightarrow> bool" where
  "publication_ok b \<longleftrightarrow> (\<exists>p. tk_target (pub_ticket b) = TargetDirectory p
     \<and> (\<forall>i n. fmlookup (pub_incoming b) i = Some n \<longrightarrow>
          node_id n = i \<and> i \<noteq> [] \<and> parent_id n = Some p)
     \<and> (\<forall>n. pub_source b = Some n \<longrightarrow> source_valid n \<and> node_id n = p))
   \<and> pub_input_bytes b \<le> max_input_bytes \<and> pub_pages b \<le> max_pages
   \<and> distinct (pub_cursors b)"

lemma stage_nodes_ok:
  assumes "stage_nodes alive json_len p k ns t bytes = Inr (t', bytes')" and "bytes \<le> max_page_bytes"
  shows "bytes' \<le> max_page_bytes \<and> distinct (map node_id ns)
    \<and> (\<forall>n \<in> set ns. parent_id n = Some p \<and> node_id n \<noteq> [] \<and> fmlookup t (node_id n) = None)
    \<and> (\<forall>i. fmlookup t' i = (case find (\<lambda>n. node_id n = i) ns of None \<Rightarrow> fmlookup t i | Some n \<Rightarrow> Some n))"
  using assms
proof (induction ns arbitrary: k t bytes)
  case (Cons n ns)
  then have h: "parent_id n = Some p" "node_id n \<noteq> []" "fmlookup t (node_id n) = None"
    and rest: "stage_nodes alive json_len p (k + 1) ns (fmupd (node_id n) n t) (bytes + json_len n) = Inr (t', bytes')"
    and le: "bytes + json_len n \<le> max_page_bytes"
    by (auto split: if_splits)
  note IH = Cons.IH [OF rest le]
  have notin: "node_id n \<notin> node_id ` set ns"
    using IH by auto
  then have "find (\<lambda>m. node_id m = node_id n) ns = None"
    by (simp add: find_node_id_None)
  then show ?case
    using IH h notin by (auto split: option.splits if_splits)
qed simp

lemma publication_start_ok:
  assumes "store_ok d" and "publication_start alive memory_only s p d = Inr (b, d')"
  shows "publication_ok b" and "store_ok d'" and "marks_grow d d'" and "issued d' (pub_ticket b)"
    and "tk_scope (pub_ticket b) = s" and "tk_target (pub_ticket b) = TargetDirectory p"
proof -
  obtain t where o: "observation s (TargetDirectory p) d = Inr (t, d')"
    and b: "b = \<lparr>pub_ticket = t, pub_incoming = fmempty, pub_cursors = [], pub_input_bytes = 0,
                pub_pages = 0, pub_complete = False, pub_source = None\<rparr>"
    using assms(2)
    by (auto simp: publication_start_def directory_observation_def result_simps split: if_splits)
  note o' = issued_observation [OF assms(1) o]
  show "publication_ok b" "store_ok d'" "marks_grow d d'" "issued d' (pub_ticket b)"
    "tk_scope (pub_ticket b) = s" "tk_target (pub_ticket b) = TargetDirectory p"
    using o' by (auto simp: b publication_ok_def)
qed

lemma bind_source_ok:
  assumes "publication_ok b" and "bind_source json_len source b = Inr b'"
  shows "publication_ok b'"
  using assms by (auto simp: bind_source_def publication_ok_def split: target.splits if_splits)

lemma publication_page_ok:
  assumes "publication_ok b" and "publication_page alive json_len page b = Inr b'"
  shows "publication_ok b'" and "pub_ticket b' = pub_ticket b" and "pub_source b' = pub_source b"
    and "\<not> pub_complete b" and "pub_complete b' \<longleftrightarrow> page_next page = None"
    and "distinct (map node_id (page_nodes page))"
    and "fmlookup (pub_incoming b') i =
      (case find (\<lambda>n. node_id n = i) (page_nodes page) of None \<Rightarrow> fmlookup (pub_incoming b) i | Some n \<Rightarrow> Some n)"
    and "n \<in> set (page_nodes page) \<Longrightarrow> fmlookup (pub_incoming b) (node_id n) = None"
proof -
  obtain p where p: "tk_target (pub_ticket b) = TargetDirectory p"
    using assms(1) by (auto simp: publication_ok_def)
  obtain t bytes cs bytes' where sc: "stage_cursor (page_next page) (pub_cursors b) bytes = Inr (cs, bytes')"
    and st: "stage_nodes alive json_len p 1 (page_nodes page) (pub_incoming b) 0 = Inr (t, bytes)"
    and le: "pub_input_bytes b + bytes' \<le> max_input_bytes"
    and nc: "\<not> pub_complete b" and pg: "pub_pages b < max_pages"
    and b': "b' = b\<lparr>pub_incoming := t, pub_cursors := cs, pub_input_bytes := pub_input_bytes b + bytes',
                    pub_pages := pub_pages b + 1, pub_complete := (page_next page = None)\<rparr>"
    using assms
    by (auto simp: publication_page_def p result_simps split: if_splits)
  have cs: "distinct cs"
    using sc assms(1) by (auto simp: stage_cursor_def publication_ok_def split: option.splits if_splits)
  note sn = stage_nodes_ok [OF st]
  have inc: "fmlookup t i = (case find (\<lambda>n. node_id n = i) (page_nodes page) of
      None \<Rightarrow> fmlookup (pub_incoming b) i | Some n \<Rightarrow> Some n)" for i
    using sn by simp
  have old: "node_id n = i \<and> i \<noteq> [] \<and> parent_id n = Some p" if "fmlookup (pub_incoming b) i = Some n" for i n
    using that assms(1) p by (auto simp: publication_ok_def)
  have new: "node_id n = i \<and> i \<noteq> [] \<and> parent_id n = Some p"
    if "find (\<lambda>n. node_id n = i) (page_nodes page) = Some n" for i n
    using that sn unfolding find_Some_iff by auto
  have "node_id n = i \<and> i \<noteq> [] \<and> parent_id n = Some p" if "fmlookup t i = Some n" for i n
    using that old [of i n] new [of i n] by (cases "find (\<lambda>n. node_id n = i) (page_nodes page)") (simp_all add: inc)
  then show "publication_ok b'"
    using assms(1) p cs le pg by (auto simp: publication_ok_def b')
  show "pub_ticket b' = pub_ticket b" "pub_source b' = pub_source b" "\<not> pub_complete b"
    "pub_complete b' \<longleftrightarrow> page_next page = None" "distinct (map node_id (page_nodes page))"
    "fmlookup (pub_incoming b') i =
      (case find (\<lambda>n. node_id n = i) (page_nodes page) of None \<Rightarrow> fmlookup (pub_incoming b) i | Some n \<Rightarrow> Some n)"
    "n \<in> set (page_nodes page) \<Longrightarrow> fmlookup (pub_incoming b) (node_id n) = None"
    using sn nc inc by (auto simp: b')
qed

lemma bulk_publish_cases:
  assumes "bulk_publish alive now t source incoming d = Inr (r, k, d')"
  obtains (source) "r = SourceChanged" "d' = d"
    | (superseded) known where "r = PubSuperseded known" "d' = d"
    | (published) p changed known previous where "r = PubPublished changed"
      "tk_target t = TargetDirectory p" "current d t [] = Inr True"
      "\<And>n. n \<in> set (fm_values incoming) \<Longrightarrow> \<not> changed_after d (tk_scope t) 1 (node_id n) (tk_revision t)"
      "\<And>i. fmlookup previous i = find (\<lambda>n. node_id n = i) (prior (listing d (tk_scope t) p False))"
      "publish_rows now (tk_scope t) p (tk_revision t) source incoming known previous d = Inr (changed, d')"
proof -
  obtain p where p: "tk_target t = TargetDirectory p"
    using assms by (auto simp: bulk_publish_def split: target.splits)
  let ?s = "tk_scope t"
  consider "r = SourceChanged" "d' = d" | known where "r = PubSuperseded known" "d' = d"
    | known previous changed where "current d t [] = Inr True"
      "\<not> list_ex (\<lambda>n. changed_after d ?s 1 (node_id n) (tk_revision t)) (fm_values incoming)"
      "visit_on d ?s p (visit_previous alive) (1, fmempty) = Inr (known, k, previous)"
      "publish_rows now ?s p (tk_revision t) source incoming known previous d = Inr (changed, d')"
      "r = PubPublished changed"
    using assms by (fastforce simp: bulk_publish_def p Let_def result_simps split: if_splits)
  then show thesis
  proof cases
    case (3 known previous changed)
    have "fmlookup previous i = find (\<lambda>n. node_id n = i) (prior (listing d ?s p False))" for i
    proof (cases "listing d ?s p False")
      case None
      then have "previous = fmempty"
        using 3(3) by (auto simp: visit_on_def listing_def read_on_def split: option.splits sum.splits)
      then show ?thesis
        using None by (simp add: prior_def)
    next
      case (Some ns)
      then have "visit_rows (visit_previous alive) ns (1, fmempty) = Inr (k, previous)"
        using 3(3) by (auto simp: visit_on_def listing_def read_on_def split: option.splits sum.splits)
      then show ?thesis
        using visit_previous_ok Some by (fastforce simp: prior_def split: option.splits)
    qed
    then show thesis
      using 3(2) by (intro published [OF 3(5) p 3(1) _ _ 3(4)]) (auto simp: list_ex_iff)
  qed (use source superseded in auto)
qed

text \<open>Recording the source of a listing, after it was written, disturbs nothing else.\<close>

lemma rebind_sources_ok:
  fixes d d2 s q
  assumes "store_ok d" and "write_directory now s q ns src d = Inr (c, d2)" and "store_ok d2"
  defines "d' source \<equiv> d2\<lparr>directory_sources := (case source of
          Some n \<Rightarrow> fmupd (s, q) \<lparr>src_source = Some n, src_legacy = None\<rparr> (directory_sources d)
        | None \<Rightarrow> fmdrop (s, q) (directory_sources d))\<rparr>"
  shows "store_ok (d' source) \<and> marks_grow d2 (d' source) \<and> listing (d' source) s q req = listing d2 s q req"
proof -
  have bod: "bodies_ok d"
    using assms(1) by (simp add: store_ok_def)
  have "keys_ok d" "keys_ok d2"
    using assms(1,3) by (simp_all add: store_ok_def)
  then have "keys_ok (d' source)"
    unfolding d'_def keys_ok_def
    by (auto simp: write_directory_ok(9) [OF bod assms(2)] split: option.splits if_splits)
  then have "store_ok (d' source)"
    using assms(3) by (simp add: d'_def store_ok_def bodies_ok_def exclusive_ok_def revisions_ok_def feeds_ok_def)
  moreover have "marks_grow d2 (d' source)"
    by (rule marks_grow_tables) (simp_all add: d'_def)
  moreover have "listing (d' source) s q req = listing d2 s q req"
    by (simp add: d'_def listing_def read_on_def read_source_def plan_rows_def snapshot_children_def
        indexed_children_def newer_observed_def newer_absent_def cong: option.case_cong read_plan.case_cong)
  ultimately show ?thesis
    by blast
qed

lemma bulk_publish_ok:
  assumes "store_ok d" and "issued d (pub_ticket b)" and "publication_ok b"
    and "publication_publish alive now b d = Inr (r, d')"
  shows "store_ok d'" and "marks_grow d d'"
    and "r = PubPublished changed \<Longrightarrow> tk_target (pub_ticket b) = TargetDirectory p \<Longrightarrow>
      listing d' (tk_scope (pub_ticket b)) p req =
        Some (sort_key (\<lambda>n. (node_name n, node_id n)) (fm_values (pub_incoming b)))"
    and "r \<noteq> PubPublished changed \<Longrightarrow> r \<noteq> PubPublished (\<not> changed) \<Longrightarrow> d' = d"
proof -
  let ?t = "pub_ticket b"
  obtain k where bp: "bulk_publish alive now ?t (pub_source b) (pub_incoming b) d = Inr (r, k, d')"
    using assms(4) by (auto simp: publication_publish_def result_simps split: if_splits)
  have "store_ok d' \<and> marks_grow d d'
    \<and> (r = PubPublished changed \<longrightarrow> tk_target ?t = TargetDirectory p \<longrightarrow>
         listing d' (tk_scope ?t) p req =
           Some (sort_key (\<lambda>n. (node_name n, node_id n)) (fm_values (pub_incoming b))))
    \<and> (r \<noteq> PubPublished changed \<longrightarrow> r \<noteq> PubPublished (\<not> changed) \<longrightarrow> d' = d)"
    using bp
  proof (cases rule: bulk_publish_cases)
    case (published q ch known previous)
    have k: "fmlookup (pub_incoming b) i = Some n \<Longrightarrow> node_id n = i"
      "fmlookup (pub_incoming b) i = Some n \<Longrightarrow> parent_id n = Some q" for i n
      using assms(3) published(2) by (auto simp: publication_ok_def)
    have "\<exists>c d2. write_directory now (tk_scope ?t) q (fm_values (pub_incoming b)) (tk_revision ?t) d = Inr (c, d2)
      \<and> d' = d2\<lparr>directory_sources := (case pub_source b of
          Some n \<Rightarrow> fmupd (tk_scope ?t, q) \<lparr>src_source = Some n, src_legacy = None\<rparr> (directory_sources d)
        | None \<Rightarrow> fmdrop (tk_scope ?t, q) (directory_sources d))\<rparr>"
      by (rule publish_rows_equiv [OF assms(1) _ _ published(5,6)]) (use k in blast)+
    then obtain c d2 where w: "write_directory now (tk_scope ?t) q (fm_values (pub_incoming b)) (tk_revision ?t) d = Inr (c, d2)"
      and d': "d' = d2\<lparr>directory_sources := (case pub_source b of
          Some n \<Rightarrow> fmupd (tk_scope ?t, q) \<lparr>src_source = Some n, src_legacy = None\<rparr> (directory_sources d)
        | None \<Rightarrow> fmdrop (tk_scope ?t, q) (directory_sources d))\<rparr>"
      by blast
    have le: "tk_revision ?t \<le> clock_revision d"
      using assms(2) by (simp add: issued_def)
    note d2 = store_ok_write_directory [OF assms(1) w le]
    note d'_ok = rebind_sources_ok [OF assms(1) w d2(1), of "pub_source b", folded d']
    then have "marks_grow d2 d'" "listing d' (tk_scope ?t) q req = listing d2 (tk_scope ?t) q req" and ok: "store_ok d'"
      by blast+
    moreover have "bodies_ok d2"
      using d2(1) by (simp add: store_ok_def)
    ultimately show ?thesis
      using ok d2(2) write_directory_listing [OF assms(1) w] published(1,2)
      by (auto intro: marks_grow_trans)
  qed (use assms(1) in auto)
  then show "store_ok d'" "marks_grow d d'"
    "r = PubPublished changed \<Longrightarrow> tk_target ?t = TargetDirectory p \<Longrightarrow>
      listing d' (tk_scope ?t) p req =
        Some (sort_key (\<lambda>n. (node_name n, node_id n)) (fm_values (pub_incoming b)))"
    "r \<noteq> PubPublished changed \<Longrightarrow> r \<noteq> PubPublished (\<not> changed) \<Longrightarrow> d' = d"
    by blast+
qed

end
