(* ===== verification/Store_World.thy ===== *)
theory Store_World
  imports Feed_Safety Store_Publication
begin

text \<open>
  The store as its callers use it: workers take tickets, hold them across network
  calls and publish later, while feed rounds and other publications commit in
  between. A world is the database with the tickets and the listing builders that
  are outstanding; a run is any sequence of calls.
\<close>

record world =
  w_db :: db
  w_tickets :: "ticket list"
  w_builders :: "directory_publication option list"

datatype store_op =
    OpBegin scope bool
  | OpBeginSnapshot scope
  | OpStage scope "cursor option" change_page
  | OpObservation scope target
  | OpPublishNode int nat node
  | OpPublishDirectory int nat "node list"
  | OpPublishAbsence nat
  | OpObserveNode int scope node
  | OpObserveDirectory int scope string "node list"
  | OpOrdinaryHandoff int scope node node node
  | OpNativeHandoff int scope node node node
  | OpStartPublication bool bool scope string
  | OpBindSource "node \<Rightarrow> nat" nat node
  | OpPage "nat \<Rightarrow> bool" "node \<Rightarrow> nat" nat directory_page
  | OpPublish "nat \<Rightarrow> bool" int nat

definition commit :: "store_error + ('a \<times> db) \<Rightarrow> world \<Rightarrow> world" where
  "commit r w = (case r of Inl _ \<Rightarrow> w | Inr (_, d) \<Rightarrow> w\<lparr>w_db := d\<rparr>)"

definition commit_unit :: "store_error + db \<Rightarrow> world \<Rightarrow> world" where
  "commit_unit r w = (case r of Inl _ \<Rightarrow> w | Inr d \<Rightarrow> w\<lparr>w_db := d\<rparr>)"

definition with_ticket :: "nat \<Rightarrow> (ticket \<Rightarrow> world \<Rightarrow> world) \<Rightarrow> world \<Rightarrow> world" where
  "with_ticket k f w = (if k < length (w_tickets w) then f (w_tickets w ! k) w else w)"

text \<open>A builder is consumed by a failed call and by publication.\<close>

definition with_builder :: "nat \<Rightarrow> (directory_publication \<Rightarrow> world \<Rightarrow> world) \<Rightarrow> world \<Rightarrow> world" where
  "with_builder k f w =
     (if k < length (w_builders w) then
        (case w_builders w ! k of None \<Rightarrow> w
         | Some b \<Rightarrow> f b (w\<lparr>w_builders := (w_builders w)[k := None]\<rparr>))
      else w)"

definition put_builder :: "nat \<Rightarrow> store_error + directory_publication \<Rightarrow> world \<Rightarrow> world" where
  "put_builder k r w =
     (case r of Inl _ \<Rightarrow> w | Inr b \<Rightarrow> w\<lparr>w_builders := (w_builders w)[k := Some b]\<rparr>)"

fun world_exec :: "store_op \<Rightarrow> world \<Rightarrow> world" where
  "world_exec (OpBegin s reset) w = commit (begin_feed s reset (w_db w)) w"
| "world_exec (OpBeginSnapshot s) w = commit (begin_snapshot s (w_db w)) w"
| "world_exec (OpStage s expected page) w = commit_unit (stage s expected page (w_db w)) w"
| "world_exec (OpObservation s tgt) w =
     (case observation s tgt (w_db w) of Inl _ \<Rightarrow> w
      | Inr (t, d) \<Rightarrow> w\<lparr>w_db := d, w_tickets := w_tickets w @ [t]\<rparr>)"
| "world_exec (OpPublishNode now k n) w = with_ticket k (\<lambda>t w. commit (publish_node now t n (w_db w)) w) w"
| "world_exec (OpPublishDirectory now k ns) w =
     with_ticket k (\<lambda>t w. commit (publish_directory now t ns (w_db w)) w) w"
| "world_exec (OpPublishAbsence k) w = with_ticket k (\<lambda>t w. commit (publish_absence t (w_db w)) w) w"
| "world_exec (OpObserveNode now s n) w = commit_unit (observe_node now s n (w_db w)) w"
| "world_exec (OpObserveDirectory now s p ns) w = commit (observe_directory now s p ns (w_db w)) w"
| "world_exec (OpOrdinaryHandoff now s original cur backup) w =
     commit (publish_ordinary_handoff_backup now s original cur backup (w_db w)) w"
| "world_exec (OpNativeHandoff now s original cur backup) w =
     commit (publish_native_handoff now s original cur backup (w_db w)) w"
| "world_exec (OpStartPublication alive memory_only s p) w =
     (case publication_start alive memory_only s p (w_db w) of Inl _ \<Rightarrow> w
      | Inr (b, d) \<Rightarrow> w\<lparr>w_db := d, w_builders := w_builders w @ [Some b]\<rparr>)"
| "world_exec (OpBindSource json_len k n) w =
     with_builder k (\<lambda>b. put_builder k (bind_source json_len n b)) w"
| "world_exec (OpPage alive json_len k page) w =
     with_builder k (\<lambda>b. put_builder k (publication_page alive json_len page b)) w"
| "world_exec (OpPublish alive now k) w =
     with_builder k (\<lambda>b w. commit (publication_publish alive now b (w_db w)) w) w"

definition world_ok :: "world \<Rightarrow> bool" where
  "world_ok w \<longleftrightarrow> store_ok (w_db w)
     \<and> (\<forall>t \<in> set (w_tickets w). issued (w_db w) t)
     \<and> (\<forall>b. Some b \<in> set (w_builders w) \<longrightarrow> publication_ok b \<and> issued (w_db w) (pub_ticket b))"

definition world_grows :: "world \<Rightarrow> world \<Rightarrow> bool" where
  "world_grows v w \<longleftrightarrow> marks_grow (w_db v) (w_db w) \<and> prefix (w_tickets v) (w_tickets w)"

definition new_world :: "string \<Rightarrow> world" where
  "new_world ident = \<lparr>w_db = empty_db ident, w_tickets = [], w_builders = []\<rparr>"

lemma new_world_ok [simp]: "world_ok (new_world ident)"
  by (simp add: world_ok_def new_world_def)

text \<open>A commit of a well-formed successor keeps the world well formed.\<close>

lemma world_ok_db:
  assumes "world_ok w" and "store_ok d" and "marks_grow (w_db w) d"
  shows "world_ok (w\<lparr>w_db := d\<rparr>) \<and> world_grows w (w\<lparr>w_db := d\<rparr>)"
  using assms by (auto simp: world_ok_def world_grows_def intro: issued_grows)

lemma commit_ok:
  assumes "world_ok w" and "\<And>x d. r = Inr (x, d) \<Longrightarrow> store_ok d \<and> marks_grow (w_db w) d"
  shows "world_ok (commit r w) \<and> world_grows w (commit r w)"
  using assms world_ok_db [OF assms(1)]
  by (auto simp: commit_def world_grows_def split: sum.splits)

lemma commit_unit_ok:
  assumes "world_ok w" and "\<And>d. r = Inr d \<Longrightarrow> store_ok d \<and> marks_grow (w_db w) d"
  shows "world_ok (commit_unit r w) \<and> world_grows w (commit_unit r w)"
  using assms world_ok_db [OF assms(1)]
  by (auto simp: commit_unit_def world_grows_def split: sum.splits)

lemma world_grows_refl [simp]: "world_grows w w"
  by (simp add: world_grows_def)

lemma world_grows_trans: "world_grows u v \<Longrightarrow> world_grows v w \<Longrightarrow> world_grows u w"
  unfolding world_grows_def by (meson marks_grow_trans prefix_order.trans)

lemma with_ticket_ok:
  assumes "world_ok w"
    and "\<And>t. issued (w_db w) t \<Longrightarrow> world_ok (f t w) \<and> world_grows w (f t w)"
  shows "world_ok (with_ticket k f w) \<and> world_grows w (with_ticket k f w)"
proof -
  have "k < length (w_tickets w) \<Longrightarrow> issued (w_db w) (w_tickets w ! k)"
    using assms(1) by (auto simp: world_ok_def)
  then show ?thesis
    using assms by (auto simp: with_ticket_def)
qed

lemma with_builder_ok:
  assumes "world_ok w"
    and "\<And>b v. publication_ok b \<Longrightarrow> issued (w_db w) (pub_ticket b) \<Longrightarrow> world_ok v \<Longrightarrow> w_db v = w_db w \<Longrightarrow>
           world_ok (f b v) \<and> world_grows v (f b v)"
  shows "world_ok (with_builder k f w) \<and> world_grows w (with_builder k f w)"
proof (cases "k < length (w_builders w) \<and> w_builders w ! k \<noteq> None")
  case True
  then obtain b where b: "k < length (w_builders w)" "w_builders w ! k = Some b"
    by auto
  then have mem: "Some b \<in> set (w_builders w)"
    by (metis nth_mem)
  let ?v = "w\<lparr>w_builders := (w_builders w)[k := None]\<rparr>"
  have "world_ok ?v"
    using assms(1) by (auto simp: world_ok_def dest: set_update_subset_insert [THEN subsetD])
  then show ?thesis
    using assms(2) [of b ?v] assms(1) mem b by (auto simp: with_builder_def world_ok_def world_grows_def)
next
  case False
  then show ?thesis
    using assms(1) by (auto simp: with_builder_def split: option.splits)
qed

lemma put_builder_ok:
  assumes "world_ok w" and "\<And>b. r = Inr b \<Longrightarrow> publication_ok b \<and> issued (w_db w) (pub_ticket b)"
  shows "world_ok (put_builder k r w) \<and> world_grows w (put_builder k r w)"
  using assms
  by (auto simp: put_builder_def world_ok_def world_grows_def split: sum.splits
      dest!: set_update_subset_insert [THEN subsetD])

lemma handoffs_ok:
  assumes "store_ok d"
  shows "publish_ordinary_handoff_backup now s original cur backup d = Inr (b, d') \<Longrightarrow> store_ok d' \<and> marks_grow d d'"
    and "publish_native_handoff now s original cur backup d = Inr (b, d') \<Longrightarrow> store_ok d' \<and> marks_grow d d'"
  using assms settle_handoff_ok(1,2) ordinary_handoff_cases native_handoff_cases
  by (metis marks_grow_refl)+

lemma observation_exec_ok:
  assumes "world_ok w"
  shows "world_ok (world_exec (OpObservation s tgt) w) \<and> world_grows w (world_exec (OpObservation s tgt) w)"
proof (cases "observation s tgt (w_db w)")
  case (Inr r)
  obtain t d' where r: "r = (t, d')"
    by (cases r)
  have d: "store_ok (w_db w)"
    using assms by (simp add: world_ok_def)
  note o = issued_observation [OF d Inr [unfolded r]]
  show ?thesis
    using world_ok_db [OF assms o(2,3)] o(1) by (simp add: Inr r world_ok_def world_grows_def)
qed (simp add: assms)

lemma start_publication_exec_ok:
  assumes "world_ok w"
  shows "world_ok (world_exec (OpStartPublication alive memory_only s p) w)
    \<and> world_grows w (world_exec (OpStartPublication alive memory_only s p) w)"
proof (cases "publication_start alive memory_only s p (w_db w)")
  case (Inr r)
  obtain b d' where r: "r = (b, d')"
    by (cases r)
  have d: "store_ok (w_db w)"
    using assms by (simp add: world_ok_def)
  note o = publication_start_ok [OF d Inr [unfolded r]]
  show ?thesis
    using world_ok_db [OF assms o(2,3)] o(1,4) by (auto simp: Inr r world_ok_def world_grows_def)
qed (simp add: assms)

lemma publish_exec_ok:
  assumes "world_ok w"
  shows "world_ok (world_exec (OpPublish alive now k) w) \<and> world_grows w (world_exec (OpPublish alive now k) w)"
  unfolding world_exec.simps
proof (rule with_builder_ok [OF assms])
  fix b v
  assume b: "publication_ok b" "issued (w_db w) (pub_ticket b)" "world_ok v" "w_db v = w_db w"
  have d: "store_ok (w_db w)"
    using assms by (simp add: world_ok_def)
  show "world_ok (commit (publication_publish alive now b (w_db v)) v)
      \<and> world_grows v (commit (publication_publish alive now b (w_db v)) v)"
    using bulk_publish_ok(1,2) [OF d b(2,1)] b(3,4) by (intro commit_ok) auto
qed

lemma world_exec_ok:
  assumes "world_ok w"
  shows "world_ok (world_exec op w) \<and> world_grows w (world_exec op w)"
proof -
  have d: "store_ok (w_db w)"
    using assms by (simp add: world_ok_def)
  show ?thesis
  proof (cases op)
    case (OpObservation s tgt)
    show ?thesis
      unfolding OpObservation by (rule observation_exec_ok [OF assms])
  next
    case (OpStartPublication alive memory_only s p)
    show ?thesis
      unfolding OpStartPublication by (rule start_publication_exec_ok [OF assms])
  next
    case (OpPublish alive now k)
    show ?thesis
      unfolding OpPublish by (rule publish_exec_ok [OF assms])
  next
    case (OpBindSource json_len k n)
    have "pub_ticket b' = pub_ticket b" if "bind_source json_len n b = Inr b'" for b b'
      using that by (auto simp: bind_source_def split: target.splits if_splits)
    then show ?thesis
      using assms OpBindSource
      by (auto intro!: with_builder_ok put_builder_ok intro: bind_source_ok)
  next
    case (OpPage alive json_len k page)
    then show ?thesis
      using assms by (auto intro!: with_builder_ok put_builder_ok simp: publication_page_ok)
  next
    case (OpBegin s reset)
    show ?thesis
      unfolding OpBegin world_exec.simps by (rule commit_ok [OF assms]) (rule begin_feed_ok [OF d])
  next
    case (OpBeginSnapshot s)
    show ?thesis
      unfolding OpBeginSnapshot world_exec.simps by (rule commit_ok [OF assms]) (rule begin_snapshot_ok [OF d])
  next
    case (OpStage s expected page)
    show ?thesis
      unfolding OpStage world_exec.simps by (rule commit_unit_ok [OF assms]) (blast dest: stage_ok [OF d])
  next
    case (OpObserveNode now s n)
    show ?thesis
      unfolding OpObserveNode world_exec.simps by (rule commit_unit_ok [OF assms]) (blast dest: observe_node_ok(1,2) [OF d])
  next
    case (OpObserveDirectory now s p ns)
    show ?thesis
      unfolding OpObserveDirectory world_exec.simps by (rule commit_ok [OF assms]) (blast dest: observe_directory_ok [OF d])
  next
    case (OpOrdinaryHandoff now s original cur backup)
    show ?thesis
      unfolding OpOrdinaryHandoff world_exec.simps by (rule commit_ok [OF assms]) (rule handoffs_ok(1) [OF d])
  next
    case (OpNativeHandoff now s original cur backup)
    show ?thesis
      unfolding OpNativeHandoff world_exec.simps by (rule commit_ok [OF assms]) (rule handoffs_ok(2) [OF d])
  next
    case (OpPublishNode now k n)
    show ?thesis
      unfolding OpPublishNode world_exec.simps by (rule with_ticket_ok [OF assms], rule commit_ok [OF assms]) (blast dest: publish_node_ok [OF d])
  next
    case (OpPublishDirectory now k ns)
    show ?thesis
      unfolding OpPublishDirectory world_exec.simps by (rule with_ticket_ok [OF assms], rule commit_ok [OF assms]) (blast dest: publish_directory_ok [OF d])
  next
    case (OpPublishAbsence k)
    show ?thesis
      unfolding OpPublishAbsence world_exec.simps by (rule with_ticket_ok [OF assms], rule commit_ok [OF assms]) (blast dest: publish_absence_ok(1,2) [OF d])
  qed
qed

interpretation store: evolving_machine world_exec world_ok world_grows
  by unfold_locales (auto simp: world_exec_ok intro: world_grows_trans)

end
