(* ===== verification/Store_Changes.thy ===== *)
theory Store_Changes
  imports Store_State
begin

text \<open>
  Bounded reads of committed revision marks (\<open>cirrove-store/src/metadata_changes.rs\<close>),
  with which a mount invalidates its caches. The JSON text of a scope takes part in
  the order of the marks and in the page budget, so the model takes the encoder
  \<open>enc\<close> and the decoder \<open>dec\<close> of that text as parameters.
\<close>

definition page_entries :: nat where "page_entries = 256"
definition page_bytes :: nat where "page_bytes = 64 * 1024"
definition max_mark_bytes :: nat where "max_mark_bytes = 1024 * 1024"

type_synonym mark_row = "int \<times> string \<times> nat \<times> string"

record metadata_position =
  mp_database :: string
  mp_through :: int
  mp_upper :: "int option"
  mp_after :: "mark_row option"

datatype metadata_change_kind = ScopeChange | ItemChange | DirectoryChange

record metadata_change =
  mc_scope :: scope
  mc_kind :: metadata_change_kind
  mc_identity :: string

record metadata_changes_page =
  mcp_changes :: "metadata_change list"
  mcp_next :: metadata_position
  mcp_complete :: bool

definition metadata_position_of :: "db \<Rightarrow> metadata_position" where
  "metadata_position_of d = \<lparr>mp_database = fst (clock d), mp_through = snd (clock d),
     mp_upper = None, mp_after = None\<rparr>"

text \<open>The index \<open>metadata_change_order\<close> over all marks.\<close>

definition mark_order :: "(scope \<Rightarrow> string) \<Rightarrow> db \<Rightarrow> mark_row list" where
  "mark_order enc d = sorted_list_of_fset
     ((\<lambda>(s, k, i). (the (fmlookup (metadata_versions d) (s, k, i)), enc s, k, i))
        |`| fmdom (metadata_versions d))"

definition in_round :: "metadata_position \<Rightarrow> int \<Rightarrow> mark_row \<Rightarrow> bool" where
  "in_round pos upper r =
     ((case mp_after pos of Some a \<Rightarrow> a < r | None \<Rightarrow> mp_through pos < fst r) \<and> fst r \<le> upper)"

definition change_kind :: "nat \<Rightarrow> store_error + metadata_change_kind" where
  "change_kind k = (if k = 0 then Inr ScopeChange else if k = 1 then Inr ItemChange
     else if k = 2 then Inr DirectoryChange else Inl OutOfOrder)"

text \<open>The read loop: the changes so far, their bytes, the last row taken.\<close>

fun read_marks ::
    "(string \<Rightarrow> scope option) \<Rightarrow> mark_row list \<Rightarrow> metadata_change list \<Rightarrow> nat \<Rightarrow> mark_row option
       \<Rightarrow> store_error + (metadata_change list \<times> mark_row option \<times> bool)" where
  "read_marks dec [] cs bytes lst = Inr (cs, lst, True)"
| "read_marks dec ((rv, sc, kind, ident) # rows) cs bytes lst =
     (let size = length sc + length ident in
      if size > max_mark_bytes then Inl OutOfOrder
      else if cs \<noteq> [] \<and> bytes + size > page_bytes then Inr (cs, lst, False)
      else
        and_then (ok_or (dec sc) Encoding) (\<lambda>s.
        and_then (change_kind kind) (\<lambda>kd.
        let cs' = cs @ [\<lparr>mc_scope = s, mc_kind = kd, mc_identity = ident\<rparr>];
            lst' = Some (rv, sc, kind, ident)
        in if length cs' = page_entries then Inr (cs', lst', False)
           else read_marks dec rows cs' (bytes + size) lst')))"

definition metadata_changes ::
    "(scope \<Rightarrow> string) \<Rightarrow> (string \<Rightarrow> scope option) \<Rightarrow> db \<Rightarrow> metadata_position
       \<Rightarrow> store_error + metadata_changes_page" where
  "metadata_changes enc dec d pos =
     (if fst (clock d) \<noteq> mp_database pos \<or> snd (clock d) < mp_through pos then Inl OutOfOrder
      else
        let upper = (case mp_upper pos of Some u \<Rightarrow> u | None \<Rightarrow> snd (clock d));
            rows = take 256 (filter (in_round pos upper) (mark_order enc d))
        in and_then (read_marks dec rows [] 0 (mp_after pos)) (\<lambda>(cs, lst, complete).
           Inr \<lparr>mcp_changes = cs,
                mcp_next = (if complete
                  then pos\<lparr>mp_through := upper, mp_upper := None, mp_after := None\<rparr>
                  else pos\<lparr>mp_upper := Some upper, mp_after := lst\<rparr>),
                mcp_complete = complete\<rparr>))"

section \<open>A paged reader\<close>

text \<open>
  A reader that serves a sequence page by page: each page is a prefix of what is
  left, a page that is not the last one is not empty, and the last one leaves nothing.
\<close>

fun drain :: "('p \<Rightarrow> ('e list \<times> 'p \<times> bool) option) \<Rightarrow> nat \<Rightarrow> 'p \<Rightarrow> ('e list \<times> 'p) option" where
  "drain fetch 0 p = None"
| "drain fetch (Suc fuel) p =
     (case fetch p of
        None \<Rightarrow> None
      | Some (es, q, complete) \<Rightarrow>
          if complete then Some (es, q)
          else map_option (\<lambda>(rest, r). (es @ rest, r)) (drain fetch fuel q))"

locale paged_reader =
  fixes fetch :: "'p \<Rightarrow> ('e list \<times> 'p \<times> bool) option"
    and left :: "'p \<Rightarrow> 'e list"
    and ok :: "'p \<Rightarrow> bool"
  assumes fetch_some: "ok p \<Longrightarrow> \<exists>es q complete. fetch p = Some (es, q, complete)"
    and fetch_last: "ok p \<Longrightarrow> fetch p = Some (es, q, True) \<Longrightarrow> left p = es"
    and fetch_more: "ok p \<Longrightarrow> fetch p = Some (es, q, False) \<Longrightarrow> left p = es @ left q \<and> es \<noteq> [] \<and> ok q"
begin

lemma drain_all:
  "ok p \<Longrightarrow> length (left p) < fuel \<Longrightarrow> \<exists>q. drain fetch fuel p = Some (left p, q)"
proof (induction fuel arbitrary: p)
  case (Suc fuel)
  obtain es q complete where f: "fetch p = Some (es, q, complete)"
    using fetch_some [OF Suc.prems(1)] by blast
  show ?case
  proof (cases complete)
    case True
    then show ?thesis
      using f fetch_last [OF Suc.prems(1)] by simp
  next
    case False
    then have m: "left p = es @ left q" "es \<noteq> []" "ok q"
      using f fetch_more [OF Suc.prems(1)] by auto
    then have "length (left q) < fuel"
      using Suc.prems(2) by (cases es) auto
    then show ?thesis
      using Suc.IH [OF m(3)] f False m(1) by auto
  qed
qed simp

end

section \<open>The invalidation reader is one\<close>

definition row_change :: "(string \<Rightarrow> scope option) \<Rightarrow> mark_row \<Rightarrow> metadata_change" where
  "row_change dec r = (case r of (rv, sc, kind, ident) \<Rightarrow>
     \<lparr>mc_scope = the (dec sc),
      mc_kind = (if kind = 0 then ScopeChange else if kind = 1 then ItemChange else DirectoryChange),
      mc_identity = ident\<rparr>)"

definition row_ok :: "(string \<Rightarrow> scope option) \<Rightarrow> mark_row \<Rightarrow> bool" where
  "row_ok dec r = (case r of (rv, sc, kind, ident) \<Rightarrow>
     dec sc \<noteq> None \<and> kind \<le> 2 \<and> length sc + length ident \<le> max_mark_bytes)"

lemma read_marks_prefix:
  assumes "\<And>r. r \<in> set rows \<Longrightarrow> row_ok dec r" and "length cs < page_entries"
  shows "\<exists>n lst' complete. read_marks dec rows cs bytes lst =
      Inr (cs @ map (row_change dec) (take n rows), lst', complete)
    \<and> n \<le> length rows
    \<and> (n = 0 \<longrightarrow> lst' = lst \<and> (rows = [] \<or> cs \<noteq> []))
    \<and> (n > 0 \<longrightarrow> lst' = Some (rows ! (n - 1)))
    \<and> (complete \<longrightarrow> n = length rows \<and> length cs + length rows < page_entries)
    \<and> (\<not> complete \<longrightarrow> cs \<noteq> [] \<or> n > 0)"
  using assms
proof (induction rows arbitrary: cs bytes lst)
  case Nil
  then show ?case
    by (intro exI [of _ 0] exI [of _ lst] exI [of _ True]) simp
next
  case (Cons r rows)
  obtain rv sc kind ident where r: "r = (rv, sc, kind, ident)"
    by (cases r)
  have ok: "dec sc \<noteq> None" "kind \<le> 2" "length sc + length ident \<le> max_mark_bytes"
    using Cons.prems(1) [of r] by (auto simp: r row_ok_def)
  then obtain s where s: "dec sc = Some s"
    by auto
  have kd: "change_kind kind = Inr (mc_kind (row_change dec r))"
    using ok(2) by (auto simp: change_kind_def row_change_def r)
  have rc: "\<lparr>mc_scope = s, mc_kind = mc_kind (row_change dec r), mc_identity = ident\<rparr> = row_change dec r"
    by (simp add: row_change_def r s)
  let ?cs = "cs @ [row_change dec r]"
  show ?case
  proof (cases "cs \<noteq> [] \<and> bytes + (length sc + length ident) > page_bytes")
    case True
    then show ?thesis
      using ok by (intro exI [of _ 0] exI [of _ lst] exI [of _ False]) (simp add: r)
  next
    case stay: False
    show ?thesis
    proof (cases "length ?cs = page_entries")
      case True
      then show ?thesis
        using stay ok s kd rc
        by (intro exI [of _ 1] exI [of _ "Some r"] exI [of _ False]) (auto simp: r Let_def)
    next
      case False
      then have len: "length ?cs < page_entries"
        using Cons.prems(2) by simp
      obtain n lst' complete where IH: "read_marks dec rows ?cs (bytes + (length sc + length ident)) (Some r) =
          Inr (?cs @ map (row_change dec) (take n rows), lst', complete)"
        "n \<le> length rows" "n = 0 \<longrightarrow> lst' = Some r" "n > 0 \<longrightarrow> lst' = Some (rows ! (n - 1))"
        "complete \<longrightarrow> n = length rows \<and> length ?cs + length rows < page_entries"
        using Cons.IH [of ?cs "bytes + (length sc + length ident)" "Some r"] Cons.prems(1) len by auto
      have "read_marks dec (r # rows) cs bytes lst =
          read_marks dec rows ?cs (bytes + (length sc + length ident)) (Some r)"
        using stay ok s kd rc False by (auto simp: r Let_def)
      then show ?thesis
        using IH
        by (intro exI [of _ "Suc n"] exI [of _ lst'] exI [of _ complete]) (auto simp: nth_Cons')
    qed
  qed
qed

lemma filter_after_strict:
  fixes xs :: "'a::linorder list"
  assumes "sorted xs" "distinct xs" and "0 < n" "n \<le> length xs"
  shows "filter (\<lambda>x. xs ! (n - 1) < x) xs = drop n xs"
proof -
  have lo: "filter (\<lambda>x. xs ! (n - 1) < x) (take n xs) = []"
  proof -
    have "\<not> xs ! (n - 1) < x" if x: "x \<in> set (take n xs)" for x
    proof -
      obtain j where j: "j < n" "j < length xs" "x = xs ! j"
        using x by (auto simp: in_set_conv_nth)
      have "xs ! j \<le> xs ! (n - 1)"
        using j assms(3,4) by (intro sorted_nth_mono [OF assms(1)]) auto
      then show ?thesis
        using j by simp
    qed
    then show ?thesis
      by (simp add: filter_empty_conv)
  qed
  have hi: "filter (\<lambda>x. xs ! (n - 1) < x) (drop n xs) = drop n xs"
  proof -
    have "xs ! (n - 1) < x" if x: "x \<in> set (drop n xs)" for x
    proof -
      obtain j where "j < length xs - n" "x = xs ! (n + j)"
        using x by (auto simp: in_set_conv_nth)
      then have j: "n + j < length xs" "x = xs ! (n + j)"
        by simp_all
      then have "xs ! (n - 1) \<le> x" "xs ! (n - 1) \<noteq> x"
        using assms sorted_nth_mono [OF assms(1), of "n - 1" "n + j"] by (auto simp: nth_eq_iff_index_eq)
      then show ?thesis
        by simp
    qed
    then show ?thesis
      by (simp add: filter_id_conv)
  qed
  show ?thesis
    using lo hi filter_append [of "\<lambda>x. xs ! (n - 1) < x" "take n xs" "drop n xs"] by simp
qed

definition round_upper :: "db \<Rightarrow> metadata_position \<Rightarrow> int" where
  "round_upper d pos = (case mp_upper pos of Some u \<Rightarrow> u | None \<Rightarrow> clock_revision d)"

definition changes_left ::
    "(scope \<Rightarrow> string) \<Rightarrow> (string \<Rightarrow> scope option) \<Rightarrow> db \<times> metadata_position \<Rightarrow> metadata_change list" where
  "changes_left enc dec = (\<lambda>(d, pos).
     map (row_change dec) (filter (in_round pos (round_upper d pos)) (mark_order enc d)))"

definition changes_ok :: "(scope \<Rightarrow> string) \<Rightarrow> (string \<Rightarrow> scope option) \<Rightarrow> db \<times> metadata_position \<Rightarrow> bool" where
  "changes_ok enc dec = (\<lambda>(d, pos). mp_database pos = clock_identity d \<and> mp_through pos \<le> clock_revision d
     \<and> (\<forall>a. mp_after pos = Some a \<longrightarrow> mp_through pos < fst a)
     \<and> (\<forall>r \<in> set (mark_order enc d). row_ok dec r))"

definition changes_fetch ::
    "(scope \<Rightarrow> string) \<Rightarrow> (string \<Rightarrow> scope option) \<Rightarrow> db \<times> metadata_position
       \<Rightarrow> (metadata_change list \<times> (db \<times> metadata_position) \<times> bool) option" where
  "changes_fetch enc dec = (\<lambda>(d, pos).
     case metadata_changes enc dec d pos of Inl _ \<Rightarrow> None
     | Inr page \<Rightarrow> Some (mcp_changes page, (d, mcp_next page), mcp_complete page))"

lemma metadata_changes_page:
  assumes "changes_ok enc dec (d, pos)"
  defines "rows \<equiv> filter (in_round pos (round_upper d pos)) (mark_order enc d)"
  shows "\<exists>n complete. metadata_changes enc dec d pos = Inr
      \<lparr>mcp_changes = map (row_change dec) (take n rows),
       mcp_next = (if complete
         then pos\<lparr>mp_through := round_upper d pos, mp_upper := None, mp_after := None\<rparr>
         else pos\<lparr>mp_upper := Some (round_upper d pos), mp_after := Some (rows ! (n - 1))\<rparr>),
       mcp_complete = complete\<rparr>
    \<and> n \<le> min 256 (length rows) \<and> (complete \<longrightarrow> n = length rows) \<and> (\<not> complete \<longrightarrow> 0 < n)"
proof -
  define rs where "rs = take 256 rows"
  have ok: "r \<in> set rs \<Longrightarrow> row_ok dec r" for r
    using assms(1) by (auto simp: changes_ok_def rows_def rs_def dest: in_set_takeD)
  have len: "length ([] :: metadata_change list) < page_entries"
    by (simp add: page_entries_def)
  obtain n lst complete where rm: "read_marks dec rs [] 0 (mp_after pos) =
      Inr ([] @ map (row_change dec) (take n rs), lst, complete)"
    and n: "n \<le> length rs" "n > 0 \<longrightarrow> lst = Some (rs ! (n - 1))"
      "complete \<longrightarrow> n = length rs \<and> length ([] :: metadata_change list) + length rs < page_entries"
      "\<not> complete \<longrightarrow> ([] :: metadata_change list) \<noteq> [] \<or> n > 0"
    using read_marks_prefix [of rs dec "[]" 0 "mp_after pos", OF ok len] by blast
  have up: "(case mp_upper pos of None \<Rightarrow> snd (clock d) | Some u \<Rightarrow> u) = round_upper d pos"
    by (simp add: round_upper_def clock_def split: option.split)
  have "complete \<longrightarrow> n = length rows"
    using n(3) by (auto simp: page_entries_def min_def rs_def split: if_splits)
  moreover have "take n rs = take n rows" "n > 0 \<Longrightarrow> rs ! (n - 1) = rows ! (n - 1)" "n \<le> min 256 (length rows)"
    using n(1) by (auto simp: rs_def min.absorb1 intro!: nth_take)
  moreover have "metadata_changes enc dec d pos = and_then
      (read_marks dec rs [] 0 (mp_after pos)) (\<lambda>(cs, lst, complete).
           Inr \<lparr>mcp_changes = cs,
                mcp_next = (if complete
                  then pos\<lparr>mp_through := round_upper d pos, mp_upper := None, mp_after := None\<rparr>
                  else pos\<lparr>mp_upper := Some (round_upper d pos), mp_after := lst\<rparr>),
                mcp_complete = complete\<rparr>)"
    using assms(1) by (simp add: metadata_changes_def clock_def changes_ok_def Let_def up rows_def rs_def page_entries_def)
  ultimately show ?thesis
    using n rm by (intro exI [of _ n] exI [of _ complete]) auto
qed

lemma in_round_after:
  assumes "changes_ok enc dec (d, pos)" "n > 0"
    and "rows = filter (in_round pos u) (mark_order enc d)" and "n \<le> length rows"
  shows "filter (in_round (pos\<lparr>mp_upper := Some u, mp_after := Some (rows ! (n - 1))\<rparr>) u) (mark_order enc d) = drop n rows"
    and "mp_through pos < fst (rows ! (n - 1))"
proof -
  let ?a = "rows ! (n - 1)"
  have "?a \<in> set rows"
    using assms(2,4) by simp
  then have a: "in_round pos u ?a"
    using assms(3) by auto
  then show through: "mp_through pos < fst ?a"
    using assms(1)
    by (cases "mp_after pos") (auto simp: in_round_def changes_ok_def less_prod_def dest: order.strict_trans2)
  have "in_round (pos\<lparr>mp_upper := Some u, mp_after := Some ?a\<rparr>) u r \<longleftrightarrow> in_round pos u r \<and> ?a < r" for r
    using a through
    by (cases "mp_after pos") (auto simp: in_round_def less_prod_def' dest: order.strict_trans)
  then have "filter (in_round (pos\<lparr>mp_upper := Some u, mp_after := Some ?a\<rparr>) u) (mark_order enc d) =
      filter (\<lambda>r. ?a < r) rows"
    unfolding assms(3) filter_filter by (intro filter_cong) (simp_all add: assms(3))
  also have "\<dots> = drop n rows"
    by (rule filter_after_strict)
       (use assms(2-4) in \<open>auto simp: mark_order_def sorted_list_of_fset.rep_eq intro: sorted_wrt_filter\<close>)
  finally show "filter (in_round (pos\<lparr>mp_upper := Some u, mp_after := Some ?a\<rparr>) u) (mark_order enc d) = drop n rows" .
qed

interpretation changes: paged_reader "changes_fetch enc dec" "changes_left enc dec" "changes_ok enc dec"
  for enc dec
proof
  fix p es q complete
  assume ok: "changes_ok enc dec p"
  obtain d pos where p: "p = (d, pos)"
    by (cases p)
  define rows where "rows = filter (in_round pos (round_upper d pos)) (mark_order enc d)"
  obtain n c where page: "metadata_changes enc dec d pos = Inr
      \<lparr>mcp_changes = map (row_change dec) (take n rows),
       mcp_next = (if c
         then pos\<lparr>mp_through := round_upper d pos, mp_upper := None, mp_after := None\<rparr>
         else pos\<lparr>mp_upper := Some (round_upper d pos), mp_after := Some (rows ! (n - 1))\<rparr>),
       mcp_complete = c\<rparr>"
    and n: "n \<le> length rows" "c \<longrightarrow> n = length rows" "\<not> c \<longrightarrow> 0 < n"
    using metadata_changes_page [OF ok [unfolded p]] unfolding rows_def by auto
  have left: "changes_left enc dec p = map (row_change dec) rows"
    by (simp add: changes_left_def p rows_def)
  show "\<exists>es q complete. changes_fetch enc dec p = Some (es, q, complete)"
    by (simp add: changes_fetch_def p page)
  show "changes_left enc dec p = es" if "changes_fetch enc dec p = Some (es, q, True)"
    using that n left by (auto simp: changes_fetch_def p page)
  show "changes_left enc dec p = es @ changes_left enc dec q \<and> es \<noteq> [] \<and> changes_ok enc dec q"
    if f: "changes_fetch enc dec p = Some (es, q, False)"
  proof -
    let ?next = "pos\<lparr>mp_upper := Some (round_upper d pos), mp_after := Some (rows ! (n - 1))\<rparr>"
    have q: "q = (d, ?next)" "es = map (row_change dec) (take n rows)" "0 < n"
      using f n(3) by (auto simp: changes_fetch_def p page split: if_splits)
    note after = in_round_after [OF ok [unfolded p] q(3) rows_def n(1)]
    have "changes_left enc dec q = map (row_change dec) (drop n rows)"
      using after(1) by (simp add: changes_left_def q round_upper_def)
    moreover have "changes_ok enc dec q"
      using ok after(2) by (auto simp: changes_ok_def p q)
    ultimately show ?thesis
      using q n(1) left by (auto simp flip: map_append)
  qed
qed

end
