(* ===== verification/Store_Guarantees.thy ===== *)
theory Store_Guarantees
  imports Store_World Store_Changes
begin

text \<open>
  What the metadata store promises to its callers, stated over whole runs of the
  store and over single operations: well-formedness, the fate of late replies,
  refinement of the feed specification, what a publication serves back, and the
  paging of invalidations.
\<close>

section \<open>Whole runs\<close>

text \<open>C1: from a new database, any sequence of store calls, with tickets and listing
  builders held across other calls, leaves a well-formed database: bodies under
  their own identity, no item both observed and absent, foreign keys intact, no
  revision ahead of the clock, no staged rows outside a round; and every
  outstanding ticket and builder remains one this database issued.\<close>

theorem store_run_well_formed: "world_ok (fold world_exec ops (new_world ident))"
  by (rule store.run_inv) simp

lemma tickets_kept:
  assumes "world_ok w" and "t \<in> set (w_tickets w)"
  shows "issued (w_db (fold world_exec ops w)) t" and "marks_grow (w_db w) (w_db (fold world_exec ops w))"
proof -
  have g: "world_grows w (fold world_exec ops w)"
    using store.run_evolves [OF assms(1)] .
  then show "marks_grow (w_db w) (w_db (fold world_exec ops w))"
    by (simp add: world_grows_def)
  have "t \<in> set (w_tickets (fold world_exec ops w))"
    using g assms(2) by (auto simp: world_grows_def dest: set_mono_prefix)
  then show "issued (w_db (fold world_exec ops w)) t"
    using store.run_inv [OF assms(1), of ops] by (simp add: world_ok_def)
qed

lemma publish_directory_superseded:
  assumes "tk_target t = TargetDirectory p" and "current d t ns = Inr False"
  shows "publish_directory now t ns d = Inr (Superseded (listing d (tk_scope t) p False), d)"
  using assms by (simp add: publish_directory_def children_on_eq)

lemma late_reply:
  assumes "world_ok w" and "t \<in> set (w_tickets w)" and "tk_target t = TargetDirectory p"
    and "current (w_db w) t ns = Inr False"
  shows "publish_directory now t ns (w_db (fold world_exec ops w)) =
    Inr (Superseded (listing (w_db (fold world_exec ops w)) (tk_scope t) p False),
         w_db (fold world_exec ops w))"
proof -
  have "issued (w_db w) t"
    using assms(1,2) by (simp add: world_ok_def)
  then show ?thesis
    using superseded_stays [OF tickets_kept(2) [OF assms(1,2)] _ assms(4)] assms(3)
    by (simp add: publish_directory_superseded)
qed

text \<open>C2: once a directory reply is superseded it stays superseded, whatever the
  store does next: publishing it later writes nothing and answers with the
  listing the store then has.\<close>

theorem superseded_reply_never_lands:
  assumes "world_ok w" and "t \<in> set (w_tickets w)" and "tk_target t = TargetDirectory p"
    and "current (w_db w) t ns = Inr False"
  shows "publish_directory now t ns (w_db (fold world_exec ops w)) =
    Inr (Superseded (listing (w_db (fold world_exec ops w)) (tk_scope t) p False),
         w_db (fold world_exec ops w))"
  using assms by (rule late_reply)

lemma superseded_by_mark:
  assumes "issued d t" and "tk_target t = TargetDirectory p"
    and "effective_mark d (tk_scope t) 2 p > tk_revision t"
  shows "current d t ns = Inr False"
proof -
  have "(2, p) \<in> set (watched t ns)"
    using assms(2) by (simp add: watched_def)
  then show ?thesis
    using assms(3) unfolding current_iff [OF assms(1)] by (auto simp: not_le)
qed

text \<open>C3: of the listings requested for one directory, the first to be published
  wins: every reply whose ticket was taken before that publication is superseded
  from then on, after any further sequence of calls.\<close>

theorem crossing_replies:
  assumes ok: "world_ok w" and t: "t \<in> set (w_tickets w)" "tk_target t = TargetDirectory p"
    and u: "u \<in> set (w_tickets w)" "tk_target u = TargetDirectory p" "tk_scope u = tk_scope t"
    and pub: "publish_directory now u ms (w_db w) = Inr (Published ms changed, d)"
  shows "publish_directory now' t ns (w_db (fold world_exec ops (w\<lparr>w_db := d\<rparr>))) =
    Inr (Superseded (listing (w_db (fold world_exec ops (w\<lparr>w_db := d\<rparr>))) (tk_scope t) p False),
         w_db (fold world_exec ops (w\<lparr>w_db := d\<rparr>)))"
proof (rule late_reply)
  have s: "store_ok (w_db w)" and iss: "issued (w_db w) t" "issued (w_db w) u"
    using ok t u by (auto simp: world_ok_def)
  note o = publish_directory_ok [OF s iss(2) pub]
  show ok': "world_ok (w\<lparr>w_db := d\<rparr>)"
    using world_ok_db [OF ok o] by simp
  show "t \<in> set (w_tickets (w\<lparr>w_db := d\<rparr>))" "tk_target t = TargetDirectory p"
    using t by simp_all
  obtain c where wd: "write_directory now (tk_scope t) p ms (tk_revision u) (w_db w) = Inr (c, d)"
    using publish_directory_cases [OF pub] u by auto
  have b: "bodies_ok (w_db w)"
    using s by (simp add: store_ok_def)
  have m: "effective_mark d (tk_scope t) 2 p \<ge> clock_revision d"
    using write_directory_ok(15) [OF b wd] by (simp add: effective_mark_def mark_of_def)
  have "clock_revision d = clock_revision (w_db w) + 1"
    using write_directory_ok(2) [OF b wd] .
  then have "effective_mark d (tk_scope t) 2 p > tk_revision t"
    using iss(1) m unfolding issued_def by linarith
  moreover have "issued d t"
    using ok' t(1) by (simp add: world_ok_def)
  ultimately show "current (w_db (w\<lparr>w_db := d\<rparr>)) t ns = Inr False"
    using superseded_by_mark t(2) by simp
qed

section \<open>Concrete states\<close>

text \<open>A small database on which the guarantees are applied.\<close>

definition demo :: scope where
  "demo = \<lparr>account = ''a'', provider = ''onedrive'', collection = ''drive''\<rparr>"

definition demo_file :: "string \<Rightarrow> string \<Rightarrow> node" where
  "demo_file i nm = \<lparr>node_id = i, parent_id = Some ''root'', node_name = nm, node_kind = File, node_size = 3,
     modified_unix = 0, etag = Some ''e1'', content_version = Some ''c1'', node_target = None, package = False\<rparr>"

definition demo_world :: world where
  "demo_world = fold world_exec
     [OpObservation demo (TargetDirectory ''root''), OpObservation demo (TargetDirectory ''root''),
      OpObserveDirectory 5 demo ''root'' [demo_file ''1'' ''x'']] (new_world ''db'')"

definition demo_ticket :: "int \<Rightarrow> ticket" where
  "demo_ticket rv = \<lparr>tk_scope = demo, tk_target = TargetDirectory ''root'', tk_database = ''db'', tk_revision = rv\<rparr>"

lemma demo_world_ok: "world_ok demo_world"
  unfolding demo_world_def by (rule store.run_inv) simp

lemma demo_world_facts:
  "w_tickets demo_world = [demo_ticket 1, demo_ticket 2]"
  "current (w_db demo_world) (demo_ticket 1) [] = Inr False"
  by code_simp+

theorem superseded_reply_never_lands_witness:
  "publish_directory 9 (demo_ticket 1) [] (w_db (fold world_exec [OpBegin demo False] demo_world)) =
    Inr (Superseded (listing (w_db (fold world_exec [OpBegin demo False] demo_world)) demo ''root'' False),
         w_db (fold world_exec [OpBegin demo False] demo_world))"
  using superseded_reply_never_lands [OF demo_world_ok, of "demo_ticket 1" "''root''" "[]" 9 "[OpBegin demo False]"]
  by (simp add: demo_world_facts) (simp add: demo_ticket_def)

theorem crossing_replies_witness:
  "let w = fold world_exec [OpObservation demo (TargetDirectory ''root''), OpObservation demo (TargetDirectory ''root'')] (new_world ''db'');
       d = (case publish_directory 7 (demo_ticket 2) [demo_file ''1'' ''x''] (w_db w) of Inr (r, d) \<Rightarrow> d | Inl e \<Rightarrow> w_db w)
   in publish_directory 9 (demo_ticket 1) [] (w_db (fold world_exec [] (w\<lparr>w_db := d\<rparr>))) =
      Inr (Superseded (listing (w_db (fold world_exec [] (w\<lparr>w_db := d\<rparr>))) demo ''root'' False), w_db (fold world_exec [] (w\<lparr>w_db := d\<rparr>)))"
proof -
  define w where "w = fold world_exec [OpObservation demo (TargetDirectory ''root''), OpObservation demo (TargetDirectory ''root'')] (new_world ''db'')"
  define d where "d = (case publish_directory 7 (demo_ticket 2) [demo_file ''1'' ''x''] (w_db w) of Inr (r, d) \<Rightarrow> d | Inl e \<Rightarrow> w_db w)"
  have ok: "world_ok w"
    unfolding w_def by (rule store.run_inv) simp
  have t: "w_tickets w = [demo_ticket 1, demo_ticket 2]"
    unfolding w_def by code_simp
  have p: "publish_directory 7 (demo_ticket 2) [demo_file ''1'' ''x''] (w_db w) = Inr (Published [demo_file ''1'' ''x''] True, d)"
    unfolding d_def w_def by code_simp
  have k: "tk_target (demo_ticket n) = TargetDirectory ''root''" "tk_scope (demo_ticket n) = demo" for n
    by (simp_all add: demo_ticket_def)
  show ?thesis
    using crossing_replies [where t = "demo_ticket 1", OF ok _ k(1) _ k(1) _ p, where now' = 9 and ns = "[]" and ops = "[]", unfolded t]
    unfolding w_def [symmetric] Let_def d_def [symmetric] by (simp add: k)
qed

lemma unlisted_gone:
  assumes "bodies_ok d" and "node_on d s i = Some n" and "parent_id n = Some p" and "i \<notin> node_id ` set ns"
  shows "fmlookup (removed_children d s p ns) i \<noteq> None"
  using assms removed_children_lookup
  by (auto simp: node_on_def has_parent_def split: if_splits option.splits)

text \<open>C29: a published listing is served back exactly: the directory then lists the
  published nodes in name order; every listed item resolves to the published
  node; an item that was below the directory and is not listed is gone; items
  elsewhere and in other scopes are untouched.\<close>

theorem published_listing_served:
  assumes "store_ok d" and "issued d t" and "tk_target t = TargetDirectory p"
    and "publish_directory now t ns d = Inr (Published ns changed, d')"
  shows "children_on d' (tk_scope t) p = Inr (Some (sort_key (\<lambda>n. (node_name n, node_id n)) ns))
    \<and> (\<forall>s' i. node_on d' s' i =
          (if s' \<noteq> tk_scope t then node_on d s' i
           else case find (\<lambda>n. node_id n = i) ns of
             Some n \<Rightarrow> Some n
           | None \<Rightarrow> (case node_on d s' i of None \<Rightarrow> None
                      | Some n \<Rightarrow> if parent_id n = Some p then None else Some n)))"
proof -
  obtain c where wd: "write_directory now (tk_scope t) p ns (tk_revision t) d = Inr (c, d')"
    using publish_directory_cases [OF assms(4)] assms(3) by auto
  have b: "bodies_ok d"
    using assms(1) by (simp add: store_ok_def)
  note wo = write_directory_ok [OF b wd]
  have ok': "store_ok d'"
    using publish_directory_ok(1) [OF assms(1,2,4)] .
  then have "listing d' (tk_scope t) p False = Some (sort_key (\<lambda>n. (node_name n, node_id n)) ns)"
    using write_directory_listing [OF assms(1) wd] by (simp add: store_ok_def)
  moreover have "node_on d' s' i = node_on d s' i" if "s' \<noteq> tk_scope t" for s' i
    using that by (simp add: node_on_def wo(6,12,13) split: option.split)
  moreover have "node_on d' (tk_scope t) i = Some n" if "find (\<lambda>n. node_id n = i) ns = Some n" for i n
  proof -
    have "i \<in> node_id ` set ns"
      using that by (auto simp: find_Some_iff)
    then show ?thesis
      using that by (simp add: node_on_def wo(12,13) observed_as_def)
  qed
  moreover have "node_on d' (tk_scope t) i = (case node_on d (tk_scope t) i of None \<Rightarrow> None
        | Some n \<Rightarrow> if parent_id n = Some p then None else Some n)"
    if "find (\<lambda>n. node_id n = i) ns = None" for i
  proof -
    have i: "i \<notin> node_id ` set ns"
      using that by (simp add: find_node_id_None)
    show ?thesis
      using i unlisted_gone [OF b, of "tk_scope t" i _ p ns]
      by (auto simp: node_on_def wo(6,12,13) still_below_def split: option.splits)
  qed
  ultimately show ?thesis
    by (simp add: children_on_eq split: option.splits)
qed

theorem published_listing_served_witness:
  "let w = fold world_exec [OpObservation demo (TargetDirectory ''root'')] (new_world ''db'');
       ns = [demo_file ''2'' ''b'', demo_file ''1'' ''a''];
       d' = (case publish_directory 7 (demo_ticket 1) ns (w_db w) of Inr (r, d) \<Rightarrow> d | Inl e \<Rightarrow> w_db w)
   in children_on d' demo ''root'' = Inr (Some [demo_file ''1'' ''a'', demo_file ''2'' ''b''])"
proof -
  define w where "w = fold world_exec [OpObservation demo (TargetDirectory ''root'')] (new_world ''db'')"
  define ns where "ns = [demo_file ''2'' ''b'', demo_file ''1'' ''a'']"
  define d where "d = (case publish_directory 7 (demo_ticket 1) ns (w_db w) of Inr (r, d) \<Rightarrow> d | Inl e \<Rightarrow> w_db w)"
  have ok: "world_ok w" "w_tickets w = [demo_ticket 1]"
    unfolding w_def by (rule store.run_inv, simp) code_simp
  then have s: "store_ok (w_db w)" "issued (w_db w) (demo_ticket 1)"
    by (simp_all add: world_ok_def)
  have p: "publish_directory 7 (demo_ticket 1) ns (w_db w) = Inr (Published ns True, d)"
    unfolding d_def w_def ns_def by code_simp
  have "sort_key (\<lambda>n. (node_name n, node_id n)) ns = [demo_file ''1'' ''a'', demo_file ''2'' ''b'']"
    unfolding ns_def by code_simp
  then show ?thesis
    using published_listing_served [OF s _ p, of "''root''"]
    unfolding w_def [symmetric] ns_def [symmetric] Let_def d_def [symmetric] by (simp add: demo_ticket_def)
qed

lemma bulk_current:
  assumes "current d t [] = Inr True" and "tk_target t = TargetDirectory p"
    and "\<And>n. n \<in> set ns \<Longrightarrow> \<not> changed_after d (tk_scope t) 1 (node_id n) (tk_revision t)"
  shows "current d t ns = Inr True"
  using assms by (auto simp: current_def Let_def list_ex_iff split: if_splits)


text \<open>C28: staging a page refines the feed specification: a page that does not continue
  the saved cursor is refused with the same error, a page in the middle of a
  round changes only the round, the last page replaces the visible index and the
  cursor at once, and other scopes are untouched. Beyond the specification, a
  completion can only fail when the revision clock is exhausted.\<close>

theorem stage_refines_feed_spec:
  "case stage s expected page d of
     Inr d' \<Rightarrow> spec_stage expected page (abs_feed d s) = Inr (abs_feed d' s)
             \<and> (\<forall>s'. s' = s \<or> abs_feed d' s' = abs_feed d s')
   | Inl e \<Rightarrow> spec_stage expected page (abs_feed d s) = Inl e \<or> (e = OutOfOrder \<and> i64_max \<le> clock_revision d)"
proof (cases "stage s expected page d")
  case (Inr d')
  then show ?thesis
    using abs_feed_stage(1) [OF Inr] abs_feed_stage(2) [OF Inr] by auto
next
  case (Inl e)
  then have "spec_stage expected page (abs_feed d s) = Inl e \<or> e = OutOfOrder \<and> i64_max \<le> clock_revision d"
    by (auto simp: stage_def spec_stage_def abs_feed_def publish_delta_def Let_def result_simps split: option.splits if_splits)
  with Inl show ?thesis
    by simp
qed

text \<open>beginning a round refines the specification: an interrupted round is resumed
  at its saved cursor, a reset starts from an empty image, and a first or next
  round starts from the completed cursor; the returned cursor is the round's.\<close>

theorem begin_refines_feed_spec:
  assumes "store_ok d" and "begin_feed s reset d = Inr (c, d')"
  shows "abs_feed d' s = spec_begin reset (abs_feed d s)
    \<and> map_option fst (spec_round (abs_feed d' s)) = Some c
    \<and> (\<forall>s'. s' = s \<or> abs_feed d' s' = abs_feed d s')"
proof -
  have f: "feeds_ok d"
    using assms(1) by (simp add: store_ok_def)
  have "abs_feed d' s' = abs_feed d s'" if "s' \<noteq> s" for s'
    using assms(2) by (cases rule: begin_feed_cases)
      (use that in \<open>auto intro!: abs_feed_other simp: reset_feed_def dest!: start_round_frame(1)\<close>)
  then show ?thesis
    using abs_feed_begin [OF f assms(2)] by auto
qed

lemma publish_node_superseded:
  assumes "tk_target t = TargetNode (node_id n)" and "current d t [n] = Inr False"
  shows "publish_node now t n d = Inr (Superseded (node_on d (tk_scope t) (node_id n)), d)"
  using assms by (simp add: publish_node_def)

text \<open>A completed feed round supersedes every node reply requested before it for an
  item the round touched (every item, when the round was a reset), after any
  further sequence of calls.\<close>

theorem completed_feed_supersedes_replies:
  assumes ok: "world_ok w" and t: "t \<in> set (w_tickets w)" "tk_target t = TargetNode (node_id n)"
    and st: "stage (tk_scope t) expected page (w_db w) = Inr d" "page_checkpoint page = Complete c"
    and hit: "fd_reset (feed_of (w_db w) (tk_scope t)) \<or> fmlookup (staged (w_db w)) (tk_scope t, node_id n) \<noteq> None
      \<or> (\<exists>m. Upsert m \<in> set (page_changes page) \<and> node_id m = node_id n) \<or> Delete (node_id n) \<in> set (page_changes page)"
  shows "publish_node now t n (w_db (fold world_exec ops (w\<lparr>w_db := d\<rparr>))) =
    Inr (Superseded (node_on (w_db (fold world_exec ops (w\<lparr>w_db := d\<rparr>))) (tk_scope t) (node_id n)),
         w_db (fold world_exec ops (w\<lparr>w_db := d\<rparr>)))"
proof -
  have s: "store_ok (w_db w)" and iss: "issued (w_db w) t"
    using ok t by (auto simp: world_ok_def)
  let ?v = "w\<lparr>w_db := d\<rparr>"
  have ok': "world_ok ?v" and t': "t \<in> set (w_tickets ?v)"
    using world_ok_db [OF ok stage_ok [OF s st(1)]] t by simp_all
  obtain f where f: "fmlookup (feeds (w_db w)) (tk_scope t) = Some f"
    using stage_feed [OF st(1)] by blast
  have "effective_mark d (tk_scope t) 1 (node_id n) = clock_revision (w_db w) + 1"
    using stage_complete_marks [OF s st f] hit f by (simp add: feed_of_def)
  moreover have "effective_mark d (tk_scope t) 1 (node_id n) \<le>
      effective_mark (w_db (fold world_exec ops ?v)) (tk_scope t) 1 (node_id n)"
    using tickets_kept(2) [OF ok' t', of ops] by (simp add: marks_grow_def)
  ultimately have "effective_mark (w_db (fold world_exec ops ?v)) (tk_scope t) 1 (node_id n) > tk_revision t"
    using iss unfolding issued_def by linarith
  moreover have "(1, node_id n) \<in> set (watched t [n])"
    using t(2) by (simp add: watched_def)
  ultimately have "current (w_db (fold world_exec ops ?v)) t [n] = Inr False"
    unfolding current_iff [OF tickets_kept(1) [OF ok' t']] by (auto simp: not_le)
  then show ?thesis
    using publish_node_superseded t(2) by simp
qed

text \<open>Name and identity lookups agree with the ordered listing they avoid building,
  with and without a required snapshot, and a listing has no duplicate identity
  and is sorted by name and identity.\<close>

theorem lookups_agree_with_listing:
  assumes "store_ok d"
  shows "child d s p nm = map_option (find (\<lambda>n. node_name n = nm)) (with_children d s p (\<lambda>ns. ns))
    \<and> child_from_snapshot d s p nm = map_option (find (\<lambda>n. node_name n = nm)) (with_snapshot_children d s p (\<lambda>ns. ns))
    \<and> child_id_on d s p i = Inr (map_option (find (\<lambda>n. node_id n = i)) (with_children d s p (\<lambda>ns. ns)))
    \<and> children_on d s p = Inr (with_children d s p (\<lambda>ns. ns))
    \<and> (case with_children d s p (\<lambda>ns. ns) of None \<Rightarrow> True
       | Some ns \<Rightarrow> distinct (map node_id ns) \<and> sorted (map (\<lambda>n. (node_name n, node_id n)) ns))"
proof -
  have b: "bodies_ok d"
    using assms by (simp add: store_ok_def)
  have l: "with_children d s p (\<lambda>ns. ns) = listing d s p False"
    "with_snapshot_children d s p (\<lambda>ns. ns) = listing d s p True"
    by (simp_all add: with_children_def with_snapshot_children_def listing_def)
  show ?thesis
    unfolding l child_def child_from_snapshot_def child_on_listing [OF b] child_id_on_listing [OF b] children_on_eq
    using listing_props [OF b, of s p False] by (auto split: option.splits)
qed

lemma settle_handoff_other_scope:
  assumes "settle_handoff now s ns original d = Inr d'" and "s' \<noteq> s"
  shows "node_on d' s' i = node_on d s' i"
proof -
  obtain e f rv where e: "changed_items s ns [original] None d = Inr e" "advance e = Inr (rv, f)"
    "d' = fold (\<lambda>n. write_node s n now rv) ns f"
    using assms(1) by (auto simp: settle_handoff_def result_simps)
  have "node_on f s' i = node_on d s' i"
    using e(1,2) by (auto simp: changed_items_def result_simps frame_simps)
  then show ?thesis
    unfolding e(3) using assms(2) by (induction ns arbitrary: f) simp_all
qed

text \<open>Settling an ordinary replacement never overwrites other metadata: only the
  original's identity can change, only while the store still knows nothing else
  of it than the original, and it then names the backup.\<close>

theorem ordinary_handoff_never_overwrites:
  assumes "store_ok d" and "publish_ordinary_handoff_backup now s original cur backup d = Inr (settled, d')"
  shows "store_ok d' \<and> (\<forall>s' i. node_on d' s' i = node_on d s' i
    \<or> (s' = s \<and> i = node_id original \<and> node_on d s i \<in> {None, Some original}
       \<and> fmlookup (observed_absent d) (s, i) = None \<and> node_on d' s i = Some backup))"
proof -
  note c = ordinary_handoff_cases [OF assms(2)]
  have bi: "node_id backup = node_id original"
    using c by (simp add: ordinary_handoff_ok_def)
  show ?thesis
  proof (cases "d' = d")
    case False
    then have sh: "settle_handoff now s [backup] original d = Inr d'"
      using c by blast
    note o = settle_handoff_ok [OF assms(1) sh]
    show ?thesis
      using False c o(1) o(3) [of backup] o(4) settle_handoff_other_scope [OF sh] bi by simp metis
  qed (use assms(1) in simp)
qed

lemma native_handoff_published:
  assumes "publish_native_handoff now s original cur backup d = Inr (settled, d')" and "d' \<noteq> d"
  shows "fmlookup (observed_absent d) (s, node_id original) = None \<and> node_on d s (node_id original) \<in> {None, Some original}
    \<and> (settle_handoff now s [backup] original d = Inr d'
       \<or> settle_handoff now s [backup, cur] original d = Inr d' \<and> node_on d s (node_id cur) \<in> {None, Some cur}
         \<and> fmlookup (observed_absent d) (s, node_id cur) = None)"
  using assms
  by (auto simp: publish_native_handoff_def Let_def result_simps differs_def split: if_splits option.splits)

text \<open>Settling a native document handoff touches only the original's and the
  replacement's identities, and only where the store knew nothing newer of them.\<close>

theorem native_handoff_never_overwrites:
  assumes "store_ok d" and "publish_native_handoff now s original cur backup d = Inr (settled, d')"
  shows "store_ok d' \<and> (\<forall>s' i. node_on d' s' i = node_on d s' i
    \<or> (s' = s \<and> i = node_id original \<and> node_on d s i \<in> {None, Some original}
       \<and> fmlookup (observed_absent d) (s, i) = None \<and> node_on d' s i = Some backup)
    \<or> (s' = s \<and> i = node_id cur \<and> node_on d s i \<in> {None, Some cur}
       \<and> fmlookup (observed_absent d) (s, i) = None \<and> node_on d' s i = Some cur))"
proof (cases "d' = d")
  case False
  note c = native_handoff_published [OF assms(2) False]
  have bi: "node_id backup = node_id original" "node_id cur \<noteq> node_id original"
    using native_handoff_cases [OF assms(2)] by (simp_all add: native_handoff_ok_def)
  consider "settle_handoff now s [backup] original d = Inr d'"
    | "settle_handoff now s [backup, cur] original d = Inr d'" "node_on d s (node_id cur) \<in> {None, Some cur}"
      "fmlookup (observed_absent d) (s, node_id cur) = None"
    using c by metis
  then show ?thesis
  proof cases
    case 1
    note o = settle_handoff_ok [OF assms(1) 1] settle_handoff_other_scope [OF 1]
    have "node_on d' s (node_id original) = Some backup"
      using o(3) [of backup] bi by simp
    moreover have "node_on d' s' i = node_on d s' i" if "s' \<noteq> s \<or> i \<noteq> node_id original" for s' i
      using that o(4) [of i] o(5) [of s' i] bi by auto
    ultimately show ?thesis
      using o(1) c by metis
  next
    case 2
    note o = settle_handoff_ok [OF assms(1) 2(1)] settle_handoff_other_scope [OF 2(1)]
    have "node_on d' s (node_id original) = Some backup" "node_on d' s (node_id cur) = Some cur"
      using o(3) [of backup] o(3) [of cur] bi by simp_all
    moreover have "node_on d' s' i = node_on d s' i"
      if "s' \<noteq> s \<or> i \<noteq> node_id original \<and> i \<noteq> node_id cur" for s' i
      using that o(4) [of i] o(5) [of s' i] bi by auto
    ultimately show ?thesis
      using o(1) c 2(2,3) by metis
  qed
qed (use assms(1) in simp)

text \<open>a published absence hides exactly the observed item, and reports whether that
  was news.\<close>

theorem published_absence_hides_item:
  assumes "store_ok d" and "issued d t" and "tk_target t = TargetNode i"
    and "publish_absence t d = Inr (AbsencePublished changed, d')"
  shows "store_ok d' \<and> (\<forall>s' j. node_on d' s' j = (if s' = tk_scope t \<and> j = i then None else node_on d s' j))
    \<and> (changed \<longleftrightarrow> node_on d (tk_scope t) i \<noteq> None \<or> fmlookup (observed_absent d) (tk_scope t, i) = None)"
proof -
  obtain e ps where e: "advance d = Inr (clock_revision d + 1, e)"
    "changed \<longleftrightarrow> node_on d (tk_scope t) i \<noteq> None \<or> fmlookup (observed_absent d) (tk_scope t, i) = None"
    "d' = (mark_all (tk_scope t) 2 (i # ps) (clock_revision d + 1)
                  (mark_all (tk_scope t) 1 [i] (clock_revision d + 1) e))
                \<lparr>observed := fmdrop (tk_scope t, i) (observed d),
                 observed_absent := fmupd (tk_scope t, i) (tk_revision t) (observed_absent d)\<rparr>"
    using publish_absence_cases [OF assms(4)] assms(3) by auto
  have "nodes d' = nodes d"
    using e(1) by (simp add: e(3) mark_all_eq result_simps)
  then have "node_on d' s' j = (if s' = tk_scope t \<and> j = i then None else node_on d s' j)" for s' j
    by (auto simp: node_on_def e(3) split: option.splits)
  then show ?thesis
    using publish_absence_ok(1) [OF assms(1,2,4)] e(2) by blast
qed

definition tickets_ordered :: "world \<Rightarrow> bool" where
  "tickets_ordered w \<longleftrightarrow> world_ok w \<and> sorted_wrt (<) (map tk_revision (w_tickets w))"

lemma tickets_world_exec:
  "w_tickets (world_exec op w) = w_tickets w
   \<or> (\<exists>t. w_tickets (world_exec op w) = w_tickets w @ [t] \<and> tk_revision t = clock_revision (w_db w) + 1)"
  by (cases op)
    (auto simp: commit_def commit_unit_def with_ticket_def with_builder_def put_builder_def
       observation_def result_simps split: sum.splits option.splits)

lemma tickets_ordered_exec:
  assumes "tickets_ordered w"
  shows "tickets_ordered (world_exec op w)"
proof -
  have ok: "world_ok w" "sorted_wrt (<) (map tk_revision (w_tickets w))"
    using assms by (auto simp: tickets_ordered_def)
  have "t \<in> set (w_tickets w) \<Longrightarrow> tk_revision t < clock_revision (w_db w) + 1" for t
    using ok(1) by (auto simp: world_ok_def issued_def)
  then have "sorted_wrt (<) (map tk_revision (w_tickets (world_exec op w)))"
    using tickets_world_exec [of op w] ok(2) by (auto simp: sorted_wrt_append)
  then show ?thesis
    using world_exec_ok [OF ok(1)] by (simp add: tickets_ordered_def)
qed

interpretation ordered: machine world_exec tickets_ordered
  by unfold_locales (rule tickets_ordered_exec)

text \<open>tickets taken in one database are strictly ordered by their revision, in the
  order they were taken, over any run.\<close>

theorem tickets_strictly_ordered:
  "sorted_wrt (<) (map tk_revision (w_tickets (fold world_exec ops (new_world ident))))"
proof -
  have "tickets_ordered (new_world ident)"
    unfolding tickets_ordered_def by (simp add: new_world_def [of ident, THEN arg_cong, of w_tickets])
  then show ?thesis
    using ordered.run_inv [of "new_world ident" ops] by (simp add: tickets_ordered_def)
qed

definition kind_number :: "metadata_change_kind \<Rightarrow> nat" where
  "kind_number k = (case k of ScopeChange \<Rightarrow> 0 | ItemChange \<Rightarrow> 1 | DirectoryChange \<Rightarrow> 2)"

lemma mark_order_set:
  "(rv, sc, k, i) \<in> set (mark_order enc d) \<longleftrightarrow> (\<exists>s. sc = enc s \<and> fmlookup (metadata_versions d) (s, k, i) = Some rv)"
  unfolding mark_order_def sorted_list_of_fset_simps
  by (force simp: image_iff fmlookup_dom_iff)

lemma length_mark_order: "length (mark_order enc d) \<le> fcard (fmdom (metadata_versions d))"
proof -
  have "length (mark_order enc d) = card (set (mark_order enc d))"
    by (simp add: mark_order_def sorted_list_of_fset.rep_eq)
  also have "\<dots> \<le> card (fset (fmdom (metadata_versions d)))"
    by (simp add: mark_order_def card_image_le)
  finally show ?thesis
    by (simp add: fcard.rep_eq)
qed

text \<open>C31: a mount that reads the invalidations page by page, from a position it holds,
  receives after at most one page per mark exactly the scopes, items and
  directories marked after that position. The scope's JSON text is the parameter
  \<open>enc\<close> with its decoder \<open>dec\<close>.\<close>

theorem invalidations_reach_every_mark:
  assumes codec: "\<forall>s. dec (enc s) = Some s" and wf: "store_ok d"
    and marks: "\<forall>s k i. fmlookup (metadata_versions d) (s, k, i) \<noteq> None \<longrightarrow>
      k \<le> 2 \<and> length (enc s) + length i \<le> max_mark_bytes"
    and pos: "mp_database pos = clock_identity d" "mp_through pos \<le> clock_revision d"
      "mp_upper pos = None" "mp_after pos = None"
    and fuel: "fcard (fmdom (metadata_versions d)) < fuel"
  shows "\<exists>cs q. drain (changes_fetch enc dec) fuel (d, pos) = Some (cs, q)
    \<and> (\<forall>s k i. \<lparr>mc_scope = s, mc_kind = k, mc_identity = i\<rparr> \<in> set cs \<longleftrightarrow>
         (\<exists>v. fmlookup (metadata_versions d) (s, kind_number k, i) = Some v \<and> mp_through pos < v))"
proof -
  have mk: "k \<le> 2" "length (enc s) + length i \<le> max_mark_bytes"
    if "fmlookup (metadata_versions d) (s, k, i) = Some v" for s k i v
    using marks that by (metis option.distinct(1))+
  have ok: "changes_ok enc dec (d, pos)"
    using codec pos mk by (auto simp: changes_ok_def row_ok_def mark_order_set)
  have up: "round_upper d pos = clock_revision d"
    by (simp add: round_upper_def pos)
  let ?cs = "changes_left enc dec (d, pos)"
  have "length ?cs < fuel"
    using le_less_trans [OF order_trans [OF length_filter_le length_mark_order] fuel] by (simp add: changes_left_def)
  then obtain q where q: "drain (changes_fetch enc dec) fuel (d, pos) = Some (?cs, q)"
    using changes.drain_all [OF ok] by blast
  have "\<lparr>mc_scope = s, mc_kind = k, mc_identity = i\<rparr> \<in> set ?cs \<longleftrightarrow>
      (\<exists>v. fmlookup (metadata_versions d) (s, kind_number k, i) = Some v \<and> mp_through pos < v)" (is "?l \<longleftrightarrow> ?r") for s k i
  proof
    assume ?l
    then obtain rv sc kn where r: "(rv, sc, kn, i) \<in> set (mark_order enc d)" "mp_through pos < rv"
      "row_change dec (rv, sc, kn, i) = \<lparr>mc_scope = s, mc_kind = k, mc_identity = i\<rparr>"
      by (auto simp: changes_left_def in_round_def pos row_change_def)
    then obtain s' where s': "sc = enc s'" "fmlookup (metadata_versions d) (s', kn, i) = Some rv"
      by (auto simp: mark_order_set)
    then have "kn \<le> 2"
      using mk(1) by blast
    then show ?r
      using r s' codec by (auto simp: row_change_def kind_number_def numeral_2_eq_2 le_Suc_eq split: if_splits)
  next
    assume ?r
    then obtain v where v: "fmlookup (metadata_versions d) (s, kind_number k, i) = Some v" "mp_through pos < v"
      by blast
    then have "v \<le> clock_revision d"
      using wf by (auto simp: store_ok_def dest: revisionsD(1))
    moreover have "(v, enc s, kind_number k, i) \<in> set (mark_order enc d)"
      using v by (auto simp: mark_order_set)
    moreover have "row_change dec (v, enc s, kind_number k, i) = \<lparr>mc_scope = s, mc_kind = k, mc_identity = i\<rparr>"
      using codec by (simp add: row_change_def kind_number_def split: metadata_change_kind.split)
    ultimately show ?l
      unfolding changes_left_def prod.case
      using v(2) by (force simp: in_round_def pos up intro!: image_eqI)
  qed
  then show ?thesis
    using q by blast
qed

definition demo_enc :: "scope \<Rightarrow> string" where
  "demo_enc s = replicate (length (account s)) (CHR ''1'') @ ''0'' @ replicate (length (provider s)) (CHR ''1'') @ ''0''
     @ account s @ provider s @ collection s"

definition demo_dec :: "string \<Rightarrow> scope option" where
  "demo_dec x =
     (let n = length (takeWhile (\<lambda>c. c = CHR ''1'') x);
          y = drop (n + 1) x;
          m = length (takeWhile (\<lambda>c. c = CHR ''1'') y);
          z = drop (m + 1) y
      in Some \<lparr>account = take n z, provider = take m (drop n z), collection = drop (n + m) z\<rparr>)"

lemma demo_codec: "demo_dec (demo_enc s) = Some s"
proof -
  have "takeWhile (\<lambda>c. c = CHR ''1'') (replicate k (CHR ''1'') @ CHR ''0'' # r) = replicate k (CHR ''1'')" for k r
    by (induction k) simp_all
  then show ?thesis
    by (simp add: demo_enc_def demo_dec_def Let_def)
qed

theorem invalidations_reach_every_mark_witness:
  "\<exists>cs q. drain (changes_fetch demo_enc demo_dec) 5 (w_db demo_world, metadata_position_of (empty_db ''db'')) = Some (cs, q)
    \<and> (\<lparr>mc_scope = demo, mc_kind = DirectoryChange, mc_identity = ''root''\<rparr> \<in> set cs)"
proof -
  let ?d = "w_db demo_world" and ?pos = "metadata_position_of (empty_db ''db'')"
  have m: "metadata_versions ?d = fmap_of_list [((demo, 1, ''1''), 4), ((demo, 2, ''root''), 4)]"
    by code_simp
  have f: "clock_identity ?d = ''db''" "clock_revision ?d = 4" "fcard (fmdom (metadata_versions ?d)) < 5"
    by code_simp+
  have s: "store_ok ?d"
    using demo_world_ok by (simp add: world_ok_def)
  have marks: "\<forall>s k i. fmlookup (metadata_versions ?d) (s, k, i) \<noteq> None \<longrightarrow>
      k \<le> 2 \<and> length (demo_enc s) + length i \<le> max_mark_bytes"
    by (auto simp: m fmlookup_of_list demo_enc_def demo_def max_mark_bytes_def split: if_splits)
  have v: "\<exists>v. fmlookup (metadata_versions ?d) (demo, kind_number DirectoryChange, ''root'') = Some v \<and> 0 < v"
    by (simp add: m fmlookup_of_list kind_number_def)
  show ?thesis
    using invalidations_reach_every_mark [where dec = demo_dec and enc = demo_enc and pos = ?pos, OF _ s marks _ _ _ _ f(3)] v f
    by (auto simp: demo_codec metadata_position_of_def clock_def empty_db_def)
qed

definition demo_listing :: "node list" where
  "demo_listing = [demo_file ''1'' ''x'', demo_file ''2'' ''y'']"

definition demo_builder :: directory_publication where
  "demo_builder = \<lparr>pub_ticket = demo_ticket 1,
     pub_incoming = fmap_of_list (map (\<lambda>n. (node_id n, n)) demo_listing), pub_cursors = [''c''],
     pub_input_bytes = 20, pub_pages = 2, pub_complete = True, pub_source = None\<rparr>"

definition demo_ticket_db :: db where
  "demo_ticket_db = w_db (fold world_exec [OpObservation demo (TargetDirectory ''root'')] (new_world ''db''))"

lemma demo_ticket_db_ok: "store_ok demo_ticket_db" "issued demo_ticket_db (demo_ticket 1)"
proof -
  let ?w = "fold world_exec [OpObservation demo (TargetDirectory ''root'')] (new_world ''db'')"
  have "world_ok ?w" "w_tickets ?w = [demo_ticket 1]"
    by (rule store.run_inv, simp) code_simp
  then show "store_ok demo_ticket_db" "issued demo_ticket_db (demo_ticket 1)"
    unfolding world_ok_def demo_ticket_db_def by simp_all
qed


definition demo_page :: change_page where
  "demo_page = \<lparr>page_changes = [Upsert (demo_file ''1'' ''x''), Delete ''9''], page_checkpoint = Complete ''c1''\<rparr>"

theorem begin_refines_feed_spec_witness:
  "\<exists>d'. begin_feed demo False demo_ticket_db = Inr (None, d')
     \<and> abs_feed d' demo = spec_begin False (abs_feed demo_ticket_db demo)"
proof -
  have "case begin_feed demo False demo_ticket_db of Inr (None, d') \<Rightarrow> True | _ \<Rightarrow> False"
    by code_simp
  then obtain d' where p: "begin_feed demo False demo_ticket_db = Inr (None, d')"
    by (auto split: sum.splits option.splits)
  then show ?thesis
    using begin_refines_feed_spec [OF demo_ticket_db_ok(1) p] by blast
qed

definition demo_feed_world :: world where
  "demo_feed_world = fold world_exec [OpObservation demo (TargetNode ''1''), OpBegin demo False] (new_world ''db'')"

theorem completed_feed_supersedes_replies_witness:
  "\<exists>d. stage demo None demo_page (w_db demo_feed_world) = Inr d
     \<and> publish_node 3 (hd (w_tickets demo_feed_world)) (demo_file ''1'' ''late'') (w_db (fold world_exec [] (demo_feed_world\<lparr>w_db := d\<rparr>))) =
        Inr (Superseded (node_on d demo ''1''), d)"
proof -
  let ?t = "hd (w_tickets demo_feed_world)"
  have ok: "world_ok demo_feed_world"
    unfolding demo_feed_world_def by (rule store.run_inv) simp
  have t: "?t \<in> set (w_tickets demo_feed_world)" "tk_target ?t = TargetNode (node_id (demo_file ''1'' ''late''))" "tk_scope ?t = demo"
    by code_simp+
  have "case stage demo None demo_page (w_db demo_feed_world) of Inr d' \<Rightarrow> True | _ \<Rightarrow> False"
    by code_simp
  then obtain d where p: "stage demo None demo_page (w_db demo_feed_world) = Inr d"
    by (auto split: sum.splits)
  have c: "page_checkpoint demo_page = Complete ''c1''" "Upsert (demo_file ''1'' ''x'') \<in> set (page_changes demo_page)"
    by (simp_all add: demo_page_def)
  have n: "node_id (demo_file ''1'' nm) = ''1''" for nm
    by (simp add: demo_file_def)
  show ?thesis
    using completed_feed_supersedes_replies [OF ok t(1,2) p [folded t(3)] c(1), of 3 "[]"] p c(2) n t(3)
    by auto
qed

theorem lookups_agree_with_listing_witness:
  "child (w_db demo_world) demo ''root'' ''x'' = map_option (find (\<lambda>n. node_name n = ''x'')) (with_children (w_db demo_world) demo ''root'' (\<lambda>ns. ns))
   \<and> child (w_db demo_world) demo ''root'' ''x'' = Some (Some (demo_file ''1'' ''x''))"
proof -
  have s: "store_ok (w_db demo_world)"
    using demo_world_ok by (simp add: world_ok_def)
  have "child (w_db demo_world) demo ''root'' ''x'' = Some (Some (demo_file ''1'' ''x''))"
    by code_simp
  then show ?thesis
    using lookups_agree_with_listing [OF s] by metis
qed

theorem ordinary_handoff_never_overwrites_witness:
  "\<exists>d'. publish_ordinary_handoff_backup 8 demo (demo_file ''1'' ''x'') (demo_file ''2'' ''x'') ((demo_file ''1'' ''x'')\<lparr>node_name := ''x~''\<rparr>)
      (w_db demo_world) = Inr (True, d') \<and> store_ok d'"
proof -
  have "case publish_ordinary_handoff_backup 8 demo (demo_file ''1'' ''x'') (demo_file ''2'' ''x'') ((demo_file ''1'' ''x'')\<lparr>node_name := ''x~''\<rparr>)
      (w_db demo_world) of Inr (True, d') \<Rightarrow> True | _ \<Rightarrow> False"
    by code_simp
  then obtain d' where p: "publish_ordinary_handoff_backup 8 demo (demo_file ''1'' ''x'') (demo_file ''2'' ''x'') ((demo_file ''1'' ''x'')\<lparr>node_name := ''x~''\<rparr>)
      (w_db demo_world) = Inr (True, d')"
    by (auto split: sum.splits bool.splits)
  have s: "store_ok (w_db demo_world)"
    using demo_world_ok by (simp add: world_ok_def)
  show ?thesis
    using ordinary_handoff_never_overwrites [OF s p] p by blast
qed

definition demo_icloud :: scope where
  "demo_icloud = \<lparr>account = ''a'', provider = ''icloud'', collection = ''drive''\<rparr>"

definition demo_package :: "string \<Rightarrow> string \<Rightarrow> node" where
  "demo_package i p = \<lparr>node_id = ''FILE::com.apple.CloudDocs::'' @ i, parent_id = Some p, node_name = ''n.pages'', node_kind = Folder,
     node_size = 3, modified_unix = 0, etag = Some ''e1'', content_version = None, node_target = None, package = True\<rparr>"

definition demo_icloud_db :: db where
  "demo_icloud_db = w_db (fold world_exec
     [OpObserveDirectory 5 demo_icloud ''root'' [demo_package ''1'' ''root'', demo_package ''2'' ''root'']] (new_world ''db''))"

theorem native_handoff_never_overwrites_witness:
  "\<exists>d'. publish_native_handoff 8 demo_icloud (demo_package ''1'' ''root'') (demo_package ''2'' ''root'')
       (demo_package ''1'' trash_root) demo_icloud_db = Inr (True, d') \<and> store_ok d'"
proof -
  have "world_ok (fold world_exec [OpObserveDirectory 5 demo_icloud ''root'' [demo_package ''1'' ''root'', demo_package ''2'' ''root'']] (new_world ''db''))"
    by (rule store.run_inv) simp
  then have s: "store_ok demo_icloud_db"
    unfolding demo_icloud_db_def world_ok_def by blast
  have "case publish_native_handoff 8 demo_icloud (demo_package ''1'' ''root'') (demo_package ''2'' ''root'')
       (demo_package ''1'' trash_root) demo_icloud_db of Inr (True, d') \<Rightarrow> True | _ \<Rightarrow> False"
    by code_simp
  then obtain d' where p: "publish_native_handoff 8 demo_icloud (demo_package ''1'' ''root'') (demo_package ''2'' ''root'')
       (demo_package ''1'' trash_root) demo_icloud_db = Inr (True, d')"
    by (auto split: sum.splits bool.splits)
  show ?thesis
    using native_handoff_never_overwrites [OF s p] p by blast
qed

definition demo_absence :: ticket where
  "demo_absence = \<lparr>tk_scope = demo, tk_target = TargetNode ''1'', tk_database = ''db'', tk_revision = 4\<rparr>"

theorem published_absence_hides_item_witness:
  "\<exists>d'. publish_absence demo_absence (w_db demo_world) = Inr (AbsencePublished True, d') \<and> node_on d' demo ''1'' = None"
proof -
  have "case publish_absence demo_absence (w_db demo_world) of Inr (AbsencePublished True, d') \<Rightarrow> True | _ \<Rightarrow> False"
    by code_simp
  then obtain d' where p: "publish_absence demo_absence (w_db demo_world) = Inr (AbsencePublished True, d')"
    by (auto split: sum.splits absence_result.splits bool.splits)
  have s: "store_ok (w_db demo_world)" "issued (w_db demo_world) demo_absence"
    using demo_world_ok by (simp add: world_ok_def) code_simp
  have t: "tk_target demo_absence = TargetNode ''1''" "tk_scope demo_absence = demo"
    by (simp_all add: demo_absence_def)
  show ?thesis
    using published_absence_hides_item [OF s t(1) p] p t(2) by simp
qed

end
