(* ===== verification/Store_Pins.thy ===== *)
theory Store_Pins
  imports Store_State
begin

text \<open>
  Pins: what the user asked to keep available offline (\<open>cirrove-store/src/pins.rs\<close>),
  the budget they may claim (\<open>Engine::pinnable_budget\<close> of
  \<open>cirrove-service/src/engine.rs\<close>) and the cache block index
  (\<open>cirrove-store/src/blocks.rs\<close>).

  Rows of \<open>pins\<close> are kept in rowid order, which is the order \<open>SUM\<close> adds them in.
  A reservation is a \<open>u64\<close> in the interface and an \<open>i64\<close> in the table, with the
  wrapping casts of \<open>as i64\<close> and \<open>as u64\<close> between them.
\<close>

section \<open>Tables\<close>

record pin =
  pin_scope :: string
  pin_item :: string
  pin_recursive :: bool
  pin_reserved :: "64 word"
  pin_created :: int

datatype pin_refusal = WouldExceedBudget (requested: "64 word") (available: "64 word")

record pin_row =
  pr_scope :: string
  pr_item :: string
  pr_recursive :: bool
  pr_reserved :: int
  pr_created :: int

record pins_db =
  pins :: "pin_row list"
  pin_blocks :: "(string, string \<times> string) fmap"

definition empty_pins :: pins_db where
  "empty_pins = \<lparr>pins = [], pin_blocks = fmempty\<rparr>"

definition pr_key :: "pin_row \<Rightarrow> string \<times> string" where
  "pr_key r = (pr_scope r, pr_item r)"

definition as_i64 :: "64 word \<Rightarrow> int" where
  "as_i64 w = sint w"

definition as_u64 :: "int \<Rightarrow> 64 word" where
  "as_u64 i = word_of_int i"

text \<open>SQLite's \<open>COALESCE(SUM(x),0)\<close>: an integer overflow of the running sum is an error.\<close>

fun sql_sum :: "int \<Rightarrow> int list \<Rightarrow> store_error + int" where
  "sql_sum acc [] = Inr acc"
| "sql_sum acc (x # xs) =
     (if acc + x < - (2 ^ 63) \<or> acc + x > i64_max then Inl Database else sql_sum (acc + x) xs)"

text \<open>The SQL condition \<open>scope=?1 AND item=?2\<close>.\<close>

definition row_of :: "string \<Rightarrow> string \<Rightarrow> pin_row \<Rightarrow> bool" where
  "row_of s i r = (pr_scope r = s \<and> pr_item r = i)"

section \<open>Operations\<close>

definition reserved_bytes :: "pins_db \<Rightarrow> store_error + 64 word" where
  "reserved_bytes d = and_then (sql_sum 0 (map pr_reserved (pins d))) (\<lambda>n. Inr (as_u64 n))"

definition saturating_sub :: "64 word \<Rightarrow> 64 word \<Rightarrow> 64 word" where
  "saturating_sub a b = (if a < b then 0 else a - b)"

text \<open>\<open>INSERT ... ON CONFLICT(scope,item) DO UPDATE\<close>: an existing row keeps its
  rowid and its creation time.\<close>

fun upsert_pin :: "pin_row \<Rightarrow> pin_row list \<Rightarrow> pin_row list" where
  "upsert_pin r [] = [r]"
| "upsert_pin r (q # qs) =
     (if pr_key q = pr_key r
      then q\<lparr>pr_recursive := pr_recursive r, pr_reserved := pr_reserved r\<rparr> # qs
      else q # upsert_pin r qs)"

definition pin_item_offline ::
    "int \<Rightarrow> string \<Rightarrow> string \<Rightarrow> bool \<Rightarrow> 64 word \<Rightarrow> 64 word \<Rightarrow> pins_db
       \<Rightarrow> store_error + ((pin_refusal + pin) \<times> pins_db)" where
  "pin_item_offline now s i recursive reserved budget d =
     and_then (sql_sum 0 (map pr_reserved (filter (\<lambda>r. \<not> row_of s i r) (pins d))))
       (\<lambda>n. let existing = as_u64 n;
                available = saturating_sub budget existing
            in if reserved > available then Inr (Inl (WouldExceedBudget reserved available), d)
               else Inr
                 (Inr \<lparr>pin_scope = s, pin_item = i, pin_recursive = recursive,
                        pin_reserved = reserved, pin_created = now\<rparr>,
                  d\<lparr>pins := upsert_pin \<lparr>pr_scope = s, pr_item = i, pr_recursive = recursive,
                                         pr_reserved = as_i64 reserved, pr_created = now\<rparr> (pins d)\<rparr>))"

definition drop_blocks :: "string \<Rightarrow> string \<Rightarrow> pins_db \<Rightarrow> pins_db" where
  "drop_blocks s i d = d\<lparr>pin_blocks := fmfilter (\<lambda>k. fmlookup (pin_blocks d) k \<noteq> Some (s, i)) (pin_blocks d)\<rparr>"

definition unpin :: "string \<Rightarrow> string \<Rightarrow> pins_db \<Rightarrow> bool \<times> pins_db" where
  "unpin s i d =
     (let d = drop_blocks s i d;
          kept = filter (\<lambda>r. \<not> row_of s i r) (pins d);
          removed = length (pins d) - length kept
      in (removed > 0, d\<lparr>pins := kept\<rparr>))"

definition pins_list :: "pins_db \<Rightarrow> pin list" where
  "pins_list d =
     map (\<lambda>r. \<lparr>pin_scope = pr_scope r, pin_item = pr_item r, pin_recursive = pr_recursive r,
                pin_reserved = as_u64 (pr_reserved r), pin_created = pr_created r\<rparr>)
       (sort_key pr_created (pins d))"

definition protect_blocks :: "string \<Rightarrow> string \<Rightarrow> string list \<Rightarrow> pins_db \<Rightarrow> bool \<times> pins_db" where
  "protect_blocks s i keys d =
     (let pinned = length (filter (row_of s i) (pins d));
          d = drop_blocks s i d
      in if pinned = 0 then (False, d)
         else (True, d\<lparr>pin_blocks := fold (\<lambda>k. fmupd k (s, i)) keys (pin_blocks d)\<rparr>))"

definition blocks_of :: "string \<Rightarrow> string \<Rightarrow> pins_db \<Rightarrow> string list" where
  "blocks_of s i d = filter (\<lambda>k. fmlookup (pin_blocks d) k = Some (s, i)) (sorted_list_of_fset (fmdom (pin_blocks d)))"

definition protected_blocks :: "pins_db \<Rightarrow> string fset" where
  "protected_blocks d = fmdom (pin_blocks d)"

text \<open>The share of an account's cache that pins may claim; blocks are 4 MiB.\<close>

definition block_size :: "64 word" where
  "block_size = 4 * 1024 * 1024"

definition pinnable_budget :: "64 word \<Rightarrow> 64 word" where
  "pinnable_budget cache_bytes =
     (let headroom = min (max (cache_bytes div 10) (8 * block_size)) cache_bytes
      in saturating_sub cache_bytes headroom)"

section \<open>The block index\<close>

record block_row =
  br_key :: string
  br_size :: int
  br_touched :: int

fun block_touch :: "int \<Rightarrow> string \<Rightarrow> 64 word \<Rightarrow> block_row list \<Rightarrow> block_row list" where
  "block_touch now k sz [] = [\<lparr>br_key = k, br_size = as_i64 sz, br_touched = now\<rparr>]"
| "block_touch now k sz (r # rs) =
     (if br_key r = k then r\<lparr>br_touched := now, br_size := as_i64 sz\<rparr> # rs
      else r # block_touch now k sz rs)"

definition block_oldest :: "block_row list \<Rightarrow> (string \<times> 64 word) list" where
  "block_oldest rs = map (\<lambda>r. (br_key r, as_u64 (br_size r))) (sort_key br_touched rs)"

definition block_forget :: "string \<Rightarrow> block_row list \<Rightarrow> block_row list" where
  "block_forget k rs = filter (\<lambda>r. br_key r \<noteq> k) rs"

section \<open>Casts and sums\<close>

lemma row_of_key: "row_of s i r \<longleftrightarrow> pr_key r = (s, i)"
  by (simp add: row_of_def pr_key_def)

lemma pinned_iff: "(s, i) \<in> set (map pr_key qs) \<longleftrightarrow> (\<exists>r\<in>set qs. row_of s i r)"
  by (simp add: row_of_key image_iff) metis

lemma pr_key_simps [simp]:
  "pr_key (q\<lparr>pr_recursive := b, pr_reserved := n\<rparr>) = pr_key q"
  "pr_key \<lparr>pr_scope = s, pr_item = i, pr_recursive = b, pr_reserved = n, pr_created = c\<rparr> = (s, i)"
  by (simp_all add: pr_key_def)

lemma as_u64_i64 [simp]: "as_u64 (as_i64 w) = w"
  by (simp add: as_u64_def as_i64_def)

lemma as_i64_unat: "uint w \<le> i64_max \<Longrightarrow> as_i64 w = uint w"
  by (auto simp: as_i64_def i64_max_def sint_uint intro!: signed_take_bit_int_eq_self order.trans [OF _ uint_ge_0])

lemma uint_as_u64: "0 \<le> n \<Longrightarrow> n \<le> i64_max \<Longrightarrow> uint (as_u64 n) = n"
  by (simp add: as_u64_def i64_max_def take_bit_int_eq_self uint_word_of_int)

lemma sql_sum_ok:
  "\<forall>x\<in>set xs. 0 \<le> x \<Longrightarrow> 0 \<le> acc \<Longrightarrow> acc + sum_list xs \<le> i64_max \<Longrightarrow> sql_sum acc xs = Inr (acc + sum_list xs)"
proof (induction xs arbitrary: acc)
  case (Cons x xs)
  then have "0 \<le> sum_list xs"
    by (simp add: sum_list_nonneg)
  with Cons show ?case
    by simp
qed simp

lemma uint_saturating_sub: "uint (saturating_sub a b) = max 0 (uint a - uint b)"
proof (cases "a < b")
  case True
  then show ?thesis
    by (simp add: saturating_sub_def word_less_def)
next
  case False
  then have "uint b \<le> uint a"
    by (simp add: word_less_def)
  then show ?thesis
    using False uint_sub_lem [of b a] by (simp add: saturating_sub_def)
qed

section \<open>The invariant\<close>

definition pins_ok :: "pins_db \<Rightarrow> bool" where
  "pins_ok d = (distinct (map pr_key (pins d)) \<and> (\<forall>r\<in>set (pins d). 0 \<le> pr_reserved r)
     \<and> sum_list (map pr_reserved (pins d)) \<le> i64_max
     \<and> (\<forall>k owner. fmlookup (pin_blocks d) k = Some owner \<longrightarrow> owner \<in> set (map pr_key (pins d))))"

definition reserved_total :: "pins_db \<Rightarrow> int" where
  "reserved_total d = sum_list (map pr_reserved (pins d))"

definition others :: "string \<Rightarrow> string \<Rightarrow> pins_db \<Rightarrow> int" where
  "others s i d = sum_list (map pr_reserved (filter (\<lambda>r. \<not> row_of s i r) (pins d)))"

lemma keys_upsert_pin: "map pr_key (upsert_pin r qs) =
    (if pr_key r \<in> set (map pr_key qs) then map pr_key qs else map pr_key qs @ [pr_key r])"
  by (induction qs) auto

lemma reserved_upsert_pin:
  assumes "distinct (map pr_key qs)"
  shows "sum_list (map pr_reserved (upsert_pin r qs)) = pr_reserved r +
    sum_list (map pr_reserved (filter (\<lambda>q. \<not> row_of (pr_scope r) (pr_item r) q) qs))"
  using assms
proof (induction qs)
  case (Cons q qs)
  have "filter (\<lambda>q. \<not> row_of (pr_scope r) (pr_item r) q) qs = qs" if "pr_key q = pr_key r"
  proof (rule filter_True, rule ballI)
    fix x
    assume "x \<in> set qs"
    then have "pr_key x \<noteq> pr_key q"
      using Cons.prems by (auto simp: image_iff)
    then show "\<not> row_of (pr_scope r) (pr_item r) x"
      using that by (simp add: row_of_def pr_key_def)
  qed
  with Cons show ?case
    by (auto simp: row_of_def pr_key_def)
qed simp

lemma nonneg_upsert_pin:
  "0 \<le> pr_reserved r \<Longrightarrow> \<forall>q\<in>set qs. 0 \<le> pr_reserved q \<Longrightarrow> \<forall>q\<in>set (upsert_pin r qs). 0 \<le> pr_reserved q"
  by (induction qs) auto

lemma others_bounds:
  assumes "pins_ok d"
  shows "0 \<le> others s i d" and "others s i d \<le> reserved_total d" and "reserved_total d \<le> i64_max"
proof -
  have nn: "\<forall>r\<in>set (pins d). 0 \<le> pr_reserved r"
    using assms by (simp add: pins_ok_def)
  then show "0 \<le> others s i d"
    by (auto simp: others_def intro!: sum_list_nonneg)
  have "sum_list (map pr_reserved (filter P qs)) \<le> sum_list (map pr_reserved qs)"
    if "\<forall>r\<in>set qs. 0 \<le> pr_reserved r" for P and qs :: "pin_row list"
    using that by (induction qs) auto
  then show "others s i d \<le> reserved_total d"
    using nn by (simp add: others_def reserved_total_def)
  show "reserved_total d \<le> i64_max"
    using assms by (simp add: pins_ok_def reserved_total_def)
qed

lemma reserved_bytes_ok: "pins_ok d \<Longrightarrow> reserved_bytes d = Inr (as_u64 (reserved_total d))"
  unfolding reserved_bytes_def reserved_total_def
  by (subst sql_sum_ok) (auto simp: pins_ok_def)

text \<open>The whole decision of \<open>Store::pin\<close>, as arithmetic on the reservations of the
  other pins.\<close>

lemma pin_decision:
  assumes "pins_ok d"
  shows "pin_item_offline now s i recursive reserved budget d =
    (if uint reserved \<le> max 0 (uint budget - others s i d)
     then Inr (Inr \<lparr>pin_scope = s, pin_item = i, pin_recursive = recursive,
                    pin_reserved = reserved, pin_created = now\<rparr>,
               d\<lparr>pins := upsert_pin \<lparr>pr_scope = s, pr_item = i, pr_recursive = recursive,
                                      pr_reserved = as_i64 reserved, pr_created = now\<rparr> (pins d)\<rparr>)
     else Inr (Inl (WouldExceedBudget reserved (saturating_sub budget (as_u64 (others s i d)))), d))"
proof -
  note b = others_bounds(1,2) [OF assms, of s i] others_bounds(3) [OF assms]
  have sum: "sql_sum 0 (map pr_reserved (filter (\<lambda>r. \<not> row_of s i r) (pins d))) =
      Inr (others s i d)"
    unfolding others_def
    by (subst sql_sum_ok) (use assms b in \<open>auto simp: pins_ok_def others_def\<close>)
  have "reserved > saturating_sub budget (as_u64 (others s i d)) \<longleftrightarrow>
      uint reserved > max 0 (uint budget - others s i d)"
    using b by (simp add: word_less_def uint_saturating_sub uint_as_u64)
  then show ?thesis
    by (simp add: pin_item_offline_def sum Let_def not_le)
qed

section \<open>Every operation keeps the invariant\<close>

lemma pins_ok_empty: "pins_ok empty_pins"
  by (simp add: pins_ok_def empty_pins_def i64_max_def)

lemma pin_ok:
  assumes ok: "pins_ok d" and fits: "uint budget \<le> i64_max"
    and run: "pin_item_offline now s i recursive reserved budget d = Inr (Inr p, d')"
  shows "pins_ok d'" "reserved_total d' = uint reserved + others s i d"
    "uint reserved \<le> max 0 (uint budget - others s i d)" "pin_blocks d' = pin_blocks d"
proof -
  let ?r = "\<lparr>pr_scope = s, pr_item = i, pr_recursive = recursive, pr_reserved = as_i64 reserved, pr_created = now\<rparr>"
  note b = others_bounds(1,2) [OF ok, of s i] others_bounds(3) [OF ok]
  show cond: "uint reserved \<le> max 0 (uint budget - others s i d)"
    using run by (auto simp: pin_decision [OF ok] split: if_splits)
  then have d': "d' = d\<lparr>pins := upsert_pin ?r (pins d)\<rparr>"
    using run by (simp add: pin_decision [OF ok])
  then show "pin_blocks d' = pin_blocks d"
    by simp
  have res: "as_i64 reserved = uint reserved"
    using cond fits b by (intro as_i64_unat) linarith
  show tot: "reserved_total d' = uint reserved + others s i d"
    using ok res reserved_upsert_pin [of "pins d" ?r]
    by (simp add: reserved_total_def d' others_def pins_ok_def)
  have le: "reserved_total d' \<le> i64_max"
    using tot cond fits b by linarith
  have keys_eq: "map pr_key (pins d') = (if (s, i) \<in> set (map pr_key (pins d)) then map pr_key (pins d)
      else map pr_key (pins d) @ [(s, i)])"
    by (simp add: d' keys_upsert_pin del: set_map)
  have keys: "set (map pr_key (pins d)) \<subseteq> set (map pr_key (pins d'))"
    unfolding keys_eq by auto
  have "distinct (map pr_key (pins d'))"
    unfolding keys_eq using ok by (auto simp: pins_ok_def)
  moreover
  have "\<forall>r\<in>set (pins d'). 0 \<le> pr_reserved r"
    using nonneg_upsert_pin [of ?r "pins d"] ok res by (simp add: d' pins_ok_def)
  moreover have "fmlookup (pin_blocks d') k = Some owner \<Longrightarrow> owner \<in> set (map pr_key (pins d'))" for k owner
    using ok keys \<open>pin_blocks d' = pin_blocks d\<close> unfolding pins_ok_def by (metis subsetD)
  ultimately show "pins_ok d'"
    using le unfolding pins_ok_def reserved_total_def by blast
qed

lemma drop_blocks_lookup:
  "fmlookup (pin_blocks (drop_blocks s i d)) k =
     (if fmlookup (pin_blocks d) k = Some (s, i) then None else fmlookup (pin_blocks d) k)"
  "pins (drop_blocks s i d) = pins d"
  by (simp_all add: drop_blocks_def)

lemma unpin_ok:
  assumes "pins_ok d"
  shows "pins_ok (snd (unpin s i d))" "reserved_total (snd (unpin s i d)) = others s i d"
    "fst (unpin s i d) \<longleftrightarrow> (s, i) \<in> set (map pr_key (pins d))"
proof -
  have pins: "pins (snd (unpin s i d)) = filter (\<lambda>r. \<not> row_of s i r) (pins d)"
    by (simp add: unpin_def Let_def drop_blocks_lookup)
  have blocks: "fmlookup (pin_blocks (snd (unpin s i d))) k =
      (if fmlookup (pin_blocks d) k = Some (s, i) then None else fmlookup (pin_blocks d) k)" for k
    by (simp add: unpin_def Let_def drop_blocks_lookup)
  show tot: "reserved_total (snd (unpin s i d)) = others s i d"
    by (simp add: reserved_total_def pins others_def)
  have "length (filter (\<lambda>r. \<not> row_of s i r) (pins d)) < length (pins d) \<longleftrightarrow> (\<exists>r\<in>set (pins d). row_of s i r)"
    using length_filter_less [of _ "pins d" "\<lambda>r. \<not> row_of s i r"] filter_True [of "pins d" "\<lambda>r. \<not> row_of s i r"]
    by (metis less_irrefl)
  then show "fst (unpin s i d) \<longleftrightarrow> (s, i) \<in> set (map pr_key (pins d))"
    unfolding pinned_iff by (simp add: unpin_def Let_def drop_blocks_lookup)
  have "distinct (map pr_key (filter (\<lambda>r. \<not> row_of s i r) (pins d)))"
    using assms by (simp add: pins_ok_def distinct_map_filter)
  moreover have "reserved_total (snd (unpin s i d)) \<le> i64_max"
    using others_bounds [OF assms] tot by (metis order.trans)
  ultimately show "pins_ok (snd (unpin s i d))"
    using assms by (fastforce simp: pins_ok_def reserved_total_def pins blocks row_of_key split: if_splits)
qed

lemma protect_blocks_cases:
  "protect_blocks s i keys d =
     (if (s, i) \<in> set (map pr_key (pins d))
      then (True, (drop_blocks s i d)\<lparr>pin_blocks := fold (\<lambda>k. fmupd k (s, i)) keys (pin_blocks (drop_blocks s i d))\<rparr>)
      else (False, drop_blocks s i d))"
  unfolding pinned_iff by (simp add: protect_blocks_def Let_def filter_empty_conv)

lemma fmupd_fold_const [simp]:
  "fmlookup (fold (\<lambda>k. fmupd k v) ks m) k' = (if k' \<in> set ks then Some v else fmlookup m k')"
  by (induction ks arbitrary: m) auto

lemma protect_blocks_ok:
  assumes "pins_ok d"
  shows "pins_ok (snd (protect_blocks s i keys d))" "pins (snd (protect_blocks s i keys d)) = pins d"
  using assms
  by (auto simp: protect_blocks_cases pins_ok_def drop_blocks_lookup split: if_splits)

text \<open>The operations of an account whose pins share one budget.\<close>

datatype pin_op =
    OpPin int string string bool "64 word"
  | OpUnpin string string
  | OpProtect string string "string list"

definition pin_exec :: "64 word \<Rightarrow> pin_op \<Rightarrow> pins_db \<Rightarrow> pins_db" where
  "pin_exec budget op d =
     (case op of
        OpPin now s i recursive reserved \<Rightarrow>
          (case pin_item_offline now s i recursive reserved budget d of Inl _ \<Rightarrow> d | Inr (_, d') \<Rightarrow> d')
      | OpUnpin s i \<Rightarrow> snd (unpin s i d)
      | OpProtect s i keys \<Rightarrow> snd (protect_blocks s i keys d))"

definition pins_fit :: "64 word \<Rightarrow> pins_db \<Rightarrow> bool" where
  "pins_fit budget d = (uint budget \<le> i64_max \<longrightarrow> pins_ok d \<and> reserved_total d \<le> uint budget)"

lemma pin_exec_fits:
  assumes "pins_fit budget d"
  shows "pins_fit budget (pin_exec budget op d)"
  unfolding pins_fit_def
proof
  assume small: "uint budget \<le> i64_max"
  then have ok: "pins_ok d" "reserved_total d \<le> uint budget"
    using assms by (auto simp: pins_fit_def)
  show "pins_ok (pin_exec budget op d) \<and> reserved_total (pin_exec budget op d) \<le> uint budget"
  proof (cases op)
    case (OpPin now s i recursive reserved)
    show ?thesis
    proof (cases "uint reserved \<le> max 0 (uint budget - others s i d)")
      case True
      then obtain p d' where run: "pin_item_offline now s i recursive reserved budget d = Inr (Inr p, d')"
        by (simp add: pin_decision [OF ok(1)])
      then show ?thesis
        using pin_ok [OF ok(1) small run] ok others_bounds(1,2) [OF ok(1), of s i] by (simp add: pin_exec_def OpPin)
    next
      case False
      then show ?thesis
        using ok by (simp add: pin_exec_def OpPin pin_decision [OF ok(1)])
    qed
  next
    case (OpUnpin s i)
    then show ?thesis
      using unpin_ok [OF ok(1), of s i] ok(2) others_bounds(1,2) [OF ok(1), of s i] by (simp add: pin_exec_def)
  next
    case (OpProtect s i keys)
    then show ?thesis
      using protect_blocks_ok [OF ok(1), of s i keys] ok(2) by (simp add: pin_exec_def reserved_total_def)
  qed
qed

interpretation account_pins: machine "pin_exec budget" "pins_fit budget" for budget
  by unfold_locales (rule pin_exec_fits)

lemma pins_fit_empty: "pins_fit budget empty_pins"
  using pins_ok_empty by (simp add: pins_fit_def reserved_total_def empty_pins_def)

lemma pinnable_budget_le: "uint (pinnable_budget b) \<le> uint b"
  by (simp add: pinnable_budget_def Let_def uint_saturating_sub)

section \<open>Block index\<close>

lemma block_oldest_sorted: "sorted (map br_touched (sort_key br_touched rs))"
  by simp

lemma keys_block_touch: "map br_key (block_touch now k sz rs) =
    (if k \<in> set (map br_key rs) then map br_key rs else map br_key rs @ [k])"
  by (induction rs) auto

lemma block_touch_row:
  "distinct (map br_key rs) \<Longrightarrow> r \<in> set (block_touch now k sz rs) \<longleftrightarrow>
     r = \<lparr>br_key = k, br_size = as_i64 sz, br_touched = now\<rparr> \<or> (r \<in> set rs \<and> br_key r \<noteq> k)"
proof (induction rs)
  case (Cons q rs)
  then show ?case
    by (cases "br_key q = k") (auto simp: image_iff)
qed auto

section \<open>Guarantees\<close>



text \<open>C33: a pin is refused exactly when its reservation exceeds what the other pins leave
  of the budget, its own earlier reservation not counting against it; a refusal
  reports that remainder and changes nothing, and an accepted pin replaces the
  item's reservation and keeps the protected blocks.\<close>

theorem pin_refused_iff_over_budget:
  assumes "pins_ok d" and "uint budget \<le> i64_max"
  shows "case pin_item_offline now s i recursive reserved budget d of
      Inl e \<Rightarrow> False
    | Inr (Inl (WouldExceedBudget req avail), d') \<Rightarrow> uint reserved + others s i d > uint budget \<and> req = reserved
        \<and> uint avail = max 0 (uint budget - others s i d) \<and> d' = d
    | Inr (Inr p, d') \<Rightarrow> (uint reserved + others s i d \<le> uint budget \<or> reserved = 0)
        \<and> reserved_total d' = uint reserved + others s i d \<and> pin_blocks d' = pin_blocks d \<and> pins_ok d'"
proof (cases "uint reserved \<le> max 0 (uint budget - others s i d)")
  case True
  then obtain p d' where run: "pin_item_offline now s i recursive reserved budget d = Inr (Inr p, d')"
    by (simp add: pin_decision [OF assms(1)])
  have "uint reserved + others s i d \<le> uint budget \<or> reserved = 0"
    using True by (auto simp: max_def uint_0_iff split: if_splits)
  then show ?thesis
    using pin_ok [OF assms run] run by simp
next
  case False
  have "uint (saturating_sub budget (as_u64 (others s i d))) = max 0 (uint budget - others s i d)"
    using others_bounds(1) [OF assms(1)] order_trans [OF others_bounds(2) [OF assms(1)] others_bounds(3) [OF assms(1)]]
    by (simp add: uint_saturating_sub uint_as_u64)
  then show ?thesis
    using False by (auto simp: pin_decision [OF assms(1)])
qed

theorem pin_refused_iff_over_budget_witness:
  "case pin_item_offline 5 ''s'' ''b'' False 50 100 (fold (pin_exec 100) [OpPin 1 ''s'' ''a'' False 60] empty_pins) of
     Inr (Inl (WouldExceedBudget req avail), d') \<Rightarrow> req = 50 \<and> uint avail = 40
       \<and> d' = fold (pin_exec 100) [OpPin 1 ''s'' ''a'' False 60] empty_pins
   | _ \<Rightarrow> False"
proof -
  let ?d = "fold (pin_exec 100) [OpPin 1 ''s'' ''a'' False 60] empty_pins"
  have ok: "pins_ok ?d" "uint (100 :: 64 word) \<le> i64_max"
    using account_pins.run_inv [OF pins_fit_empty, of 100 "[OpPin 1 ''s'' ''a'' False 60]"]
    by (auto simp: pins_fit_def i64_max_def)
  have "others ''s'' ''b'' ?d = 60"
    by code_simp
  then show ?thesis
    using pin_refused_iff_over_budget [OF ok, where now = 5 and s = "''s''" and i = "''b''" and recursive = False and reserved = 50]
    by (auto split: sum.splits pin_refusal.splits)
qed

text \<open>C34: the table of protected blocks has one owner per block. When a file and a folder
  above it are both kept offline, their blocks coincide; protecting the folder's
  blocks takes the file's over, and releasing the folder then leaves the file
  pinned with its block unprotected, so eviction may take content that is still
  marked as kept offline.\<close>

theorem releasing_folder_unprotects_pinned_file:
  assumes "(s, file) \<in> set (map pr_key (pins d))" and "(s, folder) \<in> set (map pr_key (pins d))" and "file \<noteq> folder"
    and "k \<in> set file_blocks" and "k \<in> set folder_blocks"
  shows "let d1 = snd (protect_blocks s file file_blocks d);
             d2 = snd (protect_blocks s folder folder_blocks d1);
             d3 = snd (unpin s folder d2)
         in k |\<in>| protected_blocks d1 \<and> k |\<in>| protected_blocks d2
            \<and> (s, file) \<in> set (map pr_key (pins d3)) \<and> k |\<notin>| protected_blocks d3"
proof -
  define d1 where "d1 = snd (protect_blocks s file file_blocks d)"
  define d2 where "d2 = snd (protect_blocks s folder folder_blocks d1)"
  define d3 where "d3 = snd (unpin s folder d2)"
  have p: "pins d1 = pins d" "pins d2 = pins d" "pins d3 = filter (\<lambda>r. \<not> row_of s folder r) (pins d)"
    by (simp_all add: d1_def d2_def d3_def protect_blocks_cases unpin_def Let_def drop_blocks_lookup)
  have b: "fmlookup (pin_blocks d1) k = Some (s, file)" "fmlookup (pin_blocks d2) k = Some (s, folder)"
    using assms by (auto simp: d1_def d2_def protect_blocks_cases p(1) [unfolded d1_def] drop_blocks_lookup)
  have "fmlookup (pin_blocks d3) k = None"
    using b(2) by (simp add: d3_def unpin_def Let_def drop_blocks_lookup)
  moreover have "(s, file) \<in> set (map pr_key (pins d3))"
    using assms(1,3) unfolding p by (auto simp: row_of_key)
  ultimately show ?thesis
    using b unfolding Let_def d1_def [symmetric] d2_def [symmetric] d3_def [symmetric]
    by (simp add: protected_blocks_def fmlookup_dom_iff)
qed

theorem releasing_folder_unprotects_pinned_file_witness:
  "let d = fold (pin_exec 100) [OpPin 1 ''s'' ''file'' False 10, OpPin 2 ''s'' ''folder'' True 10] empty_pins;
       d3 = snd (unpin ''s'' ''folder'' (snd (protect_blocks ''s'' ''folder'' [''k''] (snd (protect_blocks ''s'' ''file'' [''k''] d)))))
   in (''s'', ''file'') \<in> set (map pr_key (pins d3)) \<and> ''k'' |\<notin>| protected_blocks d3"
proof -
  let ?d = "fold (pin_exec 100) [OpPin 1 ''s'' ''file'' False 10, OpPin 2 ''s'' ''folder'' True 10] empty_pins"
  have "(''s'', ''file'') \<in> set (map pr_key (pins ?d))" "(''s'', ''folder'') \<in> set (map pr_key (pins ?d))"
    by code_simp+
  then show ?thesis
    using releasing_folder_unprotects_pinned_file [of "''s''" "''file''" ?d "''folder''" "''k''" "[''k'']" "[''k'']"]
    by (simp add: Let_def)
qed

end
