(* ===== verification/Store_Index.thy ===== *)
theory Store_Index
  imports Store_Guarantees Store_Pins
begin

text \<open>
  The readers and small tables of \<open>cirrove-store/src/lib.rs\<close> beside the feed: the
  visible nodes of a scope, ancestry chains used to authorise writes, shortcuts
  below a root, the inode table, health records and subscriptions.
\<close>

section \<open>Whole-scope readers\<close>

text \<open>The union of \<open>observed\<close> with the nodes it does not shadow, less the observed absences.\<close>

definition visible_rows :: "db \<Rightarrow> scope \<Rightarrow> (string \<times> node) list" where
  "visible_rows d s =
     filter (\<lambda>(i, n). fmlookup (observed_absent d) (s, i) = None)
       (map (\<lambda>(i, ob). (i, ob_body ob)) (scope_rows s (observed d))
        @ filter (\<lambda>(i, n). fmlookup (observed d) (s, i) = None) (scope_rows s (nodes d)))"

definition visible_nodes :: "db \<Rightarrow> scope \<Rightarrow> node list" where
  "visible_nodes d s = map snd (sort_key fst (visible_rows d s))"

section \<open>Ancestry\<close>

definition indexed_id :: "db \<Rightarrow> scope \<Rightarrow> string \<Rightarrow> bool" where
  "indexed_id d s i \<longleftrightarrow> fmlookup (nodes d) (s, i) \<noteq> None \<or> fmlookup (observed d) (s, i) \<noteq> None
     \<or> fmlookup (observed_absent d) (s, i) \<noteq> None"

text \<open>The loop of \<open>node_chain_to_root_impl\<close>; \<open>fuel\<close> counts the remaining iterations of
  \<open>0..128\<close>, and the leaf is offered on the first one only.\<close>

fun chain_loop :: "db \<Rightarrow> scope \<Rightarrow> string \<Rightarrow> nat \<Rightarrow> node option \<Rightarrow> string list \<Rightarrow> node list \<Rightarrow> string \<Rightarrow> node list option" where
  "chain_loop d s root 0 leaf seen chain i = None"
| "chain_loop d s root (Suc fuel) leaf seen chain i =
     (if i \<in> set seen then None
      else case (case node_on d s i of
                   Some n \<Rightarrow> Some n
                 | None \<Rightarrow> (case leaf of None \<Rightarrow> None | Some n \<Rightarrow> if indexed_id d s i then None else Some n)) of
        None \<Rightarrow> None
      | Some n \<Rightarrow>
          if node_id n \<noteq> i then None
          else case parent_id n of
            None \<Rightarrow> None
          | Some p \<Rightarrow>
              if p = root then Some (chain @ [n])
              else chain_loop d s root fuel None (i # seen) (chain @ [n]) p)"

definition node_chain_to_root_impl :: "db \<Rightarrow> scope \<Rightarrow> string \<Rightarrow> string \<Rightarrow> node option \<Rightarrow> node list option" where
  "node_chain_to_root_impl d s item root leaf =
     (if item = [] \<or> root = [] \<or> item = root then None
      else chain_loop d s root 128 leaf [] [] item)"

definition node_chain_to_root :: "db \<Rightarrow> scope \<Rightarrow> string \<Rightarrow> string \<Rightarrow> node list option" where
  "node_chain_to_root d s item root = node_chain_to_root_impl d s item root None"

definition node_chain_to_root_with_unindexed_leaf :: "db \<Rightarrow> scope \<Rightarrow> node \<Rightarrow> string \<Rightarrow> node list option" where
  "node_chain_to_root_with_unindexed_leaf d s leaf root = node_chain_to_root_impl d s (node_id leaf) root (Some leaf)"

section \<open>Shortcuts below a root\<close>

text \<open>
  The recursive query \<open>SHORTCUTS_UNDER\<close>. Every identity has at most one row of
  \<open>nodes\<close>, so the rows of one shortcut form a walk along parents; \<open>UNION\<close> ends it
  where it would repeat a row.
\<close>

fun ancestor_walk :: "db \<Rightarrow> scope \<Rightarrow> string \<Rightarrow> nat \<Rightarrow> string list \<Rightarrow> string \<Rightarrow> (string \<times> string option) list" where
  "ancestor_walk d s root 0 seen i = []"
| "ancestor_walk d s root (Suc fuel) seen i =
     (case fmlookup (nodes d) (s, i) of
        None \<Rightarrow> []
      | Some n \<Rightarrow>
          if i \<in> set seen then []
          else (i, parent_id n) #
            (if i = root then []
             else case parent_id n of None \<Rightarrow> [] | Some p \<Rightarrow> ancestor_walk d s root fuel (i # seen) p))"

definition shortcuts_under :: "db \<Rightarrow> scope \<Rightarrow> string \<Rightarrow> node list" where
  "shortcuts_under d s root =
     map snd (filter (\<lambda>(i, n). node_target n \<noteq> None
         \<and> list_ex (\<lambda>(j, p). j = root \<or> p = Some root)
             (ancestor_walk d s root (Suc (fcard (fmdom (nodes d)))) [] i))
       (scope_rows s (nodes d)))"

section \<open>Inodes, health and subscriptions\<close>

record index_db =
  inodes_tbl :: "(string, int) fmap"
  inode_seq :: int
  health_tbl :: "(scope, string) fmap"
  subscriptions_tbl :: "(string \<times> string \<times> string) fset"

definition empty_index :: index_db where
  "empty_index = \<lparr>inodes_tbl = fmupd ''root'' 1 fmempty, inode_seq = 1, health_tbl = fmempty, subscriptions_tbl = {||}\<rparr>"

text \<open>\<open>INSERT INTO inodes(key)\<close> with \<open>AUTOINCREMENT\<close>: one more than any inode so far; the
  largest row id is an error.\<close>

definition insert_inode :: "string \<Rightarrow> index_db \<Rightarrow> store_error + (int \<times> index_db)" where
  "insert_inode k d =
     (if inode_seq d \<ge> i64_max then Inl Database
      else let i = inode_seq d + 1 in Inr (i, d\<lparr>inodes_tbl := fmupd k i (inodes_tbl d), inode_seq := i\<rparr>))"

definition inode_write :: "string \<Rightarrow> index_db \<Rightarrow> store_error + (64 word \<times> index_db)" where
  "inode_write k d =
     (case fmlookup (inodes_tbl d) k of
        Some i \<Rightarrow> Inr (as_u64 i, d)
      | None \<Rightarrow> and_then (insert_inode k d) (\<lambda>(i, d). Inr (as_u64 i, d)))"

text \<open>
  \<open>Store::inode\<close> reads first, in the state \<open>d\<close>, and reserves the writer only for a key
  that is missing there; other allocators may have committed by then, so the
  transaction runs in a later state \<open>e\<close>.
\<close>

definition inode :: "string \<Rightarrow> index_db \<Rightarrow> index_db \<Rightarrow> store_error + (64 word \<times> index_db)" where
  "inode k d e =
     (case fmlookup (inodes_tbl d) k of
        Some i \<Rightarrow> Inr (as_u64 i, e)
      | None \<Rightarrow> inode_write k e)"

fun inodes_read :: "string list \<Rightarrow> index_db \<Rightarrow> 64 word list" where
  "inodes_read [] d = []"
| "inodes_read (k # ks) d =
     (case fmlookup (inodes_tbl d) k of None \<Rightarrow> [] | Some i \<Rightarrow> as_u64 i # inodes_read ks d)"

fun inodes_write :: "string list \<Rightarrow> index_db \<Rightarrow> store_error + (64 word list \<times> index_db)" where
  "inodes_write [] d = Inr ([], d)"
| "inodes_write (k # ks) d =
     and_then (inode_write k d) (\<lambda>(i, d).
     and_then (inodes_write ks d) (\<lambda>(is, d). Inr (i # is, d)))"

definition inodes :: "string list \<Rightarrow> index_db \<Rightarrow> index_db \<Rightarrow> store_error + (64 word list \<times> index_db)" where
  "inodes ks d e =
     (let result = inodes_read ks d
      in if length result = length ks then Inr (result, e) else inodes_write ks e)"

definition health :: "scope \<Rightarrow> index_db \<Rightarrow> string option" where
  "health s d = fmlookup (health_tbl d) s"

definition set_health :: "scope \<Rightarrow> string \<Rightarrow> index_db \<Rightarrow> index_db" where
  "set_health s body d = d\<lparr>health_tbl := fmupd s body (health_tbl d)\<rparr>"

definition subscribe :: "scope \<Rightarrow> string \<Rightarrow> index_db \<Rightarrow> index_db" where
  "subscribe s root d = d\<lparr>subscriptions_tbl := finsert (account s, collection s, root) (subscriptions_tbl d)\<rparr>"

definition subscriptions :: "string \<Rightarrow> index_db \<Rightarrow> (string \<times> string) list" where
  "subscriptions acct d = map snd (filter (\<lambda>(a, _). a = acct) (sorted_list_of_fset (subscriptions_tbl d)))"

definition replace_subscriptions :: "string \<Rightarrow> (string \<times> string) fset \<Rightarrow> index_db \<Rightarrow> index_db" where
  "replace_subscriptions acct roots d =
     d\<lparr>subscriptions_tbl := ffilter (\<lambda>(a, _). a \<noteq> acct) (subscriptions_tbl d) |\<union>| ((\<lambda>r. (acct, r)) |`| roots)\<rparr>"

section \<open>Visible nodes are the resolved ones\<close>

lemma set_visible_rows: "(i, n) \<in> set (visible_rows d s) \<longleftrightarrow> node_on d s i = Some n"
  by (force simp: visible_rows_def node_on_def split: option.splits)

lemma distinct_visible_rows: "distinct (map fst (visible_rows d s))"
proof -
  have f: "map fst (map (\<lambda>(i, ob). (i, ob_body ob)) xs) = map fst xs" for xs :: "(string \<times> observed_row) list"
    by (induction xs) auto
  have "distinct (map fst (map (\<lambda>(i, ob). (i, ob_body ob)) (scope_rows s (observed d))
        @ filter (\<lambda>(i, n). fmlookup (observed d) (s, i) = None) (scope_rows s (nodes d))))"
    unfolding map_append f distinct_append
    by (auto simp: fst_scope_rows distinct_map_rows set_scope_ids)
  then show ?thesis
    unfolding visible_rows_def by (rule distinct_map_filter)
qed

lemma visible_nodes_ids:
  assumes "bodies_ok d"
  shows "map node_id (visible_nodes d s) = sorted_list_of_set {i. node_on d s i \<noteq> None}"
proof -
  let ?rows = "sort_key fst (visible_rows d s)"
  have "map node_id (visible_nodes d s) = map fst ?rows"
    unfolding visible_nodes_def map_map
  proof (rule map_cong [OF refl])
    fix r
    assume "r \<in> set ?rows"
    then have "node_on d s (fst r) = Some (snd r)"
      using set_visible_rows [of "fst r" "snd r" d s] by simp
    then show "(node_id \<circ> snd) r = fst r"
      using node_on_id [OF assms] by simp
  qed
  moreover have "distinct (map fst ?rows)"
    using distinct_visible_rows [of d s] mset_eq_imp_distinct_iff [of "map fst ?rows" "map fst (visible_rows d s)"] by simp
  moreover have "set (map fst ?rows) = {i. node_on d s i \<noteq> None}"
    using set_visible_rows [of _ _ d s] by force
  ultimately show ?thesis
    by (metis sorted_list_of_set.idem_if_sorted_distinct sorted_sort_key)
qed

section \<open>Ancestry chains\<close>

text \<open>A chain of resolved nodes from an item up to, and without, the root.\<close>

fun is_chain :: "(string \<Rightarrow> node option) \<Rightarrow> string \<Rightarrow> string \<Rightarrow> node list \<Rightarrow> bool" where
  "is_chain look root i [] = False"
| "is_chain look root i (n # ns) =
     (look i = Some n \<and> node_id n = i \<and>
      (case parent_id n of None \<Rightarrow> False
       | Some p \<Rightarrow> if p = root then ns = [] else is_chain look root p ns))"

text \<open>What the loop resolves: the index, or the supplied leaf for an item it has no row of.\<close>

definition with_leaf :: "db \<Rightarrow> scope \<Rightarrow> node option \<Rightarrow> string \<Rightarrow> node option" where
  "with_leaf d s leaf i = (case node_on d s i of
       Some n \<Rightarrow> Some n
     | None \<Rightarrow> (case leaf of None \<Rightarrow> None | Some n \<Rightarrow> if indexed_id d s i then None else Some n))"

lemma is_chain_cong:
  "\<forall>n \<in> set ns. look (node_id n) = look' (node_id n) \<Longrightarrow> ns \<noteq> [] \<Longrightarrow> look i = look' i \<Longrightarrow>
     is_chain look root i ns \<longleftrightarrow> is_chain look' root i ns"
proof (induction ns arbitrary: i)
  case (Cons n ns)
  show ?case
  proof (cases "parent_id n")
    case (Some p)
    have "is_chain look root p ns \<longleftrightarrow> is_chain look' root p ns"
    proof (cases ns)
      case ns: (Cons m ms)
      then show ?thesis
        using Cons.IH [of p] Cons.prems(1) by (cases "node_id m = p") auto
    qed simp
    then show ?thesis
      using Cons.prems Some by simp
  qed simp
qed simp

lemma chain_loop_Some:
  "chain_loop d s root fuel None seen chain i = Some res \<longleftrightarrow>
     (\<exists>ns. res = chain @ ns \<and> is_chain (node_on d s) root i ns \<and> length ns \<le> fuel
        \<and> distinct (map node_id ns) \<and> set (map node_id ns) \<inter> set seen = {})"
proof (induction fuel arbitrary: seen chain i)
  case 0
  show ?case
    by (auto elim: is_chain.elims)
next
  case (Suc fuel)
  show ?case
  proof (cases "\<exists>n p. i \<notin> set seen \<and> node_on d s i = Some n \<and> node_id n = i \<and> parent_id n = Some p")
    case True
    then obtain n p where n: "i \<notin> set seen" "node_on d s i = Some n" "node_id n = i" "parent_id n = Some p"
      by blast
    have split: "(\<exists>ns. res = chain @ ns \<and> is_chain (node_on d s) root i ns \<and> Q ns) \<longleftrightarrow>
        (if p = root then res = chain @ [n] \<and> Q [n]
         else \<exists>ns. res = (chain @ [n]) @ ns \<and> is_chain (node_on d s) root p ns \<and> Q (n # ns))" for Q
    proof -
      have "is_chain (node_on d s) root i ns \<longleftrightarrow>
          (\<exists>ms. ns = n # ms \<and> (if p = root then ms = [] else is_chain (node_on d s) root p ms))" for ns
        using n by (cases ns) auto
      then show ?thesis
        by auto
    qed
    show ?thesis
      using n unfolding split by (auto simp: Suc.IH)
  next
    case False
    then have "chain_loop d s root (Suc fuel) None seen chain i = None"
      by (auto split: option.splits)
    moreover have "\<not> (is_chain (node_on d s) root i ns \<and> set (map node_id ns) \<inter> set seen = {})" for ns
      using False by (cases ns) (auto split: option.splits)
    ultimately show ?thesis
      by auto
  qed
qed

lemma node_chain_Some:
  "node_chain_to_root_impl d s item root leaf = Some ns \<longleftrightarrow>
     item \<noteq> [] \<and> root \<noteq> [] \<and> item \<noteq> root
     \<and> is_chain (\<lambda>i. if i = item then with_leaf d s leaf i else node_on d s i) root item ns
     \<and> length ns \<le> 128 \<and> distinct (map node_id ns)"
proof (cases "item = [] \<or> root = [] \<or> item = root")
  case True
  then show ?thesis
    by (auto simp: node_chain_to_root_impl_def)
next
  case ok: False
  let ?look = "\<lambda>i. if i = item then with_leaf d s leaf i else node_on d s i"
  have n128: "(128 :: nat) = Suc 127"
    by simp
  have unfold: "chain_loop d s root 128 leaf [] [] item =
      (case with_leaf d s leaf item of None \<Rightarrow> None | Some n \<Rightarrow>
         if node_id n \<noteq> item then None
         else case parent_id n of None \<Rightarrow> None
           | Some p \<Rightarrow> if p = root then Some [n] else chain_loop d s root 127 None [item] [n] p)"
    unfolding n128 chain_loop.simps(2) with_leaf_def append_Nil by simp
  have tail: "is_chain ?look root p ms \<and> distinct (item # map node_id ms) \<longleftrightarrow>
      is_chain (node_on d s) root p ms \<and> distinct (item # map node_id ms)" for p ms
  proof -
    have "is_chain ?look root p ms \<longleftrightarrow> is_chain (node_on d s) root p ms" if "item \<notin> set (map node_id ms)"
    proof (cases ms)
      case (Cons m rest)
      show ?thesis
      proof (cases "node_id m = p")
        case True
        then show ?thesis
          using that Cons by (intro is_chain_cong) auto
      qed (simp add: Cons)
    qed simp
    then show ?thesis
      by auto
  qed
  show ?thesis
  proof (cases ns)
    case Nil
    then show ?thesis
      using ok unfold by (auto simp: node_chain_to_root_impl_def chain_loop_Some split: option.splits if_splits)
  next
    case (Cons n ms)
    then show ?thesis
      using ok tail [of _ ms] unfold
      by (auto simp: node_chain_to_root_impl_def chain_loop_Some split: option.splits if_splits)
  qed
qed

section \<open>Inodes\<close>

definition inodes_ok :: "index_db \<Rightarrow> bool" where
  "inodes_ok d \<longleftrightarrow> 1 \<le> inode_seq d \<and> inode_seq d \<le> i64_max
     \<and> (\<forall>k i. fmlookup (inodes_tbl d) k = Some i \<longrightarrow> 1 \<le> i \<and> i \<le> inode_seq d)
     \<and> (\<forall>k l i. fmlookup (inodes_tbl d) k = Some i \<longrightarrow> fmlookup (inodes_tbl d) l = Some i \<longrightarrow> k = l)"

definition inodes_extend :: "index_db \<Rightarrow> index_db \<Rightarrow> bool" where
  "inodes_extend d e \<longleftrightarrow> (\<forall>k i. fmlookup (inodes_tbl d) k = Some i \<longrightarrow> fmlookup (inodes_tbl e) k = Some i)"

lemma inodes_extend_refl [simp]: "inodes_extend d d"
  by (simp add: inodes_extend_def)

lemma inodes_extend_trans: "inodes_extend d e \<Longrightarrow> inodes_extend e f \<Longrightarrow> inodes_extend d f"
  by (simp add: inodes_extend_def)

lemma inode_insert_ok:
  assumes "inodes_ok d" and "fmlookup (inodes_tbl d) k = None" and "inode_seq d < i64_max"
  shows "inodes_ok (d\<lparr>inodes_tbl := fmupd k (inode_seq d + 1) (inodes_tbl d), inode_seq := inode_seq d + 1\<rparr>)"
proof -
  have b: "1 \<le> i" "i \<le> inode_seq d" if "fmlookup (inodes_tbl d) l = Some i" for l i
    using assms(1) that unfolding inodes_ok_def by blast+
  have fresh: "fmlookup (inodes_tbl d) l \<noteq> Some (inode_seq d + 1)" for l
    using b(2) by fastforce
  have inj: "k = l" if "fmlookup (inodes_tbl d) k = Some i" "fmlookup (inodes_tbl d) l = Some i" for k l i
    using assms(1) that unfolding inodes_ok_def by blast
  show ?thesis
    using assms b fresh inj by (fastforce simp: inodes_ok_def)
qed

lemma inode_write_ok:
  assumes "inodes_ok d" and "inode_write k d = Inr (i, d')"
  shows "inodes_ok d'" and "inodes_extend d d'"
    and "\<exists>j. fmlookup (inodes_tbl d') k = Some j \<and> i = as_u64 j"
  using assms inode_insert_ok [of d k]
  by (auto simp: inode_write_def insert_inode_def Let_def inodes_extend_def split: option.splits if_splits)

lemma inodes_write_ok:
  assumes "inodes_ok d" and "inodes_write ks d = Inr (is, d')"
  shows "inodes_ok d' \<and> inodes_extend d d' \<and> map Some is = map (\<lambda>k. map_option as_u64 (fmlookup (inodes_tbl d') k)) ks"
  using assms
proof (induction ks arbitrary: d "is")
  case (Cons k ks)
  obtain i e js where e: "inode_write k d = Inr (i, e)" "inodes_write ks e = Inr (js, d')" "is = i # js"
    using Cons.prems(2) by (auto simp: result_simps)
  note w = inode_write_ok [OF Cons.prems(1) e(1)]
  note r = Cons.IH [OF w(1) e(2)]
  show ?case
    using w r e(3) inodes_extend_trans [OF w(2)] by (auto simp: inodes_extend_def)
qed simp

lemma inodes_read_all:
  "length (inodes_read ks d) = length ks \<Longrightarrow>
     map Some (inodes_read ks d) = map (\<lambda>k. map_option as_u64 (fmlookup (inodes_tbl d) k)) ks"
  by (induction ks) (auto split: option.splits)

datatype index_op = OpInode string | OpInodes "string list" | OpSetHealth scope string
  | OpSubscribe scope string | OpReplaceSubscriptions string "(string \<times> string) fset"

fun index_exec :: "index_op \<Rightarrow> index_db \<Rightarrow> index_db" where
  "index_exec (OpInode k) d = (case inode_write k d of Inl _ \<Rightarrow> d | Inr (_, d') \<Rightarrow> d')"
| "index_exec (OpInodes ks) d = (case inodes_write ks d of Inl _ \<Rightarrow> d | Inr (_, d') \<Rightarrow> d')"
| "index_exec (OpSetHealth s body) d = set_health s body d"
| "index_exec (OpSubscribe s root) d = subscribe s root d"
| "index_exec (OpReplaceSubscriptions a roots) d = replace_subscriptions a roots d"

interpretation index: evolving_machine index_exec inodes_ok inodes_extend
proof
  fix op d
  assume ok: "inodes_ok d"
  show "inodes_ok (index_exec op d)"
    using ok inode_write_ok(1) [OF ok] inodes_write_ok [OF ok]
    by (cases op) (auto simp: set_health_def subscribe_def replace_subscriptions_def inodes_ok_def split: sum.splits)
  show "inodes_extend d (index_exec op d)"
    using inode_write_ok(2) [OF ok] inodes_write_ok [OF ok]
    by (cases op) (auto simp: set_health_def subscribe_def replace_subscriptions_def inodes_extend_def split: sum.splits)
qed (auto intro: inodes_extend_trans)

lemma inodes_ok_empty [simp]: "inodes_ok empty_index"
  by (auto simp: inodes_ok_def empty_index_def i64_max_def split: if_splits)

lemma as_u64_inj:
  assumes "inodes_ok d" and "fmlookup (inodes_tbl d) k = Some i" and "fmlookup (inodes_tbl d) l = Some j"
  shows "as_u64 i = as_u64 j \<longleftrightarrow> k = l"
proof -
  have b: "0 \<le> i" "i \<le> i64_max" "0 \<le> j" "j \<le> i64_max"
    using assms unfolding inodes_ok_def by (meson order_trans zero_le_one)+
  then have "as_u64 i = as_u64 j \<longleftrightarrow> i = j"
    by (metis uint_as_u64)
  then show ?thesis
    using assms unfolding inodes_ok_def by (metis option.inject)
qed

lemma inode_ok:
  assumes "inodes_ok d" and "inodes_ok e" and "inodes_extend d e" and "inode k d e = Inr (i, f)"
  shows "inodes_ok f" and "inodes_extend e f" and "\<exists>j. fmlookup (inodes_tbl f) k = Some j \<and> i = as_u64 j"
proof -
  show "inodes_ok f" "inodes_extend e f" "\<exists>j. fmlookup (inodes_tbl f) k = Some j \<and> i = as_u64 j"
    using assms inode_write_ok [of e k i f] by (auto simp: inode_def inodes_extend_def split: option.splits)
qed

lemma inodes_all:
  assumes "inodes_ok e" and "inodes_extend d e" and "inodes ks d e = Inr (is, f)"
  shows "map Some is = map (\<lambda>k. map_option as_u64 (fmlookup (inodes_tbl f) k)) ks"
proof (cases "length (inodes_read ks d) = length ks")
  case True
  then have f: "is = inodes_read ks d" "f = e"
    using assms(3) by (auto simp: inodes_def)
  have "map_option as_u64 (fmlookup (inodes_tbl d) k) = map_option as_u64 (fmlookup (inodes_tbl e) k)" if "k \<in> set ks" for k
  proof -
    have "Some ` set is = (\<lambda>k. map_option as_u64 (fmlookup (inodes_tbl d) k)) ` set ks"
      using inodes_read_all [OF True] f(1) by (metis list.set_map)
    then have "map_option as_u64 (fmlookup (inodes_tbl d) k) \<in> Some ` set is"
      using that by blast
    then show ?thesis
      using assms(2) by (auto simp: inodes_extend_def)
  qed
  then show ?thesis
    using inodes_read_all [OF True] f by simp
next
  case False
  then show ?thesis
    using inodes_write_ok [OF assms(1)] assms(3) by (simp add: inodes_def)
qed

lemma batch_zip:
  "map Some is = map (\<lambda>k. map_option as_u64 (fmlookup (inodes_tbl f) k)) ks \<Longrightarrow>
     map Inr (zip is (replicate (length is) f)) = map (\<lambda>k. inode k f f) ks"
proof (induction ks arbitrary: "is")
  case (Cons k ks)
  then show ?case
    by (cases "is"; cases "fmlookup (inodes_tbl f) k") (auto simp: inode_def)
qed simp

lemma sorted_group:
  "sorted (rows :: (string \<times> string \<times> string) list) \<Longrightarrow> sorted (map snd (filter (\<lambda>(b, _). b = a) rows))"
  by (induction rows) (auto simp: less_eq_prod_def)

lemma distinct_group: "distinct rows \<Longrightarrow> distinct (map snd (filter (\<lambda>(b, _). b = a) rows))"
  by (induction rows) auto

lemma subscriptions_rows: "subscriptions a d = sorted_list_of_set {r. (a, r) |\<in>| subscriptions_tbl d}"
proof -
  let ?rows = "sorted_list_of_fset (subscriptions_tbl d)"
  have "set (subscriptions a d) = {r. (a, r) |\<in>| subscriptions_tbl d}"
    by (force simp: subscriptions_def)
  moreover have "sorted (subscriptions a d)"
    unfolding subscriptions_def by (rule sorted_group) (simp add: sorted_list_of_fset.rep_eq)
  moreover have "distinct (subscriptions a d)"
    unfolding subscriptions_def by (rule distinct_group) (simp add: sorted_list_of_fset.rep_eq)
  ultimately show ?thesis
    by (metis sorted_list_of_set.idem_if_sorted_distinct)
qed

lemma subs_replaced:
  "{r. (a, r) |\<in>| subscriptions_tbl (replace_subscriptions acct roots d)} =
     (if a = acct then fset roots else {r. (a, r) |\<in>| subscriptions_tbl d})"
  by (auto simp: replace_subscriptions_def)

section \<open>Shortcuts\<close>

definition parent_of :: "db \<Rightarrow> scope \<Rightarrow> string \<Rightarrow> string \<Rightarrow> bool" where
  "parent_of d s i p \<longleftrightarrow> (\<exists>n. fmlookup (nodes d) (s, i) = Some n \<and> parent_id n = Some p)"

lemma is_chain_unique:
  "is_chain look root i ns \<Longrightarrow> is_chain look root i ms \<Longrightarrow> ns = ms"
proof (induction ns arbitrary: i ms)
  case (Cons n ns)
  then show ?case
    by (cases ms) (auto split: option.splits if_splits)
qed simp

lemma is_chain_suffix: "is_chain look root i (xs @ m # ys) \<Longrightarrow> is_chain look root (node_id m) (m # ys)"
proof (induction xs arbitrary: i)
  case (Cons x xs)
  then obtain p where "is_chain look root p (xs @ m # ys)"
    by (auto split: option.splits if_splits)
  then show ?case
    by (rule Cons.IH)
qed auto

lemma is_chain_distinct: "is_chain look root i ns \<Longrightarrow> distinct (map node_id ns)"
proof (induction ns arbitrary: i)
  case (Cons n ns)
  have "node_id n \<noteq> node_id m" if m: "m \<in> set ns" for m
  proof
    assume eq: "node_id n = node_id m"
    obtain xs ys where "ns = xs @ m # ys"
      using m by (meson split_list)
    then have "is_chain look root (node_id m) (m # ys)" "is_chain look root (node_id m) (n # xs @ m # ys)"
      using Cons.prems eq is_chain_suffix [of look root i "n # xs" m ys] by auto
    from is_chain_unique [OF this] show False
      by (metis append_Cons append_eq_append_conv2 append_self_conv2 list.distinct(1) not_Cons_self2 same_append_eq
          self_append_conv2)
  qed
  moreover have "distinct (map node_id ns)"
    using Cons by (cases ns) (auto split: option.splits if_splits)
  ultimately show ?case
    by auto
qed simp

lemma is_chain_look: "is_chain look root i ns \<Longrightarrow> n \<in> set ns \<Longrightarrow> look (node_id n) = Some n"
  by (induction ns arbitrary: i) (auto split: option.splits if_splits)

lemma chain_of_reach:
  assumes "bodies_ok d" and "(parent_of d s)\<^sup>*\<^sup>* i root"
  shows "i = root \<or> (\<exists>ns. is_chain (\<lambda>i. fmlookup (nodes d) (s, i)) root i ns)"
  using assms(2)
proof (induction rule: converse_rtranclp_induct)
  case (step i p)
  then obtain n where n: "fmlookup (nodes d) (s, i) = Some n" "parent_id n = Some p" "node_id n = i"
    using bodiesD(1) [OF assms(1)] by (auto simp: parent_of_def)
  show ?case
  proof (cases "p = root")
    case True
    then have "is_chain (\<lambda>i. fmlookup (nodes d) (s, i)) root i [n]"
      using n by simp
    then show ?thesis
      by blast
  next
    case False
    then obtain ns where "is_chain (\<lambda>i. fmlookup (nodes d) (s, i)) root p ns"
      using step.IH by blast
    then have "is_chain (\<lambda>i. fmlookup (nodes d) (s, i)) root i (n # ns)"
      using n False by simp
    then show ?thesis
      by blast
  qed
qed simp

lemma chain_length:
  assumes "is_chain (\<lambda>i. fmlookup (nodes d) (s, i)) root i ns"
  shows "length ns \<le> fcard (fmdom (nodes d))"
proof -
  have "set (map (\<lambda>n. (s, node_id n)) ns) \<subseteq> fset (fmdom (nodes d))"
    using is_chain_look [OF assms] by (auto intro: fmdomI)
  moreover have "distinct (map (\<lambda>n. (s, node_id n)) ns)"
    using is_chain_distinct [OF assms] by (simp add: distinct_map inj_on_def)
  ultimately have "length (map (\<lambda>n. (s, node_id n)) ns) \<le> card (fset (fmdom (nodes d)))"
    by (metis card_mono distinct_card finite_fset)
  then show ?thesis
    by (simp add: fcard.rep_eq)
qed

lemma walk_finds_root:
  assumes "is_chain (\<lambda>i. fmlookup (nodes d) (s, i)) root i ns" and "length ns \<le> fuel"
    and "set (map node_id ns) \<inter> set seen = {}"
  shows "list_ex (\<lambda>(j, p). j = root \<or> p = Some root) (ancestor_walk d s root fuel seen i)"
  using assms
proof (induction fuel arbitrary: i ns seen)
  case (Suc fuel)
  obtain n ms p where n: "ns = n # ms" "fmlookup (nodes d) (s, i) = Some n" "node_id n = i" "parent_id n = Some p"
    using Suc.prems(1) by (cases ns) (auto split: option.splits)
  have i: "i \<notin> set seen"
    using Suc.prems(3) n by auto
  show ?case
  proof (cases "p = root \<or> i = root")
    case True
    then show ?thesis
      using n i by auto
  next
    case False
    then have c: "is_chain (\<lambda>i. fmlookup (nodes d) (s, i)) root p ms"
      using Suc.prems(1) n by simp
    have "set (map node_id ms) \<inter> set (i # seen) = {}"
      using Suc.prems(3) is_chain_distinct [OF Suc.prems(1)] n by auto
    then show ?thesis
      using Suc.IH [OF c] Suc.prems(2) n i False by simp
  qed
qed (auto elim: is_chain.elims)

lemma walk_rows:
  assumes "(j, q) \<in> set (ancestor_walk d s root fuel seen i)"
  shows "(parent_of d s)\<^sup>*\<^sup>* i j \<and> (\<exists>n. fmlookup (nodes d) (s, j) = Some n \<and> parent_id n = q)"
  using assms
proof (induction fuel arbitrary: i seen)
  case (Suc fuel)
  then obtain n where n: "fmlookup (nodes d) (s, i) = Some n" "i \<notin> set seen"
    by (cases "fmlookup (nodes d) (s, i)"; cases "i \<in> set seen") auto
  then consider "(j, q) = (i, parent_id n)"
    | p where "parent_id n = Some p" "(j, q) \<in> set (ancestor_walk d s root fuel (i # seen) p)"
    using Suc.prems by (auto split: option.splits if_splits)
  then show ?case
  proof cases
    case 1
    then show ?thesis
      using n by simp
  next
    case (2 p)
    then have "parent_of d s i p"
      using n by (simp add: parent_of_def)
    with Suc.IH [OF 2(2)] show ?thesis
      by (blast intro: converse_rtranclp_into_rtranclp)
  qed
qed simp

lemma walk_iff:
  assumes "bodies_ok d" and "fmlookup (nodes d) (s, i) = Some n"
  shows "list_ex (\<lambda>(j, p). j = root \<or> p = Some root) (ancestor_walk d s root (Suc (fcard (fmdom (nodes d)))) [] i)
    \<longleftrightarrow> (parent_of d s)\<^sup>*\<^sup>* i root"
proof
  assume "list_ex (\<lambda>(j, p). j = root \<or> p = Some root) (ancestor_walk d s root (Suc (fcard (fmdom (nodes d)))) [] i)"
  then obtain j q where "(j, q) \<in> set (ancestor_walk d s root (Suc (fcard (fmdom (nodes d)))) [] i)" "j = root \<or> q = Some root"
    by (auto simp: list_ex_iff)
  then show "(parent_of d s)\<^sup>*\<^sup>* i root"
    using walk_rows by (metis parent_of_def rtranclp.rtrancl_into_rtrancl)
next
  assume "(parent_of d s)\<^sup>*\<^sup>* i root"
  then consider "i = root" | ns where "is_chain (\<lambda>i. fmlookup (nodes d) (s, i)) root i ns"
    using chain_of_reach [OF assms(1)] by blast
  then show "list_ex (\<lambda>(j, p). j = root \<or> p = Some root) (ancestor_walk d s root (Suc (fcard (fmdom (nodes d)))) [] i)"
  proof cases
    case 1
    then show ?thesis
      using assms(2) by simp
  next
    case 2
    then show ?thesis
      using walk_finds_root [OF 2, of "Suc (fcard (fmdom (nodes d)))" "[]"] chain_length [OF 2] by simp
  qed
qed

section \<open>Guarantees\<close>

text \<open>The shortcut query returns exactly the shortcuts of the index whose parents
  lead to the root, in identity order, also when the stored parents form cycles.\<close>

theorem shortcuts_under_exact:
  assumes "store_ok d"
  shows "n \<in> set (shortcuts_under d s root) \<longleftrightarrow>
    fmlookup (nodes d) (s, node_id n) = Some n \<and> node_target n \<noteq> None \<and> (parent_of d s)\<^sup>*\<^sup>* (node_id n) root"
proof -
  have b: "bodies_ok d"
    using assms by (simp add: store_ok_def)
  have "n \<in> set (shortcuts_under d s root) \<longleftrightarrow>
      (\<exists>i. fmlookup (nodes d) (s, i) = Some n \<and> node_target n \<noteq> None \<and> (parent_of d s)\<^sup>*\<^sup>* i root)"
  proof -
    have "n \<in> set (shortcuts_under d s root) \<longleftrightarrow>
        (\<exists>i. fmlookup (nodes d) (s, i) = Some n \<and> node_target n \<noteq> None
           \<and> list_ex (\<lambda>(j, p). j = root \<or> p = Some root) (ancestor_walk d s root (Suc (fcard (fmdom (nodes d)))) [] i))"
      by (auto simp del: ancestor_walk.simps simp: shortcuts_under_def image_iff)
    then show ?thesis
      using walk_iff [OF b] by metis
  qed
  then show ?thesis
    using bodiesD(1) [OF b] by metis
qed

text \<open>the visible nodes of a scope are exactly the items that resolve, each as the
  node it resolves to, once and in identity order.\<close>

theorem visible_nodes_exact:
  assumes "store_ok d"
  shows "(n \<in> set (visible_nodes d s) \<longleftrightarrow> node_on d s (node_id n) = Some n)
    \<and> sorted (map node_id (visible_nodes d s)) \<and> distinct (map node_id (visible_nodes d s))"
proof -
  have b: "bodies_ok d"
    using assms by (simp add: store_ok_def)
  have "n \<in> set (visible_nodes d s) \<longleftrightarrow> (\<exists>i. (i, n) \<in> set (visible_rows d s))"
    by (force simp: visible_nodes_def)
  then have "n \<in> set (visible_nodes d s) \<longleftrightarrow> node_on d s (node_id n) = Some n"
    unfolding set_visible_rows using node_on_id [OF b] by metis
  then show ?thesis
    unfolding visible_nodes_ids [OF b] by simp
qed

text \<open>C36: over any history of the index, an inode handed out for a key is the inode of
  that key for ever, and of no other key, whatever the allocator read before it
  reserved the writer and whatever committed in between.\<close>

theorem inode_identity_stable:
  assumes "d = fold index_exec before empty_index" and "e = fold index_exec between d"
    and "inode k d e = Inr (i, f)" and "g = fold index_exec after f"
  shows "inode k g g = Inr (i, g) \<and> (\<forall>l j. inode l g g = Inr (j, g) \<longrightarrow> (j = i \<longleftrightarrow> l = k))"
proof -
  have d: "inodes_ok d"
    unfolding assms(1) by (rule index.run_inv) simp
  have e: "inodes_ok e" "inodes_extend d e"
    unfolding assms(2) using d by (auto intro: index.run_inv index.run_evolves)
  note f = inode_ok [OF d e assms(3)]
  have g: "inodes_ok g" "inodes_extend f g"
    unfolding assms(4) using f by (auto intro: index.run_inv index.run_evolves)
  obtain m where m: "fmlookup (inodes_tbl g) k = Some m" "i = as_u64 m"
    using f(3) g(2) by (auto simp: inodes_extend_def)
  have "j = i \<longleftrightarrow> l = k" if j: "inode l g g = Inr (j, g)" for l j
  proof -
    obtain m' where "fmlookup (inodes_tbl g) l = Some m'" "j = as_u64 m'"
      using inode_ok(3) [OF g(1) g(1) inodes_extend_refl j] by blast
    then show ?thesis
      using as_u64_inj [OF g(1), of l m' k m] m by simp
  qed
  then show ?thesis
    using m by (simp add: inode_def)
qed

text \<open>the batch allocator answers each key, in order and with repetitions, with the
  inode the single allocator answers for it afterwards.\<close>

theorem inodes_agrees_with_inode:
  assumes "d = fold index_exec before empty_index" and "e = fold index_exec between d"
    and "inodes ks d e = Inr (is, f)"
  shows "map Inr (zip is (replicate (length is) f)) = map (\<lambda>k. inode k f f) ks"
proof -
  have d: "inodes_ok d"
    unfolding assms(1) by (rule index.run_inv) simp
  have e: "inodes_ok e" "inodes_extend d e"
    unfolding assms(2) using d by (auto intro: index.run_inv index.run_evolves)
  have "map Some is = map (\<lambda>k. map_option as_u64 (fmlookup (inodes_tbl f) k)) ks"
    by (rule inodes_all [OF e assms(3)])
  then show ?thesis
    by (rule batch_zip)
qed

text \<open>C35: an ancestry chain is returned exactly when the resolved parents lead from the
  item to the root within 128 steps and without a repetition, and it is that
  chain: every node resolves under its own identity, each next node is the
  parent of the one before, and only the last one's parent is the root. The
  caller's leaf stands in only for an item the index has no row of.\<close>

theorem node_chain_exact:
  "node_chain_to_root_impl d s item root leaf = Some ns \<longleftrightarrow>
     item \<noteq> [] \<and> root \<noteq> [] \<and> item \<noteq> root
     \<and> is_chain (\<lambda>i. if i = item then with_leaf d s leaf i else node_on d s i) root item ns
     \<and> length ns \<le> 128 \<and> distinct (map node_id ns)"
  by (rule node_chain_Some)

text \<open>replacing an account's subscriptions leaves exactly the given roots for it, in
  order, and no other account's.\<close>

theorem replace_subscriptions_exact:
  "subscriptions a (replace_subscriptions acct roots d) =
     (if a = acct then sorted_list_of_fset roots else subscriptions a d)"
  by (simp add: subscriptions_rows subs_replaced sorted_list_of_fset.rep_eq)

section \<open>Concrete instances\<close>

text \<open>A scope with a folder, a shortcut in it, and an observation that renames the folder.\<close>

definition demo_folder :: node where
  "demo_folder = (demo_file ''f'' ''Docs'')\<lparr>node_kind := Folder\<rparr>"

definition demo_shortcut :: node where
  "demo_shortcut = (demo_file ''s'' ''Link'')\<lparr>parent_id := Some ''f'',
     node_target := Some \<lparr>ref_collection = ''drive2'', ref_item = ''t'', ref_kind = None\<rparr>\<rparr>"

definition demo_index_world :: world where
  "demo_index_world = fold world_exec
     [OpBegin demo False,
      OpStage demo None \<lparr>page_changes = [Upsert demo_folder, Upsert demo_shortcut], page_checkpoint = Complete ''c''\<rparr>,
      OpObserveNode 4 demo (demo_folder\<lparr>node_name := ''Papers''\<rparr>)] (new_world ''db'')"

lemma demo_index_ok: "store_ok (w_db demo_index_world)"
proof -
  have "world_ok demo_index_world"
    unfolding demo_index_world_def by (rule store.run_inv) simp
  then show ?thesis
    by (simp add: world_ok_def)
qed

theorem shortcuts_under_exact_witness: "(parent_of (w_db demo_index_world) demo)\<^sup>*\<^sup>* ''s'' ''root''"
proof -
  have "demo_shortcut \<in> set (shortcuts_under (w_db demo_index_world) demo ''root'')"
    by code_simp
  then show ?thesis
    using shortcuts_under_exact [OF demo_index_ok, of demo_shortcut demo "''root''"]
    by (simp add: demo_shortcut_def demo_file_def)
qed

theorem visible_nodes_exact_witness:
  "node_on (w_db demo_index_world) demo ''f'' = Some (demo_folder\<lparr>node_name := ''Papers''\<rparr>)"
proof -
  have "demo_folder\<lparr>node_name := ''Papers''\<rparr> \<in> set (visible_nodes (w_db demo_index_world) demo)"
    by code_simp
  then show ?thesis
    using visible_nodes_exact [OF demo_index_ok, of "demo_folder\<lparr>node_name := ''Papers''\<rparr>" demo]
    by (simp add: demo_folder_def demo_file_def)
qed

text \<open>Another allocator commits between the read and the write.\<close>

theorem inode_identity_stable_witness:
  "let d = fold index_exec [OpInode ''x''] empty_index; e = fold index_exec [OpInodes [''k'', ''y'']] d;
       f = (case inode ''k'' d e of Inl _ \<Rightarrow> e | Inr (_, f) \<Rightarrow> f); g = fold index_exec [OpInode ''z''] f
   in inode ''k'' d e = Inr (3, f) \<and> inode ''k'' g g = Inr (3, g)"
proof -
  define d where "d = fold index_exec [OpInode ''x''] empty_index"
  define e where "e = fold index_exec [OpInodes [''k'', ''y'']] d"
  define f where "f = (case inode ''k'' d e of Inl _ \<Rightarrow> e | Inr (_, f) \<Rightarrow> f)"
  define g where "g = fold index_exec [OpInode ''z''] f"
  have "case inode ''k'' d e of Inl _ \<Rightarrow> False | Inr (i, _) \<Rightarrow> i = 3"
    unfolding e_def d_def by code_simp
  then have i: "inode ''k'' d e = Inr (3, f)"
    by (auto simp: f_def split: sum.splits)
  from inode_identity_stable [OF d_def e_def i g_def] i show ?thesis
    unfolding d_def e_def f_def g_def Let_def by blast
qed

theorem inodes_agrees_with_inode_witness:
  "\<exists>is f. inodes [''b'', ''a'', ''b''] empty_index empty_index = Inr (is, f)
     \<and> map Inr (zip is (replicate (length is) f)) = map (\<lambda>k. inode k f f) [''b'', ''a'', ''b'']"
proof -
  have "case inodes [''b'', ''a'', ''b''] empty_index empty_index of Inl _ \<Rightarrow> False | Inr _ \<Rightarrow> True"
    by code_simp
  then obtain "is" f where "inodes [''b'', ''a'', ''b''] empty_index empty_index = Inr (is, f)"
    by (auto split: sum.splits)
  then show ?thesis
    using inodes_agrees_with_inode [of empty_index "[]" empty_index "[]"] by (auto simp del: list.map)
qed

end
