(* ===== verification/Store_Pool.thy ===== *)
theory Store_Pool
  imports Cirrove_Prelude
begin

text \<open>
  The process-wide pool of database connections of \<open>cirrove-store/src/lib.rs\<close>:
  the counts per database, handing out and giving back connections, and a machine
  whose state also keeps the stores that are open, so that the counts can be
  compared with them.
\<close>

section \<open>The pool\<close>

text \<open>A connection is known by a number no other connection has and by its database.\<close>

record connection =
  conn_id :: nat
  conn_path :: string

record shared =
  live :: nat
  idle :: "connection list"

type_synonym pool = "(string, shared) fmap"

definition idle_per_database :: nat where
  "idle_per_database = 24"

definition default_shared :: shared where
  "default_shared = \<lparr>live = 0, idle = []\<rparr>"

text \<open>\<open>Vec::pop\<close> takes the last element.\<close>

definition check_out :: "string \<Rightarrow> pool \<Rightarrow> connection option \<times> pool" where
  "check_out key p =
     (case fmlookup p key of
        None \<Rightarrow> (None, p)
      | Some e \<Rightarrow>
          if idle e = [] then (None, p)
          else (Some (last (idle e)), fmupd key \<lparr>live = live e + 1, idle = butlast (idle e)\<rparr> p))"

definition count_built :: "string \<Rightarrow> pool \<Rightarrow> pool" where
  "count_built key p =
     (let e = (case fmlookup p key of None \<Rightarrow> default_shared | Some e \<Rightarrow> e)
      in fmupd key (e\<lparr>live := live e + 1\<rparr>) p)"

definition check_in :: "string \<Rightarrow> connection \<Rightarrow> pool \<Rightarrow> pool" where
  "check_in key db p =
     (case fmlookup p key of
        None \<Rightarrow> p
      | Some e \<Rightarrow>
          let e = e\<lparr>live := live e - 1\<rparr>
          in if live e > 0
             then fmupd key (if length (idle e) < idle_per_database then e\<lparr>idle := idle e @ [db]\<rparr> else e) p
             else fmdrop key p)"

definition check_in_closed :: "string \<Rightarrow> pool \<Rightarrow> pool" where
  "check_in_closed key p =
     (case fmlookup p key of
        None \<Rightarrow> p
      | Some e \<Rightarrow>
          let e = e\<lparr>live := live e - 1\<rparr>
          in if live e = 0 then fmdrop key p else fmupd key e p)"

record pooled =
  pdb :: "connection option"
  pkey :: "string option"

definition built :: "connection \<Rightarrow> string option \<Rightarrow> 64 word \<times> pool \<Rightarrow> pooled \<times> 64 word \<times> pool" where
  "built db key c =
     (\<lparr>pdb = Some db, pkey = key\<rparr>, fst c + 1,
      (case key of None \<Rightarrow> snd c | Some k \<Rightarrow> count_built k (snd c)))"

definition reused :: "connection \<Rightarrow> string \<Rightarrow> pooled" where
  "reused db key = \<lparr>pdb = Some db, pkey = Some key\<rparr>"

text \<open>\<open>Drop for Pooled\<close>; \<open>fit\<close> says that the connection is in autocommit mode and could be reset.\<close>

definition drop_pooled :: "bool \<Rightarrow> pooled \<Rightarrow> pool \<Rightarrow> pool" where
  "drop_pooled fit h p =
     (case (pdb h, pkey h) of
        (Some db, Some key) \<Rightarrow> if fit then check_in key db p else check_in_closed key p
      | _ \<Rightarrow> p)"

section \<open>Stores that come and go\<close>

text \<open>
  The pool together with the open stores. \<open>OpenStore\<close> is \<open>Store::open\<close>: it takes an
  idle connection or builds one; \<open>BuildStore\<close> is the second half of an open whose
  \<open>check_out\<close> found nothing earlier, other calls having run in between. Building a
  connection may fail, and then nothing changes.
\<close>

record connections =
  pool :: pool
  connections_built :: "64 word"
  stores :: "pooled list"
  fresh :: nat

definition new_process :: connections where
  "new_process = \<lparr>pool = fmempty, connections_built = 0, stores = [], fresh = 0\<rparr>"

definition build_store :: "string option \<Rightarrow> string \<Rightarrow> connections \<Rightarrow> connections" where
  "build_store key path c =
     (let (h, n, p) = built \<lparr>conn_id = fresh c, conn_path = path\<rparr> key (connections_built c, pool c)
      in \<lparr>pool = p, connections_built = n, stores = stores c @ [h], fresh = fresh c + 1\<rparr>)"

definition open_store :: "string option \<Rightarrow> string \<Rightarrow> bool \<Rightarrow> connections \<Rightarrow> connections" where
  "open_store key path builds c =
     (let build = (if builds then build_store key path c else c)
      in case key of
           None \<Rightarrow> build
         | Some k \<Rightarrow>
             (case check_out k (pool c) of
                (Some db, p) \<Rightarrow> c\<lparr>pool := p, stores := stores c @ [reused db k]\<rparr>
              | (None, _) \<Rightarrow> build))"

definition drop_store :: "nat \<Rightarrow> bool \<Rightarrow> connections \<Rightarrow> connections" where
  "drop_store i fit c =
     (if i < length (stores c)
      then c\<lparr>pool := drop_pooled fit (stores c ! i) (pool c), stores := take i (stores c) @ drop (Suc i) (stores c)\<rparr>
      else c)"

text \<open>\<open>pool_key\<close> names a database by its canonical path, so two keys are equal exactly
  when the databases are; an in-memory database has none.\<close>

datatype pool_op = OpenStore string bool | OpenPrivate string bool | BuildStore string | DropStore nat bool

fun pool_exec :: "pool_op \<Rightarrow> connections \<Rightarrow> connections" where
  "pool_exec (OpenStore k builds) c = open_store (Some k) k builds c"
| "pool_exec (OpenPrivate path builds) c = open_store None path builds c"
| "pool_exec (BuildStore k) c = build_store (Some k) k c"
| "pool_exec (DropStore i fit) c = drop_store i fit c"

section \<open>The invariant\<close>

definition held_on :: "string \<Rightarrow> connections \<Rightarrow> nat" where
  "held_on k c = length (filter (\<lambda>h. pkey h = Some k) (stores c))"

definition idle_on :: "string \<Rightarrow> connections \<Rightarrow> connection list" where
  "idle_on k c = (case fmlookup (pool c) k of None \<Rightarrow> [] | Some e \<Rightarrow> idle e)"

definition held_conns :: "string \<Rightarrow> connections \<Rightarrow> connection list" where
  "held_conns k c = filter (\<lambda>db. conn_path db = k) (map (the \<circ> pdb) (stores c))"

text \<open>The count of a database agrees with its open stores, and its entry exists only while one does.\<close>

definition entry_ok :: "nat \<Rightarrow> shared option \<Rightarrow> bool" where
  "entry_ok n e = (case e of
       None \<Rightarrow> n = 0
     | Some e \<Rightarrow> live e = n \<and> n > 0 \<and> length (idle e) \<le> idle_per_database)"

text \<open>No connection is in two places: not held by two stores, not idle twice, not both.\<close>

definition places_ok :: "string \<Rightarrow> connections \<Rightarrow> bool" where
  "places_ok k c \<longleftrightarrow> distinct (held_conns k c @ idle_on k c)
     \<and> set (idle_on k c) \<subseteq> {db. conn_path db = k}
     \<and> conn_id ` set (held_conns k c @ idle_on k c) \<subseteq> {..<fresh c}"

definition handle_ok :: "pooled \<Rightarrow> bool" where
  "handle_ok h = (case pdb h of None \<Rightarrow> False | Some db \<Rightarrow> pkey h \<in> {None, Some (conn_path db)})"

definition connections_ok :: "connections \<Rightarrow> bool" where
  "connections_ok c \<longleftrightarrow> (\<forall>k. entry_ok (held_on k c) (fmlookup (pool c) k) \<and> places_ok k c)
     \<and> list_all handle_ok (stores c)"

lemmas pool_defs = entry_ok_def held_on_def held_conns_def idle_on_def

lemma connections_new [simp]: "connections_ok new_process"
  by (simp add: connections_ok_def places_ok_def pool_defs new_process_def)

lemma filter_without: "i < length xs \<Longrightarrow>
    filter P xs = filter P (take i xs) @ (if P (xs ! i) then [xs ! i] else []) @ filter P (drop (Suc i) xs)"
  by (subst id_take_nth_drop [of i xs]) auto

lemma distinct_sub_mset: "mset xs \<subseteq># mset ys \<Longrightarrow> distinct ys \<Longrightarrow> distinct xs"
  by (metis distinct_append mset_append mset_eq_imp_distinct_iff ex_mset subset_mset.le_iff_add)

text \<open>The effect of each operation on one database's entry and on the stores.\<close>

lemma build_store_sel:
  "stores (build_store key path c) = stores c @ [\<lparr>pdb = Some \<lparr>conn_id = fresh c, conn_path = path\<rparr>, pkey = key\<rparr>]"
  "fresh (build_store key path c) = fresh c + 1"
  "fmlookup (pool (build_store key path c)) k =
     (if key = Some k
      then Some \<lparr>live = Suc (case fmlookup (pool c) k of None \<Rightarrow> 0 | Some e \<Rightarrow> live e), idle = idle_on k c\<rparr>
      else fmlookup (pool c) k)"
  by (auto simp: build_store_def built_def count_built_def default_shared_def idle_on_def Let_def
      split: option.split intro: shared.equality)

lemma idle_on_build [simp]: "idle_on k (build_store key path c) = idle_on k c"
  by (simp add: idle_on_def build_store_sel)

lemma entry_build:
  "entry_ok (held_on k c) (fmlookup (pool c) k) \<Longrightarrow>
     entry_ok (held_on k (build_store key path c)) (fmlookup (pool (build_store key path c)) k)"
  by (simp add: held_on_def entry_ok_def build_store_sel idle_on_def split: option.splits)

lemma places_build: "places_ok k c \<Longrightarrow> places_ok k (build_store key path c)"
proof -
  assume ok: "places_ok k c"
  let ?db = "\<lparr>conn_id = fresh c, conn_path = path\<rparr>"
  have h: "held_conns k (build_store key path c) = held_conns k c @ (if path = k then [?db] else [])"
    by (simp add: held_conns_def build_store_sel)
  have ids: "conn_id ` (set (held_conns k c) \<union> set (idle_on k c)) \<subseteq> {..<fresh c}"
    using ok by (simp add: places_ok_def)
  then have "?db \<notin> set (held_conns k c) \<union> set (idle_on k c)"
    by fastforce
  moreover have "conn_id ` (set (held_conns k c) \<union> set (idle_on k c)) \<subseteq> {..<Suc (fresh c)}"
    using ids by fastforce
  ultimately show ?thesis
    using ok by (auto simp: places_ok_def h build_store_sel(2))
qed

lemma check_out_Some:
  assumes "check_out l p = (Some db, p')"
  obtains e where "fmlookup p l = Some e" "idle e \<noteq> []" "db = last (idle e)"
    "p' = fmupd l \<lparr>live = live e + 1, idle = butlast (idle e)\<rparr> p"
  using assms by (auto simp: check_out_def split: option.splits if_splits)

lemma entry_reuse:
  assumes "check_out l (pool c) = (Some db, p)" and "entry_ok (held_on k c) (fmlookup (pool c) k)"
  shows "entry_ok (held_on k (c\<lparr>pool := p, stores := stores c @ [reused db l]\<rparr>)) (fmlookup p k)"
proof -
  obtain e where e: "fmlookup (pool c) l = Some e" "p = fmupd l \<lparr>live = live e + 1, idle = butlast (idle e)\<rparr> (pool c)"
    by (rule check_out_Some [OF assms(1)])
  show ?thesis
    using assms(2) e by (cases "k = l") (auto simp: held_on_def entry_ok_def reused_def)
qed

lemma places_reuse:
  assumes "check_out l (pool c) = (Some db, p)" and "places_ok k c" and "places_ok l c"
  shows "places_ok k (c\<lparr>pool := p, stores := stores c @ [reused db l]\<rparr>)" and "conn_path db = l"
proof -
  obtain e where e: "fmlookup (pool c) l = Some e" "idle e \<noteq> []" "db = last (idle e)"
      "p = fmupd l \<lparr>live = live e + 1, idle = butlast (idle e)\<rparr> (pool c)"
    by (rule check_out_Some [OF assms(1)])
  have split: "idle e = butlast (idle e) @ [db]"
    using e by simp
  show path: "conn_path db = l"
    using assms(3) e(1,3) last_in_set [OF e(2)] unfolding places_ok_def by (auto simp: idle_on_def simp del: last_in_set)
  show "places_ok k (c\<lparr>pool := p, stores := stores c @ [reused db l]\<rparr>)"
  proof (cases "k = l")
    case True
    have "mset (held_conns k c @ idle e) = mset ((held_conns k c @ [db]) @ butlast (idle e))"
      by (subst split) simp
    then have "distinct (held_conns k c @ idle e) \<longleftrightarrow> distinct ((held_conns k c @ [db]) @ butlast (idle e))"
      "set (held_conns k c @ idle e) = set ((held_conns k c @ [db]) @ butlast (idle e))"
      using mset_eq_imp_distinct_iff mset_eq_setD by blast+
    moreover have "held_conns k (c\<lparr>pool := p, stores := stores c @ [reused db l]\<rparr>) = held_conns k c @ [db]"
      using path True by (simp add: held_conns_def reused_def)
    moreover have "idle_on k (c\<lparr>pool := p, stores := stores c @ [reused db l]\<rparr>) = butlast (idle e)"
      using True e by (simp add: idle_on_def)
    ultimately show ?thesis
      using assms(2) e True in_set_butlastD [of _ "idle e"] unfolding places_ok_def by (auto simp: idle_on_def)
  next
    case False
    then show ?thesis
      using assms(2) e path by (simp add: places_ok_def pool_defs reused_def)
  qed
qed

text \<open>What giving a connection back does to its entry: one store fewer, and the
  connection is kept (\<open>Some db\<close>) only while others are open and there is room.\<close>

definition released :: "connection option \<Rightarrow> shared option \<Rightarrow> shared option" where
  "released db e = (case e of
       None \<Rightarrow> None
     | Some e \<Rightarrow>
         if live e \<le> 1 then None
         else Some \<lparr>live = live e - 1,
             idle = idle e @ (case db of Some db \<Rightarrow> if length (idle e) < idle_per_database then [db] else [] | None \<Rightarrow> [])\<rparr>)"

lemma lookup_check_in: "fmlookup (check_in key db p) k = (if k = key then released (Some db) (fmlookup p k) else fmlookup p k)"
  by (auto simp: check_in_def released_def Let_def split: option.split intro!: shared.equality)

lemma lookup_check_in_closed: "fmlookup (check_in_closed key p) k = (if k = key then released None (fmlookup p k) else fmlookup p k)"
  by (auto simp: check_in_closed_def released_def Let_def split: option.split intro!: shared.equality)

lemma drop_store_sel:
  assumes "i < length (stores c)" and "pdb (stores c ! i) = Some db"
  shows "stores (drop_store i fit c) = take i (stores c) @ drop (Suc i) (stores c)"
    and "fresh (drop_store i fit c) = fresh c"
    and "fmlookup (pool (drop_store i fit c)) k =
      (if pkey (stores c ! i) = Some k then released (if fit then Some db else None) (fmlookup (pool c) k)
       else fmlookup (pool c) k)"
  using assms
  by (auto simp: drop_store_def drop_pooled_def lookup_check_in lookup_check_in_closed split: option.split)

lemma entry_released: "entry_ok (Suc n) e \<Longrightarrow> entry_ok n (released db e)"
  by (auto simp: entry_ok_def released_def split: option.splits)

lemma entry_drop:
  assumes "entry_ok (held_on k c) (fmlookup (pool c) k)" and "i < length (stores c)" and "pdb (stores c ! i) = Some db"
  shows "entry_ok (held_on k (drop_store i fit c)) (fmlookup (pool (drop_store i fit c)) k)"
proof -
  have "held_on k c = held_on k (drop_store i fit c) + (if pkey (stores c ! i) = Some k then 1 else 0)"
    using filter_without [OF assms(2), of "\<lambda>h. pkey h = Some k"]
    by (simp add: held_on_def drop_store_sel [OF assms(2,3)])
  then show ?thesis
    using assms(1) entry_released by (auto simp: drop_store_sel [OF assms(2,3)])
qed

lemma places_drop:
  assumes "places_ok k c" and "i < length (stores c)" and "pdb (stores c ! i) = Some db"
    and "pkey (stores c ! i) \<in> {None, Some (conn_path db)}"
  shows "places_ok k (drop_store i fit c)"
proof -
  let ?c = "drop_store i fit c" and ?one = "if conn_path db = k then {#db#} else {#}"
  have s: "map (the \<circ> pdb) (stores c) = map (the \<circ> pdb) (take i (stores c)) @ db # map (the \<circ> pdb) (drop (Suc i) (stores c))"
    using arg_cong [OF id_take_nth_drop [OF assms(2)], of "map (the \<circ> pdb)"] assms(3) by simp
  have w: "mset (held_conns k c) = mset (held_conns k ?c) + ?one"
    unfolding held_conns_def s by (simp add: drop_store_sel [OF assms(2,3)])
  have idle: "mset (idle_on k ?c) \<subseteq># mset (idle_on k c) + ?one" "set (idle_on k ?c) \<subseteq> set (idle_on k c) \<union> set_mset ?one"
    using assms(4) by (auto simp: idle_on_def drop_store_sel [OF assms(2,3)] released_def split: option.split)
  have "mset (held_conns k ?c @ idle_on k ?c) \<subseteq># mset (held_conns k c @ idle_on k c)"
    using subset_mset.add_mono [OF subset_mset.order_refl idle(1), of "mset (held_conns k ?c)"] w by (simp add: ac_simps)
  then have "distinct (held_conns k ?c @ idle_on k ?c)"
    "set (held_conns k ?c @ idle_on k ?c) \<subseteq> set (held_conns k c @ idle_on k c)"
    using assms(1) distinct_sub_mset unfolding places_ok_def by (blast, metis set_mset_mono set_mset_mset)
  moreover have "set (idle_on k ?c) \<subseteq> {db. conn_path db = k}"
    using assms(1) idle(2) unfolding places_ok_def by (auto split: if_splits)
  ultimately show ?thesis
    using assms(1) unfolding places_ok_def drop_store_sel(2) [OF assms(2,3)] by blast
qed

section \<open>Whole runs\<close>

lemma connections_build:
  assumes "connections_ok c" and "key \<in> {None, Some path}"
  shows "connections_ok (build_store key path c)"
  using assms entry_build places_build
  by (auto simp: connections_ok_def build_store_sel handle_ok_def)

lemma connections_open:
  assumes "connections_ok c" and "key \<in> {None, Some path}"
  shows "connections_ok (open_store key path builds c)"
proof (cases "\<exists>k db p. key = Some k \<and> check_out k (pool c) = (Some db, p)")
  case True
  then obtain k db p where k: "key = Some k" "check_out k (pool c) = (Some db, p)"
    by blast
  then have o: "open_store key path builds c = c\<lparr>pool := p, stores := stores c @ [reused db k]\<rparr>"
    by (simp add: open_store_def)
  show ?thesis
    using assms(1) entry_reuse [OF k(2)] places_reuse [OF k(2)]
    unfolding o connections_ok_def by (auto simp: handle_ok_def reused_def)
next
  case False
  then have "open_store key path builds c \<in> {c, build_store key path c}"
    by (auto simp: open_store_def Let_def split: option.splits prod.splits)
  then show ?thesis
    using assms connections_build by auto
qed

lemma connections_drop:
  assumes "connections_ok c"
  shows "connections_ok (drop_store i fit c)"
proof (cases "i < length (stores c)")
  case True
  then have "handle_ok (stores c ! i)"
    using assms by (simp add: connections_ok_def list_all_length)
  then obtain db where db: "pdb (stores c ! i) = Some db" "pkey (stores c ! i) \<in> {None, Some (conn_path db)}"
    by (auto simp: handle_ok_def split: option.splits)
  have "list_all handle_ok (stores (drop_store i fit c))"
    using assms unfolding drop_store_sel [OF True db(1)] connections_ok_def
    by (auto simp: list_all_iff dest: in_set_takeD in_set_dropD)
  then show ?thesis
    using assms entry_drop [OF _ True db(1)] places_drop [OF _ True db] by (simp add: connections_ok_def)
qed (use assms in \<open>simp add: drop_store_def\<close>)

interpretation connection_pool: machine pool_exec connections_ok
proof
  show "connections_ok (pool_exec op c)" if "connections_ok c" for op c
    using that by (cases op) (simp_all add: connections_open connections_build connections_drop)
qed

section \<open>Guarantees\<close>

text \<open>Whatever stores are opened, shared and dropped, in any order and with failures
  to build or reset connections, a database has an entry in the pool exactly while a store
  on it is open, its live count is the number of those stores, and at most 24
  connections idle on it; so the last store to close closes every connection.\<close>

theorem pool_counts_open_stores:
  "case fmlookup (pool (fold pool_exec ops new_process)) k of
     None \<Rightarrow> held_on k (fold pool_exec ops new_process) = 0
   | Some e \<Rightarrow> live e = held_on k (fold pool_exec ops new_process) \<and> live e > 0 \<and> length (idle e) \<le> 24"
proof -
  have "connections_ok (fold pool_exec ops new_process)"
    by (rule connection_pool.run_inv) simp
  then have "entry_ok (held_on k (fold pool_exec ops new_process)) (fmlookup (pool (fold pool_exec ops new_process)) k)"
    by (simp add: connections_ok_def)
  then show ?thesis
    by (auto simp: entry_ok_def idle_per_database_def split: option.splits)
qed

text \<open>C37: no connection is ever in two places: two stores never share one, and a
  connection that waits in the pool is held by no store and waits only under its
  own database.\<close>

theorem connections_never_shared:
  "distinct (held_conns k (fold pool_exec ops new_process) @ idle_on k (fold pool_exec ops new_process))
   \<and> (\<forall>db l. db \<in> set (idle_on l (fold pool_exec ops new_process)) \<longrightarrow> conn_path db = l)"
proof -
  have "connections_ok (fold pool_exec ops new_process)"
    by (rule connection_pool.run_inv) simp
  then show ?thesis
    unfolding connections_ok_def places_ok_def by blast
qed

theorem connections_never_shared_witness:
  "let c = fold pool_exec [OpenStore ''k'' True, OpenStore ''k'' True, DropStore 0 True] new_process
   in idle_on ''k'' c = [\<lparr>conn_id = 0, conn_path = ''k''\<rparr>]
     \<and> distinct (held_conns ''k'' c @ idle_on ''k'' c) \<and> conn_path (hd (idle_on ''k'' c)) = ''k''"
proof -
  let ?ops = "[OpenStore ''k'' True, OpenStore ''k'' True, DropStore 0 True]"
  have "idle_on ''k'' (fold pool_exec ?ops new_process) = [\<lparr>conn_id = 0, conn_path = ''k''\<rparr>]"
    by code_simp
  then show ?thesis
    using connections_never_shared [of "''k''" ?ops] unfolding Let_def by auto
qed

end
