(* ===== verification/Service_Activity.thy ===== *)
theory Service_Activity
  imports Core_Types
begin

text \<open>
  Revalidation of recently used directories, \<open>cirrove-service/src/activity.rs\<close>: the
  leases a use of a directory takes, the choice of the next directory to refresh,
  the spacing of requests and the back-off after failures. Instants and durations
  are integers that count nanoseconds.
\<close>

section \<open>State\<close>

definition secs :: "int \<Rightarrow> int" where
  "secs n = n * 1000000000"

definition capacity :: nat where
  "capacity = 32"

definition lease :: int where
  "lease = secs 60"

definition interval :: int where
  "interval = secs 5"

definition spacing :: int where
  "spacing = secs 2"

type_synonym key = "string \<times> string"

record entry =
  entry_scope :: scope
  used :: int
  due :: int
  running :: bool
  failures :: int

record state =
  entries :: "(key, entry) fmap"
  next_start :: int

record directory_freshness =
  active :: nat
  refreshing :: nat
  delayed :: nat

record directory_job =
  job_scope :: scope
  job_parent :: string

text \<open>
  The table is a \<open>HashMap\<close>: its iteration order is unspecified. \<open>iter\<close> lists the rows of
  a table in the order it happens to have; \<open>min_by_key\<close> takes the first least one.
\<close>

type_synonym iteration = "(key, entry) fmap \<Rightarrow> (key \<times> entry) list"

fun min_by_key :: "('a \<Rightarrow> int) \<Rightarrow> 'a list \<Rightarrow> 'a option" where
  "min_by_key f [] = None"
| "min_by_key f (x # xs) =
     (case min_by_key f xs of None \<Rightarrow> Some x | Some y \<Rightarrow> if f x \<le> f y then Some x else Some y)"

section \<open>Operations\<close>

definition prune :: "int \<Rightarrow> state \<Rightarrow> state" where
  "prune now s = s\<lparr>entries := fmfilter (\<lambda>k. case fmlookup (entries s) k of
       None \<Rightarrow> False | Some e \<Rightarrow> running e \<or> now < used e + lease) (entries s)\<rparr>"

definition idle_rows :: "iteration \<Rightarrow> state \<Rightarrow> (key \<times> entry) list" where
  "idle_rows iter s = filter (\<lambda>(_, e). \<not> running e) (iter (entries s))"

definition state_touch :: "iteration \<Rightarrow> scope \<Rightarrow> string \<Rightarrow> int \<Rightarrow> state \<Rightarrow> state" where
  "state_touch iter sc parent now s =
     (let s = prune now s; k = (collection sc, parent);
          row = \<lparr>entry_scope = sc, used = now, due = now, running = False, failures = 0\<rparr>
      in case fmlookup (entries s) k of
           Some e \<Rightarrow> s\<lparr>entries := fmupd k (e\<lparr>used := now\<rparr>) (entries s)\<rparr>
         | None \<Rightarrow>
             if fcard (fmdom (entries s)) \<ge> capacity
             then (case min_by_key (\<lambda>(_, e). used e) (idle_rows iter s) of
                     None \<Rightarrow> s
                   | Some (oldest, _) \<Rightarrow> s\<lparr>entries := fmupd k row (fmdrop oldest (entries s))\<rparr>)
             else s\<lparr>entries := fmupd k row (entries s)\<rparr>)"

definition state_take :: "iteration \<Rightarrow> int \<Rightarrow> state \<Rightarrow> (directory_job option \<times> int option) \<times> state" where
  "state_take iter now s =
     (let s = prune now s
      in case min_by_key (\<lambda>(_, e). due e) (idle_rows iter s) of
           None \<Rightarrow> ((None, None), s)
         | Some (k, e) \<Rightarrow>
             let start = max (due e) (next_start s)
             in if now < start then ((None, Some start), s)
                else case fmlookup (entries s) k of
                  None \<Rightarrow> ((None, None), s)
                | Some e \<Rightarrow>
                    ((Some \<lparr>job_scope = entry_scope e, job_parent = snd k\<rparr>, None),
                     s\<lparr>entries := fmupd k (e\<lparr>running := True\<rparr>) (entries s), next_start := now + spacing\<rparr>))"

definition retry_delay :: "provider_error \<Rightarrow> int \<Rightarrow> int" where
  "retry_delay error n =
     (case error of
        Throttled d \<Rightarrow> int d + secs 1
      | Authentication \<Rightarrow> secs 60
      | Permission \<Rightarrow> secs 300
      | NotFound \<Rightarrow> secs 300
      | _ \<Rightarrow> secs (min (5 * 2 ^ nat (min n 5)) 120))"

definition job_key :: "directory_job \<Rightarrow> key" where
  "job_key job = (collection (job_scope job), job_parent job)"

definition cools_account :: "provider_error \<Rightarrow> bool" where
  "cools_account error = (case error of Throttled _ \<Rightarrow> True | Authentication \<Rightarrow> True | _ \<Rightarrow> False)"

text \<open>\<open>State::finish\<close>; the outcome is missing when the job was skipped.\<close>

definition state_finish :: "directory_job \<Rightarrow> (provider_error + unit) option \<Rightarrow> int \<Rightarrow> state \<Rightarrow> state" where
  "state_finish job outcome now s =
     (case fmlookup (entries s) (job_key job) of
        None \<Rightarrow> s
      | Some e \<Rightarrow>
          let e = e\<lparr>running := False\<rparr>
          in case outcome of
               None \<Rightarrow> s\<lparr>entries := fmupd (job_key job) (e\<lparr>due := max (due e) (now + secs 1)\<rparr>) (entries s)\<rparr>
             | Some (Inr _) \<Rightarrow> s\<lparr>entries := fmupd (job_key job) (e\<lparr>failures := 0, due := now + interval\<rparr>) (entries s)\<rparr>
             | Some (Inl error) \<Rightarrow>
                 let n = min (failures e + 1) u32_max; at = now + retry_delay error n
                 in \<lparr>entries = fmupd (job_key job) (e\<lparr>failures := n, due := at\<rparr>) (entries s),
                     next_start = (if cools_account error then max (next_start s) at else next_start s)\<rparr>)"

definition activity_touch :: "iteration \<Rightarrow> scope \<Rightarrow> string \<Rightarrow> int \<Rightarrow> state \<Rightarrow> state" where
  "activity_touch iter sc parent now s =
     (if parent = [] \<or> length parent > 4096 \<or> length (collection sc) > 4096 then s
      else state_touch iter sc parent now s)"

definition activity_observed :: "directory_job \<Rightarrow> (provider_error + unit) \<Rightarrow> int \<Rightarrow> state \<Rightarrow> state" where
  "activity_observed job outcome now s =
     (let k = job_key job;
          was_running = (case fmlookup (entries s) k of None \<Rightarrow> False | Some e \<Rightarrow> running e);
          s = state_finish job (Some outcome) now s
      in case fmlookup (entries s) k of
           None \<Rightarrow> s
         | Some e \<Rightarrow> s\<lparr>entries := fmupd k (e\<lparr>running := was_running\<rparr>) (entries s)\<rparr>)"

definition status :: "int \<Rightarrow> state \<Rightarrow> directory_freshness" where
  "status now s =
     (let rows = filter (\<lambda>e. running e \<or> now < used e + lease) (fm_values (entries s))
      in \<lparr>active = length rows, refreshing = length (filter running rows),
          delayed = length (filter (\<lambda>e. failures e > 0) rows)\<rparr>)"

definition new_activity :: "int \<Rightarrow> state" where
  "new_activity now = \<lparr>entries = fmempty, next_start = now\<rparr>"

text \<open>The calls the engine makes, each at an instant of its own.\<close>

datatype activity_op =
    Touch scope string int
  | Take int
  | Finish directory_job "(provider_error + unit) option" int
  | Observed directory_job "provider_error + unit" int

fun activity_exec :: "iteration \<Rightarrow> activity_op \<Rightarrow> state \<Rightarrow> state" where
  "activity_exec iter (Touch sc parent now) s = activity_touch iter sc parent now s"
| "activity_exec iter (Take now) s = snd (state_take iter now s)"
| "activity_exec iter (Finish job outcome now) s = state_finish job outcome now s"
| "activity_exec iter (Observed job outcome now) s = activity_observed job outcome now s"

fun finishes :: "key \<Rightarrow> activity_op \<Rightarrow> bool" where
  "finishes k (Finish job outcome now) \<longleftrightarrow> job_key job = k"
| "finishes k _ \<longleftrightarrow> False"

section \<open>Single operations\<close>

lemma min_by_key_None [simp]: "min_by_key f xs = None \<longleftrightarrow> xs = []"
  by (cases xs) (auto split: option.splits)

lemma min_by_key_Some: "min_by_key f xs = Some x \<Longrightarrow> x \<in> set xs \<and> (\<forall>y \<in> set xs. f x \<le> f y)"
proof (induction xs arbitrary: x)
  case (Cons z zs)
  then show ?case
    by (cases "min_by_key f zs") (fastforce split: if_splits)+
qed simp

lemma lookup_prune:
  "fmlookup (entries (prune now s)) k =
     (case fmlookup (entries s) k of
        None \<Rightarrow> None | Some e \<Rightarrow> if running e \<or> now < used e + lease then Some e else None)"
  by (auto simp: prune_def split: option.split)

lemma next_start_prune [simp]: "next_start (prune now s) = next_start s"
  by (simp add: prune_def)

lemma fcard_prune: "fcard (fmdom (entries (prune now s))) \<le> fcard (fmdom (entries s))"
proof -
  have "fmdom (entries (prune now s)) |\<subseteq>| fmdom (entries s)"
    by (auto simp: fmlookup_dom_iff lookup_prune split: option.splits)
  then show ?thesis
    by (rule fcard_mono)
qed

lemma fcard_fmupd: "fcard (fmdom (fmupd k v m)) = (if fmlookup m k = None then Suc (fcard (fmdom m)) else fcard (fmdom m))"
  by (auto simp: fcard_finsert_if fmlookup_dom_iff)

lemma fcard_fmdrop: "fmlookup m k \<noteq> None \<Longrightarrow> fcard (fmdom (fmdrop k m)) = fcard (fmdom m) - 1"
  by (auto simp: fcard.rep_eq fmlookup_dom_iff card_Diff_singleton)

text \<open>The capacity is never exceeded.\<close>

definition bounded :: "state \<Rightarrow> bool" where
  "bounded s \<longleftrightarrow> fcard (fmdom (entries s)) \<le> capacity"

text \<open>A row is found under the collection of its scope.\<close>

definition keyed :: "state \<Rightarrow> bool" where
  "keyed s \<longleftrightarrow> (\<forall>k e. fmlookup (entries s) k = Some e \<longrightarrow> fst k = collection (entry_scope e))"

definition tracked_ok :: "state \<Rightarrow> bool" where
  "tracked_ok s \<longleftrightarrow> bounded s \<and> keyed s"

text \<open>A directory whose lease lasts and that is not being refreshed.\<close>

definition waiting :: "int \<Rightarrow> entry \<Rightarrow> bool" where
  "waiting now e \<longleftrightarrow> \<not> running e \<and> now < used e + lease"

lemma keyed_prune: "keyed s \<Longrightarrow> keyed (prune now s)"
  by (auto simp: keyed_def lookup_prune split: option.splits if_splits)

lemma keyed_upd: "keyed s \<Longrightarrow> fst k = collection (entry_scope e) \<Longrightarrow> keyed (s\<lparr>entries := fmupd k e (entries s)\<rparr>)"
  by (auto simp: keyed_def)

lemma keyed_drop: "keyed s \<Longrightarrow> keyed (s\<lparr>entries := fmdrop k (entries s)\<rparr>)"
  by (auto simp: keyed_def split: if_splits)

lemma keyed_lookup: "keyed s \<Longrightarrow> fmlookup (entries s) k = Some e \<Longrightarrow> collection (entry_scope e) = fst k"
  unfolding keyed_def by metis

lemma keyed_finish: "keyed s \<Longrightarrow> keyed (state_finish job outcome now s)"
  by (auto simp: keyed_def state_finish_def Let_def split: option.splits sum.splits)

lemma keyed_observed: "keyed s \<Longrightarrow> keyed (activity_observed job outcome now s)"
  using keyed_finish [of s job "Some outcome" now]
  by (auto simp: keyed_def activity_observed_def Let_def split: option.splits)

lemma keyed_take: "keyed s \<Longrightarrow> keyed (snd (state_take iter now s))"
  using keyed_prune [of s now]
  by (auto simp: keyed_def state_take_def Let_def split: option.splits prod.splits)

lemma keyed_touch: "keyed s \<Longrightarrow> keyed (state_touch iter sc parent now s)"
  using keyed_prune [of s now]
  by (auto simp: keyed_def state_touch_def Let_def split: option.splits prod.splits if_splits)

lemma bounded_finish: "bounded s \<Longrightarrow> bounded (state_finish job outcome now s)"
  by (auto simp: bounded_def state_finish_def Let_def fcard_fmupd simp del: fmdom_fmupd split: option.splits sum.splits)

lemma bounded_take: "bounded s \<Longrightarrow> bounded (snd (state_take iter now s))"
  using fcard_prune [of now s]
  by (auto simp: bounded_def state_take_def Let_def fcard_fmupd simp del: fmdom_fmupd split: option.splits prod.splits)

lemma bounded_observed: "bounded s \<Longrightarrow> bounded (activity_observed job outcome now s)"
  using bounded_finish [of s job "Some outcome" now]
  by (auto simp: activity_observed_def Let_def bounded_def fcard_fmupd simp del: fmdom_fmupd split: option.splits)

text \<open>The earliest next start only moves forward, and a start is never before it.\<close>

lemma next_start_finish: "next_start s \<le> next_start (state_finish job outcome now s)"
  by (simp add: state_finish_def Let_def split: option.split sum.split)

lemma next_start_touch [simp]: "next_start (state_touch iter sc parent now s) = next_start s"
  by (simp add: state_touch_def Let_def split: option.split prod.split)

lemma next_start_take: "next_start s \<le> next_start (snd (state_take iter now s))"
  by (auto simp: spacing_def secs_def state_take_def Let_def split: option.split prod.split)

lemma next_start_observed: "next_start s \<le> next_start (activity_observed job outcome now s)"
  using next_start_finish [of s job "Some outcome" now] by (simp add: activity_observed_def Let_def split: option.split)

lemma next_start_exec: "next_start s \<le> next_start (activity_exec iter op s)"
  by (cases op) (simp_all add: next_start_finish next_start_take next_start_observed activity_touch_def)

lemma state_take_Some:
  assumes "state_take iter now s = ((Some job, dl), t)"
  obtains k e where "min_by_key (\<lambda>(_, e). due e) (idle_rows iter (prune now s)) = Some (k, e)"
    "due e \<le> now" "next_start s \<le> now" "next_start t = now + spacing" "job_parent job = snd k" "dl = None"
    "\<exists>e. fmlookup (entries (prune now s)) k = Some e \<and> job_scope job = entry_scope e
       \<and> entries t = fmupd k (e\<lparr>running := True\<rparr>) (entries (prune now s))"
  using assms by (auto simp: state_take_def Let_def split: option.splits prod.splits if_splits)

section \<open>Any order of iteration\<close>

locale iteration =
  fixes iter :: iteration
  assumes iter_rows: "(k, e) \<in> set (iter m) \<longleftrightarrow> fmlookup m k = Some e"
begin

lemma idle_rowD:
  assumes "min_by_key f (idle_rows iter s) = Some (k, e)"
  shows "fmlookup (entries s) k = Some e" and "\<not> running e"
    and "fmlookup (entries s) l = Some e' \<Longrightarrow> \<not> running e' \<Longrightarrow> f (k, e) \<le> f (l, e')"
proof -
  have r: "(l, e) \<in> set (idle_rows iter s) \<longleftrightarrow> fmlookup (entries s) l = Some e \<and> \<not> running e" for l e
    using iter_rows [of l e "entries s"] by (simp add: idle_rows_def)
  have m: "(k, e) \<in> set (idle_rows iter s)" "\<forall>y \<in> set (idle_rows iter s). f (k, e) \<le> f y"
    using min_by_key_Some [OF assms] by blast+
  then show "fmlookup (entries s) k = Some e" "\<not> running e"
    using r by blast+
  show "f (k, e) \<le> f (l, e')" if "fmlookup (entries s) l = Some e'" "\<not> running e'"
    using m(2) r that by blast
qed

lemma bounded_touch:
  assumes "bounded s"
  shows "bounded (state_touch iter sc parent now s)"
proof -
  have "fcard (fmdom (entries (prune now s))) \<le> capacity"
    using assms fcard_prune [of now s] by (simp add: bounded_def)
  then show ?thesis
    using idle_rowD(1) [of "\<lambda>(_, e). used e" "prune now s"]
    by (auto simp: bounded_def state_touch_def Let_def fcard_fmupd fcard_fmdrop capacity_def
        simp del: fmdom_fmupd fmdom_drop split: option.splits prod.splits)
qed

lemma exec_tracked: "tracked_ok s \<Longrightarrow> tracked_ok (activity_exec iter op s)"
  by (cases op) (simp_all add: tracked_ok_def bounded_finish bounded_take bounded_observed bounded_touch
      keyed_finish keyed_take keyed_observed keyed_touch activity_touch_def)

lemma idle_rows_waiting:
  "(k, e) \<in> set (idle_rows iter (prune now s)) \<longleftrightarrow> fmlookup (entries s) k = Some e \<and> waiting now e"
  by (auto simp: idle_rows_def iter_rows lookup_prune waiting_def split: option.splits)

lemma take_earliest:
  assumes "tracked_ok s"
  shows "case fst (fst (state_take iter now s)) of
      None \<Rightarrow> \<not> (next_start s \<le> now \<and> (\<exists>k e. fmlookup (entries s) k = Some e \<and> waiting now e \<and> due e \<le> now))
    | Some job \<Rightarrow> next_start s \<le> now \<and> (\<exists>e. fmlookup (entries s) (job_key job) = Some e \<and> waiting now e \<and> due e \<le> now
        \<and> (\<forall>k e'. fmlookup (entries s) k = Some e' \<and> waiting now e' \<longrightarrow> due e \<le> due e')
        \<and> fmlookup (entries (snd (state_take iter now s))) (job_key job) = Some (e\<lparr>running := True\<rparr>))"
proof (cases "min_by_key (\<lambda>(_, e). due e) (idle_rows iter (prune now s))")
  case None
  then have "\<not> (fmlookup (entries s) k = Some e \<and> waiting now e)" for k e
    using idle_rows_waiting [of k e now s] by simp
  then show ?thesis
    using None by (auto simp: state_take_def)
next
  case (Some r)
  obtain k e where r: "r = (k, e)"
    by (cases r) auto
  have m: "(k, e) \<in> set (idle_rows iter (prune now s))"
    "\<forall>y \<in> set (idle_rows iter (prune now s)). due e \<le> due (snd y)"
    using min_by_key_Some [OF Some] r by (auto simp: case_prod_beta)
  then have e: "fmlookup (entries s) k = Some e" "waiting now e"
    using idle_rows_waiting by blast+
  then have k: "job_key \<lparr>job_scope = entry_scope e, job_parent = snd k\<rparr> = k"
    using assms keyed_lookup [of s k e] e(1) by (simp add: job_key_def tracked_ok_def)
  have least: "due e \<le> due e'" if "fmlookup (entries s) l = Some e'" "waiting now e'" for l e'
    using m(2) idle_rows_waiting [of l e' now s] that by fastforce
  have p: "fmlookup (entries (prune now s)) k = Some e"
    using e by (simp add: lookup_prune waiting_def)
  show ?thesis
  proof (cases "now < max (due e) (next_start s)")
    case True
    then show ?thesis
      using Some r least by (fastforce simp: state_take_def Let_def)
  next
    case False
    then show ?thesis
      using Some r e k least p by (auto simp: state_take_def Let_def)
  qed
qed

text \<open>A refresh that runs is neither evicted nor expired.\<close>

lemma running_touch:
  assumes "fmlookup (entries s) k = Some e" and "running e"
  shows "\<exists>e. fmlookup (entries (activity_touch iter sc parent now s)) k = Some e \<and> running e"
proof -
  have p: "fmlookup (entries (prune now s)) k = Some e"
    using assms by (simp add: lookup_prune)
  then show ?thesis
    using assms idle_rowD(1,2) [of "\<lambda>(_, e). used e" "prune now s"]
    by (fastforce simp: activity_touch_def state_touch_def Let_def split: option.splits prod.splits)
qed

lemma running_take:
  assumes "fmlookup (entries s) k = Some e" and "running e"
  shows "\<exists>e. fmlookup (entries (snd (state_take iter now s))) k = Some e \<and> running e"
  using assms by (auto simp: state_take_def Let_def lookup_prune split: option.splits prod.splits)

end

lemma running_finish:
  assumes "fmlookup (entries s) k = Some e" and "running e" and "job_key job \<noteq> k"
  shows "fmlookup (entries (state_finish job outcome now s)) k = Some e"
  using assms by (auto simp: state_finish_def Let_def split: option.splits sum.splits)

lemma running_observed:
  assumes "fmlookup (entries s) k = Some e" and "running e"
  shows "\<exists>e. fmlookup (entries (activity_observed job outcome now s)) k = Some e \<and> running e"
proof (cases "job_key job = k")
  case True
  then show ?thesis
    using assms by (auto simp: activity_observed_def state_finish_def Let_def split: option.splits sum.splits)
next
  case False
  then show ?thesis
    using assms running_finish [OF assms False] by (auto simp: activity_observed_def Let_def split: option.splits)
qed

section \<open>Guarantees\<close>

sublocale iteration \<subseteq> tracked: machine "activity_exec iter" tracked_ok
  by unfold_locales (rule exec_tracked)

context iteration
begin

lemma run_tracked: "tracked_ok (fold (activity_exec iter) ops (new_activity now))"
  by (rule tracked.run_inv) (simp add: tracked_ok_def bounded_def keyed_def new_activity_def fcard.rep_eq)

end

interpretation spaced: evolving_machine "activity_exec iter" "\<lambda>_. True" "\<lambda>s t. next_start s \<le> next_start t" for iter
  by unfold_locales (auto intro: next_start_exec)

text \<open>The rows of a table in key order, one of the orders a table may have.\<close>

definition key_rows :: iteration where
  "key_rows m = map (\<lambda>k. (k, the (fmlookup m k))) (sorted_list_of_fset (fmdom m))"

interpretation key_order: iteration key_rows
proof
  show "(k, e) \<in> set (key_rows m) \<longleftrightarrow> fmlookup m k = Some e" for k e m
    by (auto simp: key_rows_def fmlookup_dom_iff)
qed

text \<open>however directories are used, refreshed and observed, and in whatever order the
  table iterates, at most 32 directories are tracked.\<close>

theorem activity_bounded:
  assumes "iteration iter"
  shows "fcard (fmdom (entries (fold (activity_exec iter) ops (new_activity now)))) \<le> 32"
  using iteration.run_tracked [OF assms, of ops now] by (simp add: tracked_ok_def bounded_def capacity_def)

text \<open>Two refreshes of an account never start less than two seconds apart, whatever is
  used, finished or observed between them.\<close>

theorem refreshes_spaced:
  assumes "state_take iter t\<^sub>1 s = ((Some job\<^sub>1, dl\<^sub>1), s\<^sub>1)"
    and "state_take iter t\<^sub>2 (fold (activity_exec iter) ops s\<^sub>1) = ((Some job\<^sub>2, dl\<^sub>2), s\<^sub>2)"
  shows "t\<^sub>1 + secs 2 \<le> t\<^sub>2"
proof -
  have "next_start s\<^sub>1 = t\<^sub>1 + spacing"
    using assms(1) by (rule state_take_Some)
  moreover have "next_start s\<^sub>1 \<le> next_start (fold (activity_exec iter) ops s\<^sub>1)"
    using spaced.run_evolves by simp
  moreover have "next_start (fold (activity_exec iter) ops s\<^sub>1) \<le> t\<^sub>2"
    using assms(2) by (rule state_take_Some)
  ultimately show ?thesis
    by (simp add: spacing_def)
qed

text \<open>When the provider throttles the refresh of a tracked directory, no refresh of the
  account starts before a second more than the time it asked for; when it refuses
  the credentials, none starts for a minute.\<close>

theorem throttling_cools_account:
  assumes "fmlookup (entries s) (job_key job) \<noteq> None"
    and "s\<^sub>1 = state_finish job (Some (Inl error)) now s"
    and "state_take iter t (fold (activity_exec iter) ops s\<^sub>1) = ((Some job', dl), s\<^sub>2)"
  shows "(\<forall>d. error = Throttled d \<longrightarrow> now + int d + secs 1 \<le> t) \<and> (error = Authentication \<longrightarrow> now + secs 60 \<le> t)"
proof -
  have "next_start s\<^sub>1 \<le> next_start (fold (activity_exec iter) ops s\<^sub>1)"
    using spaced.run_evolves by simp
  also have "\<dots> \<le> t"
    using assms(3) by (rule state_take_Some)
  finally show ?thesis
    using assms(1) unfolding assms(2)
    by (auto simp: state_finish_def Let_def retry_delay_def cools_account_def secs_def)
qed

text \<open>a refresh that runs stays tracked and running through uses of other directories,
  expiry, eviction, other starts and foreground observations, until it is finished.\<close>

theorem running_refresh_kept:
  assumes "iteration iter" and "fmlookup (entries s) k = Some e" and "running e"
    and "\<not> list_ex (finishes k) ops"
  shows "\<exists>e. fmlookup (entries (fold (activity_exec iter) ops s)) k = Some e \<and> running e"
  using assms(2-4)
proof (induction ops arbitrary: s e)
  case (Cons op ops)
  have "\<exists>e. fmlookup (entries (activity_exec iter op s)) k = Some e \<and> running e"
    using iteration.running_touch [OF assms(1) Cons.prems(1,2)] iteration.running_take [OF assms(1) Cons.prems(1,2)]
      running_finish [OF Cons.prems(1,2)] running_observed [OF Cons.prems(1,2)] Cons.prems(1-3)
    by (cases op) auto
  then obtain e' where "fmlookup (entries (activity_exec iter op s)) k = Some e'" "running e'"
    by blast
  then show ?case
    using Cons.IH [of "activity_exec iter op s" e'] Cons.prems(3) by simp
qed auto

text \<open>C39: a refresh starts exactly when the account's spacing has passed and some directory
  still in use waits and is due; the directory chosen is one whose refresh was due
  first, the job names it, and it is running afterwards.\<close>

theorem refresh_starts_earliest_due:
  assumes "iteration iter" and "s = fold (activity_exec iter) ops (new_activity t\<^sub>0)"
  shows "case fst (fst (state_take iter now s)) of
      None \<Rightarrow> \<not> (next_start s \<le> now \<and> (\<exists>k e. fmlookup (entries s) k = Some e \<and> waiting now e \<and> due e \<le> now))
    | Some job \<Rightarrow> next_start s \<le> now \<and> (\<exists>e. fmlookup (entries s) (job_key job) = Some e \<and> waiting now e \<and> due e \<le> now
        \<and> (\<forall>k e'. fmlookup (entries s) k = Some e' \<and> waiting now e' \<longrightarrow> due e \<le> due e')
        \<and> fmlookup (entries (snd (state_take iter now s))) (job_key job) = Some (e\<lparr>running := True\<rparr>))"
  using iteration.take_earliest [OF assms(1)] iteration.run_tracked [OF assms(1)] unfolding assms(2) by blast

section \<open>Concrete instances\<close>

definition demo_drive :: scope where
  "demo_drive = \<lparr>account = ''a'', provider = ''p'', collection = ''drive''\<rparr>"

definition demo_activity :: state where
  "demo_activity = fold (activity_exec key_rows) [Touch demo_drive ''one'' 1, Touch demo_drive ''two'' 2, Take 3] (new_activity 0)"

definition demo_one :: directory_job where
  "demo_one = \<lparr>job_scope = demo_drive, job_parent = ''one''\<rparr>"

theorem activity_bounded_witness: "fcard (fmdom (entries demo_activity)) \<le> 32"
  unfolding demo_activity_def by (rule activity_bounded) (rule key_order.iteration_axioms)

lemma taken:
  "fst (fst (state_take iter now s)) = Some job \<Longrightarrow>
     state_take iter now s = ((Some job, snd (fst (state_take iter now s))), snd (state_take iter now s))"
  by (metis prod.collapse)

definition demo_waiting :: state where
  "demo_waiting = fold (activity_exec key_rows) [Touch demo_drive ''one'' 1, Touch demo_drive ''two'' 2] (new_activity 0)"

theorem refreshes_spaced_witness:
  "let s = snd (state_take key_rows 3 demo_waiting);
       r = fst (fst (state_take key_rows (secs 2 + 3) (fold (activity_exec key_rows) [Finish demo_one (Some (Inr ())) 9] s)))
   in fst (fst (state_take key_rows 3 demo_waiting)) = Some demo_one \<and> r \<noteq> None \<and> 3 + secs 2 \<le> secs 2 + 3"
proof -
  define s where "s = snd (state_take key_rows 3 demo_waiting)"
  let ?ops = "[Finish demo_one (Some (Inr ())) 9]"
  have a: "fst (fst (state_take key_rows 3 demo_waiting)) = Some demo_one"
    by code_simp
  have "fst (fst (state_take key_rows (secs 2 + 3) (fold (activity_exec key_rows) ?ops s))) \<noteq> None"
    unfolding s_def by code_simp
  then obtain job where b: "fst (fst (state_take key_rows (secs 2 + 3) (fold (activity_exec key_rows) ?ops s))) = Some job"
    by blast
  have "3 + secs 2 \<le> secs 2 + 3"
    by (rule refreshes_spaced [OF taken [OF a] taken [OF b [unfolded s_def]]])
  then show ?thesis
    unfolding s_def [symmetric] Let_def using a b by simp
qed

theorem throttling_cools_account_witness:
  "let s = state_finish demo_one (Some (Inl (Throttled 20000))) 9 demo_activity
   in fst (fst (state_take key_rows (secs 30) s)) \<noteq> None \<and> 9 + 20000 + secs 1 \<le> secs 30"
proof -
  define s where "s = state_finish demo_one (Some (Inl (Throttled 20000))) 9 demo_activity"
  have n: "fst (fst (state_take key_rows (secs 30) (fold (activity_exec key_rows) [] s))) \<noteq> None"
    unfolding s_def by code_simp
  then obtain job where j: "fst (fst (state_take key_rows (secs 30) (fold (activity_exec key_rows) [] s))) = Some job"
    by blast
  have k: "fmlookup (entries demo_activity) (job_key demo_one) \<noteq> None"
    by code_simp
  show ?thesis
    using throttling_cools_account [OF k s_def taken [OF j]] n unfolding s_def [symmetric] Let_def by simp
qed

theorem running_refresh_kept_witness:
  "\<exists>e. fmlookup (entries (fold (activity_exec key_rows) [Touch demo_drive ''three'' (secs 100), Take (secs 101)] demo_activity)) (''drive'', ''one'') = Some e
     \<and> running e"
proof -
  have "case fmlookup (entries demo_activity) (''drive'', ''one'') of None \<Rightarrow> False | Some e \<Rightarrow> running e"
    by code_simp
  then obtain e where "fmlookup (entries demo_activity) (''drive'', ''one'') = Some e" "running e"
    by (auto split: option.splits)
  then show ?thesis
    by (rule running_refresh_kept [OF key_order.iteration_axioms]) simp
qed

theorem refresh_starts_earliest_due_witness:
  "case fst (fst (state_take key_rows (secs 3) demo_activity)) of
     None \<Rightarrow> False
   | Some job \<Rightarrow> job_parent job = ''two'' \<and> (\<exists>e. fmlookup (entries demo_activity) (job_key job) = Some e \<and> due e \<le> secs 3)"
proof -
  have "map_option job_parent (fst (fst (state_take key_rows (secs 3) demo_activity))) = Some ''two''"
    by code_simp
  then show ?thesis
    using refresh_starts_earliest_due [OF key_order.iteration_axioms demo_activity_def, of "secs 3"] by (auto split: option.splits)
qed

end
