(* ===== verification/Service_Jobs.thy ===== *)
theory Service_Jobs
  imports Core_Types
begin

text \<open>
  The register of long-running work, \<open>cirrove-service/src/jobs.rs\<close> and its modules
  \<open>jobs/native_trash.rs\<close> and \<open>jobs/native_abandon.rs\<close>: starting, stopping, listing and
  ending jobs, the progress a handle records, and the receipts of native document
  operations. Every method takes the register's lock once, so a method is one step.
\<close>

section \<open>Jobs\<close>


definition retained :: nat where
  "retained = 4"

text \<open>Instants are nanoseconds; ten minutes.\<close>

definition retain_for :: int where
  "retain_for = 600 * 1000000000"

datatype job_kind = KeepOffline | ExportLocal | ImportNativePackage | ReplaceNativePackage
  | TrashNativeDocument | AbandonNativeStage | UnknownKind

datatype job_state = Running | Stopping | Stopped | Failed | Succeeded | UnknownState

record local_export_receipt =
  le_operation :: uuid
  le_size :: "64 word"
  le_sha256 :: string
  le_destination :: string

record working_recovery =
  wr_file :: uuid
  wr_generation :: "64 word"
  wr_name :: string
  wr_size :: "64 word"
  wr_recorded_size :: "64 word"
  wr_unlinked :: bool

record working_export_receipt =
  we_source :: working_recovery
  we_sha256 :: string
  we_destination :: string

record native_import_progress =
  ni_operation :: uuid
  ni_remote :: "node option"

record native_replace_progress =
  nr_operation :: uuid
  nr_original :: node
  nr_current :: "node option"
  nr_recovery :: "node option"

record native_trash_progress =
  nt_account_id :: string
  nt_operation :: uuid
  removal_receipt_recorded :: bool
  metadata_absence_recorded :: bool

record native_abandon_receipt =
  nar_account_id :: string
  nar_operation :: uuid
  nar_original :: node
  nar_retained_stage :: node
  nar_observed_unix :: "64 word"

record native_abandon_progress =
  na_account_id :: string
  na_operation :: uuid
  na_receipt :: "native_abandon_receipt option"

record job =
  job_id :: string
  job_kind :: job_kind
  job_name :: string
  files_total :: "64 word"
  files_done :: "64 word"
  bytes_total :: "64 word"
  bytes_done :: "64 word"
  started_at :: "64 word"
  job_state :: job_state
  issue :: "string option"
  export :: "local_export_receipt option"
  working_export :: "working_export_receipt option"
  native_import :: "native_import_progress option"
  native_replace :: "native_replace_progress option"
  native_trash :: "native_trash_progress option"
  native_abandon :: "native_abandon_progress option"

definition job_running :: "job \<Rightarrow> bool" where
  "job_running j \<longleftrightarrow> job_state j = Running \<or> job_state j = Stopping"

datatype stopped = Asked | Dismissed | NoSuchJob

text \<open>
  A running job holds a child of its caller's cancellation token: \<open>cancelled\<close> is
  whether it has been cancelled, itself or through the token it is a child of.
\<close>

record running =
  rjob :: job
  parent_token :: nat
  cancelled :: bool

record jobs =
  running_jobs :: "running list"
  ended_jobs :: "(int \<times> job) list"

definition new_jobs :: jobs where
  "new_jobs = \<lparr>running_jobs = [], ended_jobs = []\<rparr>"

section \<open>The register\<close>

definition has_id :: "string \<Rightarrow> running \<Rightarrow> bool" where
  "has_id jid r \<longleftrightarrow> job_id (rjob r) = jid"

text \<open>\<open>iter_mut().find(..)\<close>: an update of the first entry with the id.\<close>

fun update_first :: "('a \<Rightarrow> bool) \<Rightarrow> ('a \<Rightarrow> 'a) \<Rightarrow> 'a list \<Rightarrow> 'a list" where
  "update_first P f [] = []"
| "update_first P f (x # xs) = (if P x then f x # xs else x # update_first P f xs)"

text \<open>\<open>position(..)\<close> followed by \<open>remove(index)\<close>.\<close>

fun remove_first :: "('a \<Rightarrow> bool) \<Rightarrow> 'a list \<Rightarrow> ('a \<times> 'a list) option" where
  "remove_first P [] = None"
| "remove_first P (x # xs) =
     (if P x then Some (x, xs) else map_option (\<lambda>(y, ys). (y, x # ys)) (remove_first P xs))"

definition update_job :: "string \<Rightarrow> (job \<Rightarrow> job) \<Rightarrow> jobs \<Rightarrow> jobs" where
  "update_job jid f j = j\<lparr>running_jobs := update_first (has_id jid) (\<lambda>r. r\<lparr>rjob := f (rjob r)\<rparr>) (running_jobs j)\<rparr>"

definition new_job :: "job_kind \<Rightarrow> string \<Rightarrow> 64 word \<Rightarrow> 64 word \<Rightarrow> string \<Rightarrow> 64 word \<Rightarrow> job" where
  "new_job kind name files bytes jid now_unix =
     \<lparr>job_id = jid, job_kind = kind, job_name = name, files_total = files, files_done = 0,
      bytes_total = bytes, bytes_done = 0, started_at = now_unix, job_state = Running, issue = None,
      export = None, working_export = None, native_import = None, native_replace = None,
      native_trash = None, native_abandon = None\<rparr>"

definition start :: "job_kind \<Rightarrow> string \<Rightarrow> 64 word \<Rightarrow> 64 word \<Rightarrow> nat \<Rightarrow> bool \<Rightarrow> string \<Rightarrow> 64 word \<Rightarrow> jobs \<Rightarrow> jobs" where
  "start kind name files bytes parent parent_cancelled jid now_unix j =
     j\<lparr>running_jobs := running_jobs j @
        [\<lparr>rjob = new_job kind name files bytes jid now_unix,
          parent_token = parent, cancelled = parent_cancelled\<rparr>]\<rparr>"

definition list_jobs :: "int \<Rightarrow> jobs \<Rightarrow> job list \<times> jobs" where
  "list_jobs now j =
     (let j = j\<lparr>ended_jobs := filter (\<lambda>(at, _). max 0 (now - at) < retain_for) (ended_jobs j)\<rparr>
      in (map rjob (running_jobs j) @ map snd (ended_jobs j), j))"

definition stop_entry :: "running \<Rightarrow> running" where
  "stop_entry r = r\<lparr>rjob := (rjob r)\<lparr>job_state := Stopping\<rparr>, cancelled := True\<rparr>"

definition stop :: "string \<Rightarrow> jobs \<Rightarrow> stopped \<times> jobs" where
  "stop jid j =
     (if list_ex (has_id jid) (running_jobs j)
      then (Asked, j\<lparr>running_jobs := update_first (has_id jid) stop_entry (running_jobs j)\<rparr>)
      else let kept = filter (\<lambda>(_, e). job_id e \<noteq> jid) (ended_jobs j)
           in (if length kept \<noteq> length (ended_jobs j) then Dismissed else NoSuchJob, j\<lparr>ended_jobs := kept\<rparr>))"

definition all_jobs :: "jobs \<Rightarrow> job list" where
  "all_jobs j = map rjob (running_jobs j) @ map snd (ended_jobs j)"

definition find_job :: "string \<Rightarrow> jobs \<Rightarrow> job option" where
  "find_job jid j = find (\<lambda>e. job_id e = jid) (all_jobs j)"

definition running_count :: "jobs \<Rightarrow> nat" where
  "running_count j = length (running_jobs j)"

definition advanced :: "64 word \<Rightarrow> 64 word \<Rightarrow> job \<Rightarrow> job" where
  "advanced files bytes e = e\<lparr>files_done := files, bytes_done := bytes\<rparr>"

definition advance_job :: "string \<Rightarrow> 64 word \<Rightarrow> 64 word \<Rightarrow> jobs \<Rightarrow> jobs" where
  "advance_job jid files bytes = update_job jid (advanced files bytes)"

definition push_ended :: "int \<Rightarrow> job \<Rightarrow> (int \<times> job) list \<Rightarrow> (int \<times> job) list" where
  "push_ended now e es = (if length es = retained then tl es else es) @ [(now, e)]"

record ended =
  e_state :: job_state
  e_issue :: "string option"
  e_export :: "local_export_receipt option"
  e_working_export :: "working_export_receipt option"

definition ended_as :: "ended \<Rightarrow> job \<Rightarrow> job" where
  "ended_as e old = old\<lparr>job_state := e_state e, issue := e_issue e, export := e_export e, working_export := e_working_export e\<rparr>"

definition end_job :: "int \<Rightarrow> string \<Rightarrow> ended option \<Rightarrow> jobs \<Rightarrow> jobs" where
  "end_job now jid outcome j =
     (case remove_first (has_id jid) (running_jobs j) of
        None \<Rightarrow> j
      | Some (r, rest) \<Rightarrow>
          (case outcome of
             None \<Rightarrow> j\<lparr>running_jobs := rest\<rparr>
           | Some e \<Rightarrow>
               j\<lparr>running_jobs := rest, ended_jobs := push_ended now (ended_as e (rjob r)) (ended_jobs j)\<rparr>))"

section \<open>Handles\<close>

text \<open>The frame the native outcomes share: the entry leaves the running list, its
  terminal record is chosen and pushed, all under one lock.\<close>

definition settle :: "int \<Rightarrow> string \<Rightarrow> (running \<Rightarrow> job) \<Rightarrow> jobs \<Rightarrow> jobs" where
  "settle now jid outcome j =
     (case remove_first (has_id jid) (running_jobs j) of
        None \<Rightarrow> j
      | Some (r, rest) \<Rightarrow> j\<lparr>running_jobs := rest, ended_jobs := push_ended now (outcome r) (ended_jobs j)\<rparr>)"

definition ends_stopped :: "running \<Rightarrow> bool" where
  "ends_stopped r \<longleftrightarrow> cancelled r \<or> job_state (rjob r) = Stopping"

definition import_queued :: "uuid \<Rightarrow> 64 word \<Rightarrow> job \<Rightarrow> job" where
  "import_queued operation sz e =
     e\<lparr>bytes_total := sz,
     native_import := Some \<lparr>ni_operation = operation, ni_remote = None\<rparr>\<rparr>"

definition native_import_queued :: "string \<Rightarrow> uuid \<Rightarrow> 64 word \<Rightarrow> jobs \<Rightarrow> jobs" where
  "native_import_queued jid operation sz = update_job jid (import_queued operation sz)"

definition import_outcome :: "uuid \<Rightarrow> node \<Rightarrow> running \<Rightarrow> job" where
  "import_outcome operation remote r =
     (let e = rjob r in
     if ends_stopped r
     then e\<lparr>job_state := Stopped, issue := Some ''stopped watching; the queued import operation is retained''\<rparr>
     else case native_import e of
       Some p \<Rightarrow>
         if ni_operation p = operation
         then e\<lparr>native_import := Some (p\<lparr>ni_remote := Some remote\<rparr>), job_state := Succeeded, issue := None\<rparr>
         else e\<lparr>job_state := Failed, issue := Some ''native import receipt did not match the queued operation''\<rparr>
     | None \<Rightarrow> e\<lparr>job_state := Failed, issue := Some ''native import receipt did not match the queued operation''\<rparr>)"

definition native_imported :: "int \<Rightarrow> string \<Rightarrow> uuid \<Rightarrow> node \<Rightarrow> jobs \<Rightarrow> jobs" where
  "native_imported now jid operation remote = settle now jid (import_outcome operation remote)"

definition replace_queued :: "uuid \<Rightarrow> node \<Rightarrow> 64 word \<Rightarrow> job \<Rightarrow> job" where
  "replace_queued operation original sz e =
     e\<lparr>bytes_total := sz,
     native_replace := Some \<lparr>nr_operation = operation, nr_original = original, nr_current = None, nr_recovery = None\<rparr>\<rparr>"

definition native_replace_queued :: "string \<Rightarrow> uuid \<Rightarrow> node \<Rightarrow> 64 word \<Rightarrow> jobs \<Rightarrow> jobs" where
  "native_replace_queued jid operation original sz = update_job jid (replace_queued operation original sz)"

definition replace_outcome :: "uuid \<Rightarrow> node \<Rightarrow> node \<Rightarrow> node \<Rightarrow> running \<Rightarrow> job" where
  "replace_outcome operation original current recovery r =
     (let e = rjob r;
         refused = e\<lparr>job_state := Failed, issue := Some ''native replacement receipt did not match the queued operation''\<rparr> in
     if ends_stopped r
     then e\<lparr>job_state := Stopped, issue := Some ''stopped watching; the queued replacement operation is retained''\<rparr>
     else case native_replace e of
       Some p \<Rightarrow>
         if nr_operation p = operation \<and> nr_original p = original \<and> node_id current \<noteq> node_id original
            \<and> node_id recovery = node_id original \<and> job_kind e = ReplaceNativePackage
         then e\<lparr>native_replace := Some (p\<lparr>nr_current := Some current, nr_recovery := Some recovery\<rparr>),
                job_state := Succeeded, issue := None\<rparr>
         else refused
     | None \<Rightarrow> refused)"

definition native_replaced :: "int \<Rightarrow> string \<Rightarrow> uuid \<Rightarrow> node \<Rightarrow> node \<Rightarrow> node \<Rightarrow> jobs \<Rightarrow> jobs" where
  "native_replaced now jid operation original current recovery = settle now jid (replace_outcome operation original current recovery)"

definition trash_queued :: "string \<Rightarrow> uuid \<Rightarrow> job \<Rightarrow> job" where
  "trash_queued acct operation e =
     (case native_trash e of
       Some p \<Rightarrow>
         if nt_operation p \<noteq> operation \<or> nt_account_id p \<noteq> acct then e
         else e\<lparr>native_trash := Some \<lparr>nt_account_id = acct, nt_operation = operation,
                removal_receipt_recorded = False, metadata_absence_recorded = False\<rparr>\<rparr>
     | None \<Rightarrow> e\<lparr>native_trash := Some \<lparr>nt_account_id = acct, nt_operation = operation,
                removal_receipt_recorded = False, metadata_absence_recorded = False\<rparr>\<rparr>)"

definition native_trash_queued :: "string \<Rightarrow> string \<Rightarrow> uuid \<Rightarrow> jobs \<Rightarrow> jobs" where
  "native_trash_queued jid acct operation = update_job jid (trash_queued acct operation)"

definition trash_outcome :: "string \<Rightarrow> uuid \<Rightarrow> running \<Rightarrow> job" where
  "trash_outcome acct operation r =
     (let e = rjob r;
         refused = e\<lparr>job_state := Failed, issue := Some ''native Trash receipt did not match the queued account and operation''\<rparr> in
     if ends_stopped r
     then e\<lparr>job_state := Stopped, issue := Some ''stopped watching; the queued native Trash operation remains retained''\<rparr>
     else case native_trash e of
       Some p \<Rightarrow>
         if nt_operation p = operation \<and> nt_account_id p = acct
         then e\<lparr>native_trash := Some (p\<lparr>removal_receipt_recorded := True, metadata_absence_recorded := True\<rparr>),
                files_done := 1, job_state := Succeeded, issue := None\<rparr>
         else refused
     | None \<Rightarrow> refused)"

definition native_trashed :: "int \<Rightarrow> string \<Rightarrow> string \<Rightarrow> uuid \<Rightarrow> jobs \<Rightarrow> jobs" where
  "native_trashed now jid acct operation = settle now jid (trash_outcome acct operation)"

definition abandon_started :: "string \<Rightarrow> uuid \<Rightarrow> job \<Rightarrow> job" where
  "abandon_started acct operation e =
     (case native_abandon e of
       Some p \<Rightarrow>
         if na_account_id p \<noteq> acct \<or> na_operation p \<noteq> operation then e
         else e\<lparr>native_abandon := Some \<lparr>na_account_id = acct, na_operation = operation, na_receipt = None\<rparr>\<rparr>
     | None \<Rightarrow> e\<lparr>native_abandon := Some \<lparr>na_account_id = acct, na_operation = operation, na_receipt = None\<rparr>\<rparr>)"

definition native_abandon_started :: "string \<Rightarrow> string \<Rightarrow> uuid \<Rightarrow> jobs \<Rightarrow> jobs" where
  "native_abandon_started jid acct operation = update_job jid (abandon_started acct operation)"

definition abandon_outcome :: "native_abandon_receipt \<Rightarrow> running \<Rightarrow> job" where
  "abandon_outcome receipt r =
     (let e = rjob r;
         refused = e\<lparr>job_state := Failed,
           issue := Some ''Abandonment receipt binding changed; inspect the recorded local outcome.''\<rparr> in
     case native_abandon e of
       Some p \<Rightarrow>
         if na_operation p = nar_operation receipt \<and> na_account_id p = nar_account_id receipt
         then e\<lparr>native_abandon := Some (p\<lparr>na_receipt := Some receipt\<rparr>), job_state := Succeeded, files_done := 1, issue := None\<rparr>
         else refused
     | None \<Rightarrow> refused)"

definition native_abandoned :: "int \<Rightarrow> string \<Rightarrow> native_abandon_receipt \<Rightarrow> jobs \<Rightarrow> jobs" where
  "native_abandoned now jid receipt = settle now jid (abandon_outcome receipt)"

definition asked_to_stop :: "string \<Rightarrow> jobs \<Rightarrow> bool" where
  "asked_to_stop jid j = (case find_job jid j of None \<Rightarrow> False | Some e \<Rightarrow> job_state e = Stopping)"

definition finished :: "int \<Rightarrow> string \<Rightarrow> jobs \<Rightarrow> jobs" where
  "finished now jid = end_job now jid None"

definition exported :: "int \<Rightarrow> string \<Rightarrow> local_export_receipt \<Rightarrow> jobs \<Rightarrow> jobs" where
  "exported now jid receipt j =
     end_job now jid (Some \<lparr>e_state = Succeeded, e_issue = None, e_export = Some receipt, e_working_export = None\<rparr>)
       (advance_job jid 1 (le_size receipt) j)"

definition exported_working :: "int \<Rightarrow> string \<Rightarrow> working_export_receipt \<Rightarrow> jobs \<Rightarrow> jobs" where
  "exported_working now jid receipt j =
     end_job now jid (Some \<lparr>e_state = Succeeded, e_issue = None, e_export = None, e_working_export = Some receipt\<rparr>)
       (advance_job jid 1 (wr_size (we_source receipt)) j)"

definition failed :: "int \<Rightarrow> string \<Rightarrow> job_state \<Rightarrow> string option \<Rightarrow> jobs \<Rightarrow> jobs" where
  "failed now jid st why = end_job now jid (Some \<lparr>e_state = st, e_issue = why, e_export = None, e_working_export = None\<rparr>)"

text \<open>\<open>Drop for JobHandle\<close>.\<close>

definition drop_handle :: "int \<Rightarrow> string \<Rightarrow> jobs \<Rightarrow> jobs" where
  "drop_handle now jid = end_job now jid None"

text \<open>Cancelling a caller's token reaches the jobs whose token is its child.\<close>

definition cancel_parent :: "nat \<Rightarrow> jobs \<Rightarrow> jobs" where
  "cancel_parent t j = j\<lparr>running_jobs := map (\<lambda>r. if parent_token r = t then r\<lparr>cancelled := True\<rparr> else r) (running_jobs j)\<rparr>"

section \<open>The machine\<close>

text \<open>The outcomes take the handle by value, so it is dropped when they return.\<close>

datatype job_op =
    Start job_kind string "64 word" "64 word" nat bool string "64 word"
  | ListJobs int
  | Stop string
  | CancelParent nat
  | Advance string "64 word" "64 word"
  | ImportQueued string uuid "64 word"
  | Imported int string uuid node
  | ReplaceQueued string uuid node "64 word"
  | Replaced int string uuid node node node
  | TrashQueued string string uuid
  | Trashed int string string uuid
  | AbandonStarted string string uuid
  | Abandoned int string native_abandon_receipt
  | Finished int string
  | Exported int string local_export_receipt
  | ExportedWorking int string working_export_receipt
  | GaveUp int string job_state "string option"
  | DropHandle int string

fun job_exec :: "job_op \<Rightarrow> jobs \<Rightarrow> jobs" where
  "job_exec (Start kind name files bytes parent pc jid unix) j = start kind name files bytes parent pc jid unix j"
| "job_exec (ListJobs now) j = snd (list_jobs now j)"
| "job_exec (Stop jid) j = snd (stop jid j)"
| "job_exec (CancelParent t) j = cancel_parent t j"
| "job_exec (Advance jid files bytes) j = advance_job jid files bytes j"
| "job_exec (ImportQueued jid operation sz) j = native_import_queued jid operation sz j"
| "job_exec (Imported now jid operation remote) j = drop_handle now jid (native_imported now jid operation remote j)"
| "job_exec (ReplaceQueued jid operation original sz) j = native_replace_queued jid operation original sz j"
| "job_exec (Replaced now jid operation original current recovery) j =
     drop_handle now jid (native_replaced now jid operation original current recovery j)"
| "job_exec (TrashQueued jid acct operation) j = native_trash_queued jid acct operation j"
| "job_exec (Trashed now jid acct operation) j = drop_handle now jid (native_trashed now jid acct operation j)"
| "job_exec (AbandonStarted jid acct operation) j = native_abandon_started jid acct operation j"
| "job_exec (Abandoned now jid receipt) j = drop_handle now jid (native_abandoned now jid receipt j)"
| "job_exec (Finished now jid) j = drop_handle now jid (finished now jid j)"
| "job_exec (Exported now jid receipt) j = drop_handle now jid (exported now jid receipt j)"
| "job_exec (ExportedWorking now jid receipt) j = drop_handle now jid (exported_working now jid receipt j)"
| "job_exec (GaveUp now jid st why) j = drop_handle now jid (failed now jid st why j)"
| "job_exec (DropHandle now jid) j = drop_handle now jid j"

section \<open>What one step can do\<close>

text \<open>The entry an operation leaves in place of one it edits, the entry it starts, and the
  terminal record it writes for an entry it ends.\<close>

fun edit :: "job_op \<Rightarrow> running \<Rightarrow> running" where
  "edit (Stop i) r = stop_entry r"
| "edit (CancelParent t) r = r\<lparr>cancelled := True\<rparr>"
| "edit (Advance i files bytes) r = r\<lparr>rjob := advanced files bytes (rjob r)\<rparr>"
| "edit (ImportQueued i operation sz) r = r\<lparr>rjob := import_queued operation sz (rjob r)\<rparr>"
| "edit (ReplaceQueued i operation original sz) r = r\<lparr>rjob := replace_queued operation original sz (rjob r)\<rparr>"
| "edit (TrashQueued i acct operation) r = r\<lparr>rjob := trash_queued acct operation (rjob r)\<rparr>"
| "edit (AbandonStarted i acct operation) r = r\<lparr>rjob := abandon_started acct operation (rjob r)\<rparr>"
| "edit (Exported now i receipt) r = r\<lparr>rjob := advanced 1 (le_size receipt) (rjob r)\<rparr>"
| "edit (ExportedWorking now i receipt) r = r\<lparr>rjob := advanced 1 (wr_size (we_source receipt)) (rjob r)\<rparr>"
| "edit _ r = r"

fun started :: "job_op \<Rightarrow> running option" where
  "started (Start kind name files bytes parent pc i unix) =
     Some \<lparr>rjob = new_job kind name files bytes i unix, parent_token = parent, cancelled = pc\<rparr>"
| "started _ = None"

fun outcome :: "job_op \<Rightarrow> running \<Rightarrow> job option" where
  "outcome (Imported now i operation remote) r = (if has_id i r then Some (import_outcome operation remote r) else None)"
| "outcome (Replaced now i operation original current recovery) r =
     (if has_id i r then Some (replace_outcome operation original current recovery r) else None)"
| "outcome (Trashed now i acct operation) r = (if has_id i r then Some (trash_outcome acct operation r) else None)"
| "outcome (Abandoned now i receipt) r = (if has_id i r then Some (abandon_outcome receipt r) else None)"
| "outcome (Exported now i receipt) r = (if has_id i r
     then Some (ended_as \<lparr>e_state = Succeeded, e_issue = None, e_export = Some receipt, e_working_export = None\<rparr> (rjob r)) else None)"
| "outcome (ExportedWorking now i receipt) r = (if has_id i r
     then Some (ended_as \<lparr>e_state = Succeeded, e_issue = None, e_export = None, e_working_export = Some receipt\<rparr> (rjob r)) else None)"
| "outcome (GaveUp now i st why) r = (if has_id i r
     then Some (ended_as \<lparr>e_state = st, e_issue = why, e_export = None, e_working_export = None\<rparr> (rjob r)) else None)"
| "outcome _ r = None"

lemma set_update_first: "x \<in> set (update_first P f xs) \<Longrightarrow> x \<in> set xs \<or> (\<exists>y \<in> set xs. P y \<and> x = f y)"
  by (induction xs) (auto split: if_splits)

lemma remove_first_Some:
  "remove_first P xs = Some (y, ys) \<Longrightarrow> P y \<and> y \<in> set xs \<and> set ys \<subseteq> set xs"
  by (induction xs arbitrary: ys) (auto split: if_splits)

text \<open>The set-level effect of the primitives: nothing is invented.\<close>

definition within :: "running set \<Rightarrow> job set \<Rightarrow> jobs \<Rightarrow> bool" where
  "within R E j \<longleftrightarrow> set (running_jobs j) \<subseteq> R \<and> snd ` set (ended_jobs j) \<subseteq> E \<and> length (ended_jobs j) \<le> retained"

lemma push_ended_within:
  "snd ` set es \<subseteq> E \<Longrightarrow> length es \<le> retained \<Longrightarrow> e \<in> E \<Longrightarrow>
     snd ` set (push_ended now e es) \<subseteq> E \<and> length (push_ended now e es) \<le> retained"
  by (cases es) (auto simp: push_ended_def retained_def)

lemma within_update:
  "within R E j \<Longrightarrow> (\<And>r. r \<in> R \<Longrightarrow> has_id i r \<Longrightarrow> r\<lparr>rjob := f (rjob r)\<rparr> \<in> R) \<Longrightarrow> within R E (update_job i f j)"
  by (auto simp: within_def update_job_def dest!: set_update_first)

lemma within_move:
  assumes "within R E j" and "remove_first P (running_jobs j) = Some (r, rest)" and "e \<in> E"
  shows "within R E (j\<lparr>running_jobs := rest, ended_jobs := push_ended now e (ended_jobs j)\<rparr>)"
  using assms(1) remove_first_Some [OF assms(2)] push_ended_within [of "ended_jobs j" E e now] assms(3)
  by (simp add: within_def) blast

lemma within_settle:
  assumes "within R E j" and "\<And>r. r \<in> R \<Longrightarrow> has_id i r \<Longrightarrow> f r \<in> E"
  shows "within R E (settle now i f j)"
proof (cases "remove_first (has_id i) (running_jobs j)")
  case (Some s)
  then obtain r rest where s: "remove_first (has_id i) (running_jobs j) = Some (r, rest)"
    by (cases s) auto
  then have "f r \<in> E"
    using assms remove_first_Some [OF s] by (auto simp: within_def)
  then show ?thesis
    using within_move [OF assms(1) s] s by (simp add: settle_def)
qed (use assms(1) in \<open>simp add: settle_def\<close>)

lemma within_end:
  assumes "within R E j" and "\<And>r e. r \<in> R \<Longrightarrow> has_id i r \<Longrightarrow> out = Some e \<Longrightarrow> ended_as e (rjob r) \<in> E"
  shows "within R E (end_job now i out j)"
proof (cases "remove_first (has_id i) (running_jobs j)")
  case (Some s)
  then obtain r rest where s: "remove_first (has_id i) (running_jobs j) = Some (r, rest)"
    by (cases s) auto
  show ?thesis
  proof (cases out)
    case None
    then show ?thesis
      using assms(1) remove_first_Some [OF s] s by (auto simp: within_def end_job_def)
  next
    case (Some e)
    then have "ended_as e (rjob r) \<in> E"
      using assms remove_first_Some [OF s] by (auto simp: within_def)
    then show ?thesis
      using within_move [OF assms(1) s] s Some by (simp add: end_job_def)
  qed
qed (use assms(1) in \<open>simp add: end_job_def\<close>)

lemma within_drop: "within R E j \<Longrightarrow> within R E (drop_handle now i j)"
  unfolding drop_handle_def by (rule within_end) auto

lemma within_stop: "within R E j \<Longrightarrow> (\<And>r. r \<in> R \<Longrightarrow> stop_entry r \<in> R) \<Longrightarrow> within R E (snd (stop i j))"
  by (auto simp: within_def stop_def Let_def dest!: set_update_first intro: le_trans [OF length_filter_le])

lemma within_list: "within R E j \<Longrightarrow> within R E (snd (list_jobs now j))"
  by (auto simp: within_def list_jobs_def Let_def intro: le_trans [OF length_filter_le])

text \<open>
  The contract of a property of single jobs: what is started satisfies it, edits of
  running entries keep it, and terminal records of such entries have it. It then
  holds of the whole register through every allowed sequence of calls.
\<close>

locale job_contract =
  fixes allowed :: "job_op \<Rightarrow> bool"
    and R :: "running set"
    and E :: "job set"
  assumes started_R: "allowed op \<Longrightarrow> started op = Some r \<Longrightarrow> r \<in> R"
    and edit_R: "allowed op \<Longrightarrow> r \<in> R \<Longrightarrow> edit op r \<in> R"
    and outcome_E: "allowed op \<Longrightarrow> r \<in> R \<Longrightarrow> outcome op r = Some e \<Longrightarrow> e \<in> E"
begin

lemma exec_within:
  assumes "within R E j" and "allowed op"
  shows "within R E (job_exec op j)"
proof -
  note s = started_R [OF assms(2)] and e = edit_R [OF assms(2)] and f = outcome_E [OF assms(2)]
  show ?thesis
  proof (cases op)
    case (Start kind name files bytes parent pc i unix)
    then show ?thesis
      using assms(1) s by (auto simp: within_def start_def)
  next
    case (CancelParent t)
    then show ?thesis
      using assms(1) e by (auto simp: within_def cancel_parent_def)
  next
    case (Exported now i receipt)
    then have "within R E (advance_job i 1 (le_size receipt) j)"
      unfolding advance_job_def using e by (intro within_update [OF assms(1)]) auto
    then show ?thesis
      using Exported f by (auto simp: exported_def intro!: within_drop within_end)
  next
    case (ExportedWorking now i receipt)
    then have "within R E (advance_job i 1 (wr_size (we_source receipt)) j)"
      unfolding advance_job_def using e by (intro within_update [OF assms(1)]) auto
    then show ?thesis
      using ExportedWorking f by (auto simp: exported_working_def intro!: within_drop within_end)
  qed (use assms(1) e f in \<open>auto simp: advance_job_def native_import_queued_def native_imported_def native_replace_queued_def
      native_replaced_def native_trash_queued_def native_trashed_def native_abandon_started_def native_abandoned_def
      finished_def failed_def intro!: within_drop within_end within_settle within_update within_stop within_list\<close>)
qed

lemma run_within: "within R E j \<Longrightarrow> list_all allowed ops \<Longrightarrow> within R E (fold job_exec ops j)"
  by (induction ops arbitrary: j) (auto intro: exec_within)

end

section \<open>Identities\<close>

definition job_ids :: "jobs \<Rightarrow> string list" where
  "job_ids j = map job_id (all_jobs j)"

fun start_ids :: "job_op list \<Rightarrow> string list" where
  "start_ids [] = []"
| "start_ids (op # ops) = (case started op of None \<Rightarrow> start_ids ops | Some r \<Rightarrow> job_id (rjob r) # start_ids ops)"

lemma mset_remove_first: "remove_first P xs = Some (y, ys) \<Longrightarrow> mset xs = add_mset y (mset ys)"
  by (induction xs arbitrary: ys) (auto split: if_splits)

lemma map_update_first: "(\<And>x. g (f x) = g x) \<Longrightarrow> map g (update_first P f xs) = map g xs"
  by (induction xs) auto

lemma mset_update_first: "(\<And>x. g (f x) = g x) \<Longrightarrow> image_mset g (mset (update_first P f xs)) = image_mset g (mset xs)"
  by (metis map_update_first mset_map)

lemma mset_push_ended: "mset (map (\<lambda>e. job_id (snd e)) (push_ended now e es)) \<subseteq># add_mset (job_id e) (mset (map (\<lambda>e. job_id (snd e)) es))"
  by (cases es) (auto simp: push_ended_def)

lemma mset_job_ids: "mset (job_ids j) =
    mset (map (\<lambda>r. job_id (rjob r)) (running_jobs j)) + mset (map (\<lambda>e. job_id (snd e)) (ended_jobs j))"
  by (simp add: job_ids_def all_jobs_def comp_def)

lemma ids_update: "(\<And>e. job_id (f e) = job_id e) \<Longrightarrow> mset (job_ids (update_job i f j)) = mset (job_ids j)"
  by (simp add: mset_job_ids update_job_def map_update_first)

lemma ids_move:
  assumes "remove_first P (running_jobs j) = Some (r, rest)" and "job_id e = job_id (rjob r)"
  shows "mset (job_ids (j\<lparr>running_jobs := rest, ended_jobs := push_ended now e (ended_jobs j)\<rparr>)) \<subseteq># mset (job_ids j)"
  using mset_remove_first [OF assms(1)] mset_push_ended [of now e "ended_jobs j"] assms(2)
  unfolding mset_job_ids by (simp add: add.commute)

lemma ids_settle:
  assumes "\<And>r. job_id (f r) = job_id (rjob r)"
  shows "mset (job_ids (settle now i f j)) \<subseteq># mset (job_ids j)"
  using ids_move assms by (auto simp: settle_def split: option.split)

lemma ids_end: "mset (job_ids (end_job now i out j)) \<subseteq># mset (job_ids j)"
proof (cases "remove_first (has_id i) (running_jobs j)")
  case (Some s)
  then obtain r rest where s: "remove_first (has_id i) (running_jobs j) = Some (r, rest)"
    by (cases s) auto
  then show ?thesis
    using ids_move [OF s] mset_remove_first [OF s]
    by (auto simp: end_job_def ended_as_def mset_job_ids split: option.split)
qed (simp add: end_job_def)

lemma ids_drop: "mset (job_ids j') \<subseteq># M \<Longrightarrow> mset (job_ids (drop_handle now i j')) \<subseteq># M"
  unfolding drop_handle_def using ids_end subset_mset.order_trans by blast

lemma ids_filter_ended: "mset (job_ids (j\<lparr>ended_jobs := filter P (ended_jobs j)\<rparr>)) \<subseteq># mset (job_ids j)"
  by (simp add: mset_job_ids image_mset_subseteq_mono)

lemmas outcome_defs = import_outcome_def replace_outcome_def trash_outcome_def abandon_outcome_def
lemmas edit_defs = stop_entry_def advanced_def import_queued_def replace_queued_def trash_queued_def abandon_started_def
lemmas handler_defs = advance_job_def native_import_queued_def native_imported_def native_replace_queued_def
  native_replaced_def native_trash_queued_def native_trashed_def native_abandon_started_def native_abandoned_def
  finished_def failed_def exported_def exported_working_def

lemma outcome_id [simp]:
  "job_id (import_outcome operation remote r) = job_id (rjob r)"
  "job_id (replace_outcome operation original current recovery r) = job_id (rjob r)"
  "job_id (trash_outcome acct operation r) = job_id (rjob r)"
  "job_id (abandon_outcome receipt r) = job_id (rjob r)"
  by (simp_all add: outcome_defs Let_def split: option.split)

lemma edit_id [simp]:
  "job_id (rjob (stop_entry r)) = job_id (rjob r)"
  "job_id (advanced files bytes e) = job_id e"
  "job_id (import_queued operation sz e) = job_id e"
  "job_id (replace_queued operation original sz e) = job_id e"
  "job_id (trash_queued acct operation e) = job_id e"
  "job_id (abandon_started acct operation e) = job_id e"
  by (simp_all add: edit_defs split: option.split)

lemma ids_exec:
  "mset (job_ids (job_exec op j)) \<subseteq># mset (job_ids j) + mset (start_ids [op])"
proof (cases op)
  case (Start kind name files bytes parent pc i unix)
  then show ?thesis
    by (simp add: mset_job_ids start_def new_job_def)
next
  case (Stop i)
  then show ?thesis
    using ids_filter_ended by (simp add: stop_def Let_def mset_job_ids mset_update_first)
next
  case (ListJobs now)
  then show ?thesis
    using ids_filter_ended by (simp add: list_jobs_def Let_def)
next
  case (CancelParent t)
  then show ?thesis
    by (simp add: mset_job_ids cancel_parent_def comp_def if_distrib cong: if_cong)
qed (auto simp: handler_defs ids_update intro!: ids_drop ids_settle intro: subset_mset.order_trans [OF ids_end])

lemma ids_run: "mset (job_ids (fold job_exec ops j)) \<subseteq># mset (job_ids j) + mset (start_ids ops)"
proof (induction ops arbitrary: j)
  case (Cons op ops)
  have "mset (job_ids (fold job_exec (op # ops) j)) \<subseteq># mset (job_ids (job_exec op j)) + mset (start_ids ops)"
    using Cons.IH by simp
  also have "\<dots> \<subseteq># (mset (job_ids j) + mset (start_ids [op])) + mset (start_ids ops)"
    by (rule subset_mset.add_right_mono) (rule ids_exec)
  also have "\<dots> = mset (job_ids j) + mset (start_ids (op # ops))"
    by (simp split: option.split)
  finally show ?case .
qed simp

lemma distinct_run:
  assumes "distinct (start_ids ops)"
  shows "distinct (job_ids (fold job_exec ops new_jobs))"
proof -
  have "mset (job_ids (fold job_exec ops new_jobs)) \<subseteq># mset (start_ids ops)"
    using ids_run [of ops new_jobs] by (simp add: job_ids_def all_jobs_def new_jobs_def)
  then show ?thesis
    using assms by (metis distinct_append ex_mset mset_append mset_eq_imp_distinct_iff subset_mset.le_iff_add)
qed

lemma start_ids_append: "start_ids (xs @ ys) = start_ids xs @ start_ids ys"
  by (induction xs) (auto split: option.split)

lemma ids_started: "i \<in> set (job_ids (fold job_exec ops new_jobs)) \<Longrightarrow> i \<in> set (start_ids ops)"
proof -
  assume "i \<in> set (job_ids (fold job_exec ops new_jobs))"
  then have "i \<in># mset (job_ids new_jobs) + mset (start_ids ops)"
    using ids_run [of ops new_jobs] by (metis mset_subset_eqD set_mset_mset)
  then show ?thesis
    by (simp add: job_ids_def all_jobs_def new_jobs_def)
qed

lemma stop_started: "stop i (fold job_exec ops new_jobs) = (Asked, j) \<Longrightarrow> i \<in> set (start_ids ops)"
  by (rule ids_started) (auto simp: stop_def Let_def list_ex_iff has_id_def job_ids_def all_jobs_def split: if_splits)

section \<open>Contracts\<close>

text \<open>A running job carries no receipt; a recorded one carries receipts only as a success, and
  a replacement only with the identities that were queued.\<close>

definition no_receipt :: "job \<Rightarrow> bool" where
  "no_receipt e \<longleftrightarrow> export e = None \<and> working_export e = None
     \<and> (case native_import e of None \<Rightarrow> True | Some p \<Rightarrow> ni_remote p = None)
     \<and> (case native_replace e of None \<Rightarrow> True | Some p \<Rightarrow> nr_current p = None \<and> nr_recovery p = None)
     \<and> (case native_trash e of None \<Rightarrow> True | Some p \<Rightarrow> \<not> removal_receipt_recorded p \<and> \<not> metadata_absence_recorded p)
     \<and> (case native_abandon e of None \<Rightarrow> True | Some p \<Rightarrow> na_receipt p = None)"

definition replace_bound :: "job_kind \<Rightarrow> native_replace_progress \<Rightarrow> bool" where
  "replace_bound kind p = (case (nr_current p, nr_recovery p) of
       (None, None) \<Rightarrow> True
     | (Some c, Some r) \<Rightarrow> kind = ReplaceNativePackage
         \<and> node_id c \<noteq> node_id (nr_original p) \<and> node_id r = node_id (nr_original p)
     | _ \<Rightarrow> False)"

definition abandon_bound :: "native_abandon_progress \<Rightarrow> bool" where
  "abandon_bound p = (case na_receipt p of
       None \<Rightarrow> True | Some r \<Rightarrow> nar_operation r = na_operation p \<and> nar_account_id r = na_account_id p)"

definition bound_receipts :: "job \<Rightarrow> bool" where
  "bound_receipts e \<longleftrightarrow> job_state e = Succeeded
     \<and> pred_option (replace_bound (job_kind e)) (native_replace e)
     \<and> pred_option (\<lambda>p. removal_receipt_recorded p = metadata_absence_recorded p) (native_trash e)
     \<and> pred_option abandon_bound (native_abandon e)"

lemma no_receipt_bound:
  assumes "no_receipt e"
  shows "pred_option (replace_bound k) (native_replace e)"
    and "pred_option (\<lambda>p. removal_receipt_recorded p = metadata_absence_recorded p) (native_trash e)"
    and "pred_option abandon_bound (native_abandon e)"
proof -
  show "pred_option (replace_bound k) (native_replace e)"
    using assms unfolding no_receipt_def by (cases "native_replace e") (simp_all add: replace_bound_def)
  show "pred_option (\<lambda>p. removal_receipt_recorded p = metadata_absence_recorded p) (native_trash e)"
    using assms unfolding no_receipt_def by (cases "native_trash e") simp_all
  show "pred_option abandon_bound (native_abandon e)"
    using assms unfolding no_receipt_def by (cases "native_abandon e") (simp_all add: abandon_bound_def)
qed

lemma no_receipt_upd [simp]:
  "no_receipt (e\<lparr>job_state := st\<rparr>) = no_receipt e"
  "no_receipt (e\<lparr>issue := w\<rparr>) = no_receipt e"
  "no_receipt (e\<lparr>files_done := n\<rparr>) = no_receipt e"
  by (simp_all add: no_receipt_def)

lemma import_receipts: "no_receipt (rjob r) \<Longrightarrow> no_receipt (import_outcome operation remote r) \<or> bound_receipts (import_outcome operation remote r)"
  using no_receipt_bound [of "rjob r"]
  by (cases "native_import (rjob r)") (simp_all add: import_outcome_def bound_receipts_def Let_def)

lemma replace_receipts: "no_receipt (rjob r) \<Longrightarrow>
    no_receipt (replace_outcome operation original current recovery r) \<or> bound_receipts (replace_outcome operation original current recovery r)"
  using no_receipt_bound [of "rjob r"]
  by (cases "native_replace (rjob r)") (simp_all add: replace_outcome_def bound_receipts_def replace_bound_def Let_def)

lemma trash_receipts: "no_receipt (rjob r) \<Longrightarrow> no_receipt (trash_outcome acct operation r) \<or> bound_receipts (trash_outcome acct operation r)"
  using no_receipt_bound [of "rjob r"]
  by (cases "native_trash (rjob r)") (simp_all add: trash_outcome_def bound_receipts_def Let_def)

lemma abandon_receipts: "no_receipt (rjob r) \<Longrightarrow> no_receipt (abandon_outcome receipt r) \<or> bound_receipts (abandon_outcome receipt r)"
  using no_receipt_bound [of "rjob r"]
  by (cases "native_abandon (rjob r)") (simp_all add: abandon_outcome_def bound_receipts_def abandon_bound_def Let_def)

lemma ended_receipts:
  "no_receipt e \<Longrightarrow> (e_export d \<noteq> None \<or> e_working_export d \<noteq> None \<longrightarrow> e_state d = Succeeded) \<Longrightarrow>
     no_receipt (ended_as d e) \<or> bound_receipts (ended_as d e)"
  using no_receipt_bound [of e] by (auto simp: ended_as_def bound_receipts_def no_receipt_def)

lemma outcome_receipts:
  assumes "no_receipt (rjob r)" and "outcome op r = Some e"
  shows "no_receipt e \<or> bound_receipts e"
proof -
  define ok where "ok e \<longleftrightarrow> no_receipt e \<or> bound_receipts e" for e
  have ended: "ok (ended_as \<lparr>e_state = st, e_issue = w, e_export = x, e_working_export = y\<rparr> (rjob r))"
    if "x \<noteq> None \<or> y \<noteq> None \<longrightarrow> st = Succeeded" for st w x y
    unfolding ok_def by (rule ended_receipts [OF assms(1)]) (use that in simp)
  have "ok e"
    using assms(2) import_receipts [OF assms(1), folded ok_def] replace_receipts [OF assms(1), folded ok_def]
      trash_receipts [OF assms(1), folded ok_def] abandon_receipts [OF assms(1), folded ok_def]
    by (cases op) (auto simp: ended split: if_splits)
  then show ?thesis
    unfolding ok_def .
qed

interpretation receipts: job_contract "\<lambda>_. True" "{r. no_receipt (rjob r) \<and> job_running (rjob r)}" "{e. no_receipt e \<or> bound_receipts e}"
proof
  fix op r e
  show "r \<in> {r. no_receipt (rjob r) \<and> job_running (rjob r)}" if "started op = Some r"
    using that by (cases op) (auto simp: new_job_def no_receipt_def job_running_def)
  show "edit op r \<in> {r. no_receipt (rjob r) \<and> job_running (rjob r)}" if "r \<in> {r. no_receipt (rjob r) \<and> job_running (rjob r)}"
    using that by (cases op) (auto simp: edit_defs no_receipt_def job_running_def split: option.splits)
  show "e \<in> {e. no_receipt e \<or> bound_receipts e}" if "r \<in> {r. no_receipt (rjob r) \<and> job_running (rjob r)}" "outcome op r = Some e"
    using that outcome_receipts by auto
qed

text \<open>Calls that report a success which a stop does not suppress: an export that was
  published, an abandonment that was committed, or a caller that says so itself.\<close>

fun claims_success :: "string \<Rightarrow> job_op \<Rightarrow> bool" where
  "claims_success i (Exported now k receipt) \<longleftrightarrow> k = i"
| "claims_success i (ExportedWorking now k receipt) \<longleftrightarrow> k = i"
| "claims_success i (Abandoned now k receipt) \<longleftrightarrow> k = i"
| "claims_success i (GaveUp now k st why) \<longleftrightarrow> k = i \<and> st = Succeeded"
| "claims_success i _ \<longleftrightarrow> False"

definition starts :: "string \<Rightarrow> job_op \<Rightarrow> bool" where
  "starts i op = (case started op of None \<Rightarrow> False | Some r \<Rightarrow> job_id (rjob r) = i)"

lemma list_ex_starts: "list_ex (starts i) ops \<longleftrightarrow> i \<in> set (start_ids ops)"
  by (induction ops) (auto simp: starts_def split: option.split)

interpretation stop_kept: job_contract "\<lambda>op. \<not> claims_success i op \<and> \<not> starts i op"
    "{r. has_id i r \<longrightarrow> job_state (rjob r) = Stopping}" "{e. job_id e = i \<longrightarrow> job_state e \<noteq> Succeeded}" for i
proof
  fix op r e
  assume a: "\<not> claims_success i op \<and> \<not> starts i op"
  show "r \<in> {r. has_id i r \<longrightarrow> job_state (rjob r) = Stopping}" if "started op = Some r"
    using that a by (auto simp: starts_def has_id_def)
  assume r: "r \<in> {r. has_id i r \<longrightarrow> job_state (rjob r) = Stopping}"
  show "edit op r \<in> {r. has_id i r \<longrightarrow> job_state (rjob r) = Stopping}"
    using r by (cases op) (auto simp: edit_defs has_id_def split: option.splits if_splits)
  show "e \<in> {e. job_id e = i \<longrightarrow> job_state e \<noteq> Succeeded}" if "outcome op r = Some e"
    using that r a
    by (cases op) (auto simp: outcome_defs ends_stopped_def ended_as_def has_id_def Let_def split: option.splits if_splits)
qed

definition trash_bound :: "string \<Rightarrow> string \<Rightarrow> uuid \<Rightarrow> job \<Rightarrow> bool" where
  "trash_bound i acct operation e \<longleftrightarrow> (job_id e = i \<longrightarrow>
     (case native_trash e of None \<Rightarrow> False | Some p \<Rightarrow> nt_account_id p = acct \<and> nt_operation p = operation))"

interpretation trash_binding: job_contract "\<lambda>op. \<not> starts i op"
    "{r. trash_bound i acct operation (rjob r)}" "{e. trash_bound i acct operation e}" for i acct operation
proof
  fix op r e
  assume a: "\<not> starts i op"
  show "r \<in> {r. trash_bound i acct operation (rjob r)}" if "started op = Some r"
    using that a by (auto simp: starts_def trash_bound_def)
  assume r: "r \<in> {r. trash_bound i acct operation (rjob r)}"
  show "edit op r \<in> {r. trash_bound i acct operation (rjob r)}"
    using r by (cases op) (auto simp: edit_defs trash_bound_def split: option.splits if_splits)
  show "e \<in> {e. trash_bound i acct operation e}" if "outcome op r = Some e"
    using that r
    by (cases op) (auto simp: outcome_defs ended_as_def trash_bound_def Let_def split: option.splits if_splits)
qed

section \<open>Guarantees\<close>

lemma length_filter_conv_all: "length (filter P xs) = length xs \<longleftrightarrow> (\<forall>x \<in> set xs. P x)"
  by (metis filter_id_conv length_filter_less nat_neq_iff)

lemma within_new: "within R E new_jobs"
  by (simp add: within_def new_jobs_def)

text \<open>Through any sequence of calls, at most four ended jobs are retained; a job that
  runs carries no receipt; and a recorded job carries one only if it succeeded, where a
  replacement names a new current item and its original as the recovery copy, a
  removal is recorded with its metadata absence, and an abandonment has the account
  and operation it was started for.\<close>

theorem receipts_only_on_success:
  "length (ended_jobs (fold job_exec ops new_jobs)) \<le> 4
   \<and> (\<forall>e \<in> set (all_jobs (fold job_exec ops new_jobs)). no_receipt e \<or> (\<not> job_running e \<and> bound_receipts e))
   \<and> (\<forall>r \<in> set (running_jobs (fold job_exec ops new_jobs)). job_running (rjob r) \<and> no_receipt (rjob r))"
proof -
  have "within {r. no_receipt (rjob r) \<and> job_running (rjob r)} {e. no_receipt e \<or> bound_receipts e} (fold job_exec ops new_jobs)"
    by (rule receipts.run_within [OF within_new]) (simp add: list_all_iff)
  then show ?thesis
    by (auto simp: within_def retained_def all_jobs_def bound_receipts_def job_running_def)
qed

lemma within_jobs:
  "within {r. Q (rjob r)} {e. Q e} j \<longleftrightarrow> (\<forall>e \<in> set (all_jobs j). Q e) \<and> length (ended_jobs j) \<le> retained"
  by (auto simp: within_def all_jobs_def)

lemma find_job_in: "find_job i j = Some e \<Longrightarrow> e \<in> set (all_jobs j) \<and> job_id e = i"
  by (auto simp: find_job_def find_Some_iff)

lemma stop_marks:
  assumes "distinct (job_ids j)" and "stop i j = (Asked, j')"
  shows "(\<forall>r \<in> set (running_jobs j'). has_id i r \<longrightarrow> job_state (rjob r) = Stopping)
    \<and> (\<forall>e \<in> snd ` set (ended_jobs j'). job_id e \<noteq> i)"
proof -
  have j': "j' = j\<lparr>running_jobs := update_first (has_id i) stop_entry (running_jobs j)\<rparr>" "list_ex (has_id i) (running_jobs j)"
    using assms(2) by (auto simp: stop_def Let_def split: if_splits)
  have d: "distinct (map (\<lambda>r. job_id (rjob r)) (running_jobs j))"
    "set (map (\<lambda>r. job_id (rjob r)) (running_jobs j)) \<inter> set (map (\<lambda>e. job_id (snd e)) (ended_jobs j)) = {}"
    using assms(1) by (simp_all add: job_ids_def all_jobs_def comp_def image_image)
  have "\<forall>r \<in> set (update_first (has_id i) stop_entry rs). has_id i r \<longrightarrow> job_state (rjob r) = Stopping"
    if "distinct (map (\<lambda>r. job_id (rjob r)) rs)" for rs
    using that by (induction rs) (auto simp: has_id_def stop_entry_def image_iff)
  then show ?thesis
    using j' d by (auto simp: list_ex_iff has_id_def)
qed


lemma trash_bound_now:
  assumes "distinct (job_ids j)" and "find_job i j = Some e" and "native_trash e = Some p"
  shows "\<forall>e \<in> set (all_jobs j). trash_bound i (nt_account_id p) (nt_operation p) e"
proof
  fix e'
  assume e': "e' \<in> set (all_jobs j)"
  have "e' = e" if "job_id e' = i"
    using assms(1) e' that find_job_in [OF assms(2)] by (auto simp: job_ids_def distinct_map dest: inj_onD)
  then show "trash_bound i (nt_account_id p) (nt_operation p) e'"
    using assms(3) by (auto simp: trash_bound_def)
qed

text \<open>the account and operation a removal job was queued with stay those of its record
  for as long as it is listed: a later call cannot bind it to another operation, and
  neither a stop, a failure nor a mismatched receipt changes them.\<close>

theorem trash_binding_never_changes:
  assumes "distinct (start_ids (earlier @ later))" and "j = fold job_exec earlier new_jobs"
    and "find_job i j = Some e" and "native_trash e = Some p"
    and "find_job i (fold job_exec later j) = Some e'"
  shows "\<exists>p'. native_trash e' = Some p' \<and> nt_account_id p' = nt_account_id p \<and> nt_operation p' = nt_operation p"
proof -
  have d: "distinct (job_ids j)" and i: "i \<in> set (start_ids earlier)"
    using assms(1,2) distinct_run [of earlier] ids_started [of i earlier] find_job_in [OF assms(3)]
    by (auto simp: start_ids_append job_ids_def)
  then have ok: "list_all (\<lambda>op. \<not> starts i op) later"
    using assms(1) list_ex_starts [of i later] by (auto simp: start_ids_append list_all_iff list_ex_iff)
  have "length (ended_jobs j) \<le> retained"
    using receipts.run_within [OF within_new, of earlier] by (simp add: within_def list_all_iff assms(2))
  then have "within {r. trash_bound i (nt_account_id p) (nt_operation p) (rjob r)} {e. trash_bound i (nt_account_id p) (nt_operation p) e} j"
    using trash_bound_now [OF d assms(3,4)] by (simp add: within_jobs)
  from trash_binding.run_within [OF this ok] have "trash_bound i (nt_account_id p) (nt_operation p) e'"
    using find_job_in [OF assms(5)] by (simp add: within_jobs)
  then show ?thesis
    using find_job_in [OF assms(5)] by (auto simp: trash_bound_def split: option.splits)
qed

lemma find_job_None: "find_job i j = None \<longleftrightarrow> i \<notin> set (job_ids j)"
  by (auto simp: find_job_def find_None_iff job_ids_def)

text \<open>a stop is accepted only for a job that is still running, dismisses only the
  record of one that ended, after which the id is unknown, and otherwise finds no job
  with that id and changes nothing.\<close>

theorem stop_outcomes:
  "case stop i j of
     (Asked, j') \<Rightarrow> (\<exists>r \<in> set (running_jobs j). job_id (rjob r) = i) \<and> asked_to_stop i j'
   | (Dismissed, j') \<Rightarrow> find_job i j \<noteq> None \<and> find_job i j' = None \<and> running_jobs j' = running_jobs j
   | (NoSuchJob, j') \<Rightarrow> find_job i j = None \<and> j' = j"
proof (cases "list_ex (has_id i) (running_jobs j)")
  case True
  have "find (\<lambda>e. job_id e = i) (map rjob (update_first (has_id i) stop_entry rs) @ es) =
      Some (rjob (stop_entry (the (find (has_id i) rs))))" if "list_ex (has_id i) rs" for rs es
    using that by (induction rs) (auto simp: has_id_def stop_entry_def)
  then show ?thesis
    using True by (auto simp: stop_def asked_to_stop_def find_job_def all_jobs_def list_ex_iff has_id_def stop_entry_def)
next
  case False
  then have r: "i \<notin> set (map (\<lambda>r. job_id (rjob r)) (running_jobs j))"
    by (auto simp: list_ex_iff has_id_def)
  let ?kept = "filter (\<lambda>(_, e). job_id e \<noteq> i) (ended_jobs j)"
  have "length ?kept = length (ended_jobs j) \<longleftrightarrow> i \<notin> set (map (\<lambda>e. job_id (snd e)) (ended_jobs j))"
    unfolding length_filter_conv_all by force
  moreover have "?kept = ended_jobs j" if "i \<notin> set (map (\<lambda>e. job_id (snd e)) (ended_jobs j))"
    using that by (force simp: filter_id_conv)
  moreover have "i \<notin> set (map (\<lambda>e. job_id (snd e)) ?kept)"
    by auto
  ultimately show ?thesis
    using False r by (auto simp: stop_def find_job_None job_ids_def all_jobs_def Let_def image_image)
qed

section \<open>Concrete instances\<close>

definition demo_jobs :: "job_op list" where
  "demo_jobs = [Start TrashNativeDocument ''Own.pages'' 1 0 0 False ''j1'' 100,
     Start KeepOffline ''Photos'' 9 0 0 False ''j2'' 101, TrashQueued ''j1'' ''acct'' ''op'']"

theorem receipts_only_on_success_witness:
  "case find_job ''j1'' (fold job_exec (demo_jobs @ [Trashed 7 ''j1'' ''acct'' ''op'']) new_jobs) of
     None \<Rightarrow> False | Some e \<Rightarrow> \<not> no_receipt e \<and> bound_receipts e"
proof -
  let ?j = "fold job_exec (demo_jobs @ [Trashed 7 ''j1'' ''acct'' ''op'']) new_jobs"
  have "case find_job ''j1'' ?j of None \<Rightarrow> False | Some e \<Rightarrow> \<not> no_receipt e"
    by code_simp
  then obtain e where e: "find_job ''j1'' ?j = Some e" "\<not> no_receipt e"
    by (auto split: option.splits)
  then have "e \<in> set (all_jobs ?j)"
    using find_job_in by blast
  then show ?thesis
    using receipts_only_on_success [of "demo_jobs @ [Trashed 7 ''j1'' ''acct'' ''op'']"] e by auto
qed


theorem trash_binding_never_changes_witness:
  "\<exists>e p. find_job ''j1'' (fold job_exec [TrashQueued ''j1'' ''other'' ''op2'', GaveUp 7 ''j1'' Failed None] (fold job_exec demo_jobs new_jobs)) = Some e
     \<and> native_trash e = Some p \<and> nt_account_id p = ''acct'' \<and> nt_operation p = ''op''"
proof -
  let ?later = "[TrashQueued ''j1'' ''other'' ''op2'', GaveUp 7 ''j1'' Failed None]"
  let ?p = "\<lparr>nt_account_id = ''acct'', nt_operation = ''op'', removal_receipt_recorded = False, metadata_absence_recorded = False\<rparr>"
  have d: "distinct (start_ids (demo_jobs @ ?later))"
    and f: "map_option native_trash (find_job ''j1'' (fold job_exec demo_jobs new_jobs)) = Some (Some ?p)"
    and g: "find_job ''j1'' (fold job_exec ?later (fold job_exec demo_jobs new_jobs)) \<noteq> None"
    by code_simp+
  obtain e e' where "find_job ''j1'' (fold job_exec demo_jobs new_jobs) = Some e" "native_trash e = Some ?p"
    "find_job ''j1'' (fold job_exec ?later (fold job_exec demo_jobs new_jobs)) = Some e'"
    using f g by blast
  then show ?thesis
    using trash_binding_never_changes [OF d refl, of "''j1''" e ?p e'] by auto
qed

end
