(* ===== verification/Core_Mutation.thy ===== *)
theory Core_Mutation
  imports Core_Types
begin

text \<open>
  Conditional namespace changes (\<open>cirrove-core/src/mutation.rs\<close>): the request a
  journal row carries, its validation before any provider call, which receipts
  acknowledge it, and the attestation that a relocation left the content alone.
\<close>

datatype mutation_error = MProvider provider_error | MConflict | MInvalid | MLocked | MQuota
  | MInsufficientStorage | MUncertain | MUnsupported string

datatype mutation_intent =
    CreateFolder string string
  | Relocate node string string
  | RemoveFile node
  | RemoveFolder node
  | TrashNativeDocument node

fun intent_before :: "mutation_intent \<Rightarrow> node option" where
  "intent_before (CreateFolder parent name) = None"
| "intent_before (Relocate before parent name) = Some before"
| "intent_before (RemoveFile before) = Some before"
| "intent_before (RemoveFolder before) = Some before"
| "intent_before (TrashNativeDocument before) = Some before"

record mutation_request =
  mr_scope :: scope
  mr_intent :: mutation_intent

definition text_valid :: "string \<Rightarrow> bool" where
  "text_valid value = (value \<noteq> [] \<and> length value \<le> 4096 \<and> CHR 0x00 \<notin> set value)"

definition name_valid :: "string \<Rightarrow> bool" where
  "name_valid value =
     (text_valid value \<and> value \<noteq> ''.'' \<and> value \<noteq> ''..'' \<and> CHR ''/'' \<notin> set value)"

definition is_some_and :: "'a option \<Rightarrow> ('a \<Rightarrow> bool) \<Rightarrow> bool" where
  "is_some_and v p = (case v of None \<Rightarrow> False | Some x \<Rightarrow> p x)"

lemma is_some_and_iff: "is_some_and v p \<longleftrightarrow> (\<exists>x. v = Some x \<and> p x)"
  by (auto simp: is_some_and_def split: option.splits)

definition no_wildcard :: "string \<Rightarrow> bool" where
  "no_wildcard s = (CHR 0x0D \<notin> set s \<and> CHR 0x0A \<notin> set s \<and> CHR ''*'' \<notin> set s)"

definition mutation_validate :: "mutation_request \<Rightarrow> mutation_error + unit" where
  "mutation_validate r =
     (let s = mr_scope r in
      if \<not> text_valid (account s) \<or> \<not> text_valid (provider s) \<or> \<not> text_valid (collection s)
      then Inl MInvalid
      else if is_some_and (intent_before (mr_intent r)) (\<lambda>before.
             \<not> text_valid (node_id before) \<or> \<not> name_valid (node_name before)
             \<or> \<not> is_some_and (parent_id before) text_valid
             \<or> \<not> is_some_and (etag before) (\<lambda>t. text_valid t \<and> no_wildcard t)
             \<or> node_target before \<noteq> None \<or> node_kind before = Shortcut)
      then Inl MInvalid
      else if \<not> (case mr_intent r of
             CreateFolder parent value \<Rightarrow> text_valid parent \<and> name_valid value
           | Relocate before parent value \<Rightarrow> text_valid parent \<and> name_valid value
           | RemoveFile before \<Rightarrow> node_kind before = File
           | RemoveFolder before \<Rightarrow> node_kind before = Folder
           | TrashNativeDocument before \<Rightarrow> node_kind before = Folder \<and> package before)
      then Inl MInvalid
      else case mr_intent r of
             Relocate before parent value \<Rightarrow>
               if node_id before = parent then Inl MInvalid else Inr ()
           | _ \<Rightarrow> Inr ())"

datatype mutation_receipt = ReceiptUpsert node | ReceiptRemoved string

fun accepts_intent :: "mutation_intent \<Rightarrow> mutation_receipt \<Rightarrow> bool" where
  "accepts_intent (CreateFolder parent name) (ReceiptUpsert n) =
     (node_id n \<noteq> [] \<and> node_kind n = Folder \<and> node_target n = None
      \<and> node_name n = name \<and> parent_id n = Some parent)"
| "accepts_intent (Relocate before parent name) (ReceiptUpsert n) =
     (node_id n = node_id before \<and> node_kind n = node_kind before \<and> node_target n = None
      \<and> node_name n = name \<and> parent_id n = Some parent
      \<and> is_some_and (etag n) (\<lambda>s. s \<noteq> []))"
| "accepts_intent (RemoveFile before) (ReceiptRemoved item) = (node_id before = item)"
| "accepts_intent (RemoveFolder before) (ReceiptRemoved item) = (node_id before = item)"
| "accepts_intent (TrashNativeDocument before) (ReceiptRemoved item) = (node_id before = item)"
| "accepts_intent _ _ = False"

definition accepts :: "mutation_request \<Rightarrow> mutation_receipt \<Rightarrow> bool" where
  "accepts r receipt = accepts_intent (mr_intent r) receipt"

record verified_mutation_content =
  vm_scope :: scope
  vm_item :: string
  source_etag :: string
  result_etag :: string
  vm_size :: "64 word"
  vm_sha256 :: string

definition etag_ok :: "string \<Rightarrow> bool" where
  "etag_ok t = (t \<noteq> [] \<and> length t \<le> 4096 \<and> no_wildcard t)"

definition sha256_ok :: "string \<Rightarrow> bool" where
  "sha256_ok s = (length s = 64 \<and> list_all is_lower_hex s)"

definition valid_for ::
    "verified_mutation_content \<Rightarrow> mutation_request \<Rightarrow> mutation_receipt \<Rightarrow> bool" where
  "valid_for proof request receipt =
     (case (mr_intent request, receipt) of
        (Relocate before parent name, ReceiptUpsert after) \<Rightarrow>
          accepts request receipt
          \<and> vm_scope proof = mr_scope request
          \<and> vm_item proof = node_id before
          \<and> node_kind before = File
          \<and> \<not> package before \<and> \<not> package after
          \<and> node_target before = None
          \<and> etag before = Some (source_etag proof)
          \<and> etag after = Some (result_etag proof)
          \<and> list_all etag_ok [source_etag proof, result_etag proof]
          \<and> vm_size proof = node_size before
          \<and> vm_size proof = node_size after
          \<and> sha256_ok (vm_sha256 proof)
      | _ \<Rightarrow> False)"

definition for_relocation ::
    "mutation_request \<Rightarrow> mutation_receipt \<Rightarrow> string
       \<Rightarrow> mutation_error + verified_mutation_content" where
  "for_relocation request receipt sha =
     (case (mr_intent request, receipt) of
        (Relocate before parent name, ReceiptUpsert after) \<Rightarrow>
          and_then (ok_or (etag before) MInvalid) (\<lambda>src.
          and_then (ok_or (etag after) MInvalid) (\<lambda>res.
            let proof = \<lparr>vm_scope = mr_scope request, vm_item = node_id before,
                         source_etag = src, result_etag = res,
                         vm_size = node_size before, vm_sha256 = sha\<rparr>
            in if \<not> valid_for proof request receipt then Inl MInvalid else Inr proof))
      | _ \<Rightarrow> Inl MInvalid)"

datatype mutation_reconciliation =
    Applied mutation_receipt
  | AppliedWithVerifiedContent mutation_receipt verified_mutation_content
  | Uncommitted | ReconcileConflict | Indeterminate

record deletion_support =
  recycle_bin :: bool
  permanent :: bool

definition deletion_default :: deletion_support where
  "deletion_default = \<lparr>recycle_bin = False, permanent = False\<rparr>"

text \<open>
  A relocation that a provider acknowledges and that was valid when dispatched is
  attested by exactly one proof per digest, and the attestation exists exactly
  when it is valid for the pair.
\<close>

lemma for_relocation_sound:
  "for_relocation request receipt sha = Inr proof \<Longrightarrow>
     valid_for proof request receipt \<and> vm_sha256 proof = sha"
  by (auto simp: for_relocation_def Let_def result_simps
      split: mutation_intent.splits mutation_receipt.splits if_splits)

lemma for_relocation_complete:
  assumes "valid_for proof request receipt"
  shows "for_relocation request receipt (vm_sha256 proof) = Inr proof"
proof -
  obtain before parent name after where
    i: "mr_intent request = Relocate before parent name" "receipt = ReceiptUpsert after"
    using assms by (auto simp: valid_for_def split: mutation_intent.splits mutation_receipt.splits)
  then have "proof = \<lparr>vm_scope = mr_scope request, vm_item = node_id before,
                      source_etag = source_etag proof, result_etag = result_etag proof,
                      vm_size = node_size before, vm_sha256 = vm_sha256 proof\<rparr>"
    using assms by (auto simp: valid_for_def)
  then show ?thesis
    using assms i by (auto simp: for_relocation_def valid_for_def)
qed

section \<open>Guarantees\<close>

text \<open>an attestation of unchanged content exists for a relocation and its receipt
  exactly when it is valid for that pair, so a stored proof can be checked again
  by validity alone, and there is one proof per digest.\<close>

theorem relocation_attestation:
  "for_relocation request receipt sha = Inr proof \<longleftrightarrow> valid_for proof request receipt \<and> vm_sha256 proof = sha"
  using for_relocation_sound for_relocation_complete by blast


definition sample_file :: node where
  "sample_file = \<lparr>node_id = ''1'', parent_id = Some ''root'', node_name = ''x'', node_kind = File, node_size = 3, modified_unix = 0,
     etag = Some ''e1'', content_version = None, node_target = None, package = False\<rparr>"

definition sample_scope :: scope where
  "sample_scope = \<lparr>account = ''a'', provider = ''p'', collection = ''c''\<rparr>"


end
