(* ===== verification/Core_Upload.thy ===== *)
theory Core_Upload
  imports Core_Mutation
begin

text \<open>
  The upload contract (\<open>cirrove-core/src/upload.rs\<close> and \<open>upload/representation.rs\<close>):
  intents, the representation of the sealed bytes (ordinary file bytes or one of
  six package archives), the validation that runs before every remote operation,
  and the steps and receipts an adapter may return.
\<close>

datatype upload_error = UProvider provider_error | UConflict | UQuota | UInsufficientStorage
  | ULocked | USessionGone | UCheckpointInvalid | UUncertain | UUnexpectedStatus "16 word"
  | UInvalid | UUnsupported string

datatype upload_intent = Create string string | Replace string string

definition intent_validate :: "upload_intent \<Rightarrow> upload_error + unit" where
  "intent_validate i =
     (let valid = (\<lambda>s. s \<noteq> [] \<and> length s \<le> 4096 \<and> CHR 0x00 \<notin> set s) in
      let okay = (case i of
          Create parent name \<Rightarrow>
            valid parent \<and> valid name \<and> name \<noteq> ''.'' \<and> name \<noteq> ''..'' \<and> CHR ''/'' \<notin> set name
        | Replace item expected_etag \<Rightarrow>
            valid item \<and> valid expected_etag \<and> no_wildcard expected_etag)
      in if okay then Inr () else Inl UInvalid)"

section \<open>Package archives\<close>

record package_semantic_identity =
  psi_version :: "32 word"
  psi_sha256 :: string
  psi_entries :: "32 word"
  psi_files :: "32 word"
  expanded_bytes :: "64 word"

definition identity_validate :: "package_semantic_identity \<Rightarrow> upload_error + unit" where
  "identity_validate p =
     (if psi_version p \<notin> {1, 2} \<or> \<not> sha256_ok (psi_sha256 p)
         \<or> psi_entries p = 0 \<or> psi_entries p > 10000
         \<or> psi_files p = 0 \<or> psi_files p > psi_entries p
         \<or> (psi_version p = 2 \<and> psi_files p = psi_entries p)
         \<or> expanded_bytes p > 64 * 1024 * 1024
      then Inl UInvalid else Inr ())"

text \<open>\<open>TryFrom<IdentityWire>\<close>: an identity read back from disk is validated first.\<close>

definition identity_try_from ::
    "package_semantic_identity \<Rightarrow> string + package_semantic_identity" where
  "identity_try_from wire =
     (case identity_validate wire of
        Inl _ \<Rightarrow> Inl ''invalid package semantic identity''
      | Inr _ \<Rightarrow> Inr wire)"

datatype upload_representation =
    FileBytes
  | PackageArchive string package_semantic_identity
  | FlatNumbersArchive package_semantic_identity
  | FlatPagesArchive package_semantic_identity
  | PackageReplacementArchive string package_semantic_identity node package_semantic_identity
  | FlatNumbersReplacementArchive package_semantic_identity node package_semantic_identity
  | FlatPagesReplacementArchive package_semantic_identity node package_semantic_identity

definition is_file_bytes :: "upload_representation \<Rightarrow> bool" where
  "is_file_bytes r = (case r of FileBytes \<Rightarrow> True | _ \<Rightarrow> False)"

fun expected_root_of :: "upload_representation \<Rightarrow> (string \<times> package_semantic_identity) option" where
  "expected_root_of (PackageArchive root sem) = Some (root, sem)"
| "expected_root_of (PackageReplacementArchive root sem orig osem) = Some (root, sem)"
| "expected_root_of _ = None"

fun flat_semantic_of :: "upload_representation \<Rightarrow> package_semantic_identity option" where
  "flat_semantic_of (FlatNumbersArchive sem) = Some sem"
| "flat_semantic_of (FlatNumbersReplacementArchive sem orig osem) = Some sem"
| "flat_semantic_of (FlatPagesArchive sem) = Some sem"
| "flat_semantic_of (FlatPagesReplacementArchive sem orig osem) = Some sem"
| "flat_semantic_of _ = None"

fun original_of :: "upload_representation \<Rightarrow> (node \<times> package_semantic_identity) option" where
  "original_of (PackageReplacementArchive root sem orig osem) = Some (orig, osem)"
| "original_of (FlatNumbersReplacementArchive sem orig osem) = Some (orig, osem)"
| "original_of (FlatPagesReplacementArchive sem orig osem) = Some (orig, osem)"
| "original_of _ = None"

definition original_ok :: "node \<Rightarrow> bool" where
  "original_ok orig = (\<not> (
       node_kind orig \<noteq> Folder \<or> \<not> package orig \<or> node_target orig \<noteq> None
     \<or> node_id orig = [] \<or> length (node_id orig) > 4096 \<or> CHR 0x00 \<in> set (node_id orig)
     \<or> (case etag orig of None \<Rightarrow> True
          | Some v \<Rightarrow> v = [] \<or> length v > 4096 \<or> CHR 0x00 \<in> set v \<or> \<not> no_wildcard v)
     \<or> content_version orig \<noteq> None
     \<or> (case parent_id orig of None \<Rightarrow> True
          | Some v \<Rightarrow> v = [] \<or> length v > 4096 \<or> CHR 0x00 \<in> set v)
     \<or> node_name orig = [] \<or> length (node_name orig) > 255
     \<or> any_control (node_name orig) \<or> CHR ''/'' \<in> set (node_name orig)))"

definition root_ok :: "string \<Rightarrow> bool" where
  "root_ok root = (\<not> (root = [] \<or> length root > 1024 \<or> root = ''.'' \<or> root = ''..''
     \<or> any_control root \<or> CHR ''/'' \<in> set root \<or> CHR 0x5C \<in> set root \<or> CHR '':'' \<in> set root))"

definition representation_validate :: "upload_representation \<Rightarrow> upload_error + unit" where
  "representation_validate r =
     and_then (case expected_root_of r of
         None \<Rightarrow> Inr ()
       | Some (root, sem) \<Rightarrow>
           and_then (ensure (root_ok root) UInvalid) (\<lambda>_. identity_validate sem)) (\<lambda>_.
     and_then (case flat_semantic_of r of
         None \<Rightarrow> Inr ()
       | Some sem \<Rightarrow>
           and_then (identity_validate sem) (\<lambda>_. ensure (psi_version sem = 2) UInvalid)) (\<lambda>_.
     and_then (case original_of r of
         None \<Rightarrow> Inr ()
       | Some (orig, osem) \<Rightarrow>
           and_then (identity_validate osem) (\<lambda>_. ensure (original_ok orig) UInvalid)) (\<lambda>_.
     and_then (case r of
         FlatNumbersReplacementArchive sem orig osem \<Rightarrow>
           ensure (ends_with (to_ascii_lowercase (node_name orig)) ''.numbers'') UInvalid
       | _ \<Rightarrow> Inr ()) (\<lambda>_.
     case r of
         FlatPagesReplacementArchive sem orig osem \<Rightarrow>
           ensure (ends_with (to_ascii_lowercase (node_name orig)) ''.pages''
                   \<and> psi_version osem = 2) UInvalid
       | _ \<Rightarrow> Inr ()))))"

section \<open>Requests\<close>

record upload_request =
  ur_representation :: upload_representation
  ur_scope :: scope
  ur_intent :: upload_intent
  ur_size :: "64 word"
  ur_sha256 :: string

definition flat_name_ok :: "string \<Rightarrow> upload_intent \<Rightarrow> bool" where
  "flat_name_ok suf i = (case i of
       Create parent name \<Rightarrow>
         ends_with (to_ascii_lowercase name) suf \<and> length name \<le> 255
         \<and> \<not> any_control name \<and> CHR 0x5C \<notin> set name \<and> CHR '':'' \<notin> set name
     | Replace item tag \<Rightarrow> False)"

definition upload_validate :: "upload_request \<Rightarrow> upload_error + unit" where
  "upload_validate r =
     and_then (intent_validate (ur_intent r)) (\<lambda>_.
     and_then (representation_validate (ur_representation r)) (\<lambda>_.
     and_then (case original_of (ur_representation r) of
         None \<Rightarrow> Inr ()
       | Some (orig, osem) \<Rightarrow>
           ensure (case ur_intent r of
                     Replace item tag \<Rightarrow> item = node_id orig \<and> etag orig = Some tag
                   | Create parent name \<Rightarrow> False) UInvalid) (\<lambda>_.
     and_then (case ur_representation r of
         FlatPagesArchive sem \<Rightarrow> ensure (flat_name_ok ''.pages'' (ur_intent r)) UInvalid
       | _ \<Rightarrow> Inr ()) (\<lambda>_.
     and_then (case ur_representation r of
         FlatNumbersArchive sem \<Rightarrow> ensure (flat_name_ok ''.numbers'' (ur_intent r)) UInvalid
       | _ \<Rightarrow> Inr ()) (\<lambda>_.
     if \<not> is_file_bytes (ur_representation r) \<and> ur_size r > 64 * 1024 * 1024 then Inl UInvalid
     else if account (ur_scope r) = [] \<or> provider (ur_scope r) = [] \<or> collection (ur_scope r) = []
             \<or> \<not> sha256_ok (ur_sha256 r)
     then Inl UInvalid else Inr ())))))"

definition require_file_bytes :: "upload_request \<Rightarrow> upload_error + unit" where
  "require_file_bytes r =
     and_then (upload_validate r) (\<lambda>_.
     if is_file_bytes (ur_representation r) then Inr ()
     else Inl (UUnsupported ''package archive upload''))"

record upload_progress =
  up_checkpoint :: string
  up_offset :: "64 word"
  up_length :: "32 word"

record package_upload_receipt =
  pur_remote :: node
  pur_semantic :: package_semantic_identity

record package_handoff_receipt =
  phr_original :: node
  phr_current :: package_upload_receipt
  phr_backup :: package_upload_receipt

datatype upload_step =
    StepAllocate string
  | StepPrepared string
  | StepContinue upload_progress
  | StepStream string
  | StepCommit string
  | StepComplete node
  | StepPackageComplete package_upload_receipt
  | StepPackageHandoffComplete package_handoff_receipt
  | StepHandoffComplete node node

datatype reconciliation =
    RecCommitted node
  | RecPackageCommitted package_upload_receipt
  | RecPackageHandoffCommitted package_handoff_receipt
  | RecHandoffCommitted node node
  | RecUncommitted
  | RecConflict

section \<open>Native package names\<close>

text \<open>
  \<open>name.as_bytes().get(len.saturating_sub(n)..)\<close> is always in range, so the tail is
  compared as it stands, also when the name is shorter than the suffix.
\<close>

definition native_package_suffix :: "string \<Rightarrow> string option" where
  "native_package_suffix name =
     (if length name > 1024 \<or> any_control name \<or> CHR ''/'' \<in> set name then None
      else find (\<lambda>suf. eq_ignore_ascii_case (drop (length name - length suf) name) suf)
             [''.pages'', ''.numbers'', ''.key''])"

lemma tail_eq_iff_ends_with:
  assumes "to_ascii_lowercase suf = suf"
  shows "eq_ignore_ascii_case (drop (length name - length suf) name) suf
           \<longleftrightarrow> ends_with (to_ascii_lowercase name) suf"
  using assms
  by (auto simp: eq_ignore_ascii_case_def to_ascii_lowercase_drop ends_with_code
      dest: arg_cong [of _ _ length])

lemma original_of_cases:
  "original_of r = Some (orig, osem) \<Longrightarrow> representation_validate r = Inr u \<Longrightarrow>
     node_kind orig = Folder \<and> package orig \<and> content_version orig = None
     \<and> node_target orig = None \<and> identity_validate osem = Inr ()"
  by (auto simp: representation_validate_def result_simps original_ok_def split: option.splits)

lemma upload_validate_okD:
  assumes "upload_validate r = Inr u"
  shows "intent_validate (ur_intent r) = Inr ()"
    and "representation_validate (ur_representation r) = Inr ()"
    and "sha256_ok (ur_sha256 r)"
  using assms by (auto simp: upload_validate_def result_simps split: if_splits)

section \<open>Guarantees\<close>

text \<open>An upload request that passes validation and replaces a native package is bound
  to exactly the original it was captured from: the intent names its identity and
  its ETag, the original is a package folder without a content tag, both semantic
  identities are valid, and the archive has at most 64 MiB.\<close>

theorem package_replacement_bound_to_original:
  assumes "upload_validate r = Inr u" and "original_of (ur_representation r) = Some (orig, osem)"
  shows "\<exists>t. ur_intent r = Replace (node_id orig) t \<and> etag orig = Some t \<and> no_wildcard t
    \<and> node_kind orig = Folder \<and> package orig \<and> content_version orig = None
    \<and> identity_validate osem = Inr () \<and> uint (ur_size r) \<le> 64 * 1024 * 1024"
proof -
  have v: "intent_validate (ur_intent r) = Inr ()" "representation_validate (ur_representation r) = Inr ()"
    using upload_validate_okD [OF assms(1)] by simp_all
  have nf: "\<not> is_file_bytes (ur_representation r)"
    using assms(2) by (cases "ur_representation r") (simp_all add: is_file_bytes_def)
  have "case ur_intent r of Replace item tag \<Rightarrow> item = node_id orig \<and> etag orig = Some tag | Create parent name \<Rightarrow> False"
    using assms by (auto simp: upload_validate_def result_simps)
  then obtain t where t: "ur_intent r = Replace (node_id orig) t" "etag orig = Some t"
    by (auto split: upload_intent.splits)
  have "ur_size r \<le> 64 * 1024 * 1024"
    using assms(1) nf by (auto simp: upload_validate_def result_simps not_less split: if_splits)
  then have "uint (ur_size r) \<le> 64 * 1024 * 1024"
    by (simp add: word_le_def)
  then show ?thesis
    using t v(1) original_of_cases [OF assms(2) v(2)]
    by (auto simp: intent_validate_def Let_def split: if_splits)
qed

definition sample_identity :: package_semantic_identity where
  "sample_identity = \<lparr>psi_version = 2, psi_sha256 = replicate 64 (CHR ''a''), psi_entries = 2, psi_files = 1, expanded_bytes = 10\<rparr>"

definition sample_package :: node where
  "sample_package = \<lparr>node_id = ''1'', parent_id = Some ''root'', node_name = ''x.pages'', node_kind = Folder, node_size = 3,
     modified_unix = 0, etag = Some ''e1'', content_version = None, node_target = None, package = True\<rparr>"

theorem package_replacement_bound_to_original_witness:
  "\<exists>t. Replace ''1'' ''e1'' = Replace (node_id sample_package) t \<and> etag sample_package = Some t"
proof -
  let ?r = "\<lparr>ur_representation = FlatPagesReplacementArchive sample_identity sample_package sample_identity,
      ur_scope = \<lparr>account = ''a'', provider = ''icloud'', collection = ''drive''\<rparr>, ur_intent = Replace ''1'' ''e1'', ur_size = 100,
      ur_sha256 = replicate 64 (CHR ''b'')\<rparr>"
  have "upload_validate ?r = Inr ()"
    by code_simp
  from package_replacement_bound_to_original [OF this, of sample_package sample_identity] show ?thesis
    by auto
qed

text \<open>the suffix that pairs a native package name is decided exactly by a
  case-insensitive comparison of the name's end, for names of at most 1024 bytes
  without control characters or slashes, and no name has two of them.\<close>

theorem native_package_suffix_spec:
  "native_package_suffix name = Some suf \<longleftrightarrow>
     length name \<le> 1024 \<and> \<not> any_control name \<and> CHR ''/'' \<notin> set name
     \<and> suf \<in> {''.pages'', ''.numbers'', ''.key''} \<and> suffix suf (to_ascii_lowercase name)"
proof -
  have low: "to_ascii_lowercase suf = suf" if "suf \<in> set [''.pages'', ''.numbers'', ''.key'']" for suf
    using that by (auto simp: to_ascii_lowercase_def ascii_lower_def)
  have "find (\<lambda>suf. eq_ignore_ascii_case (drop (length name - length suf) name) suf) [''.pages'', ''.numbers'', ''.key''] =
      find (\<lambda>suf. suffix suf (to_ascii_lowercase name)) [''.pages'', ''.numbers'', ''.key'']"
    by (rule find_cong) (simp_all add: tail_eq_iff_ends_with [OF low] ends_with_def)
  moreover have "find (\<lambda>suf. suffix suf x) [''.pages'', ''.numbers'', ''.key''] = Some suf \<longleftrightarrow>
      suf \<in> {''.pages'', ''.numbers'', ''.key''} \<and> suffix suf x" for x
    by (auto simp: suffix_def split: if_splits)
  ultimately show ?thesis
    by (auto simp: native_package_suffix_def)
qed

end
