(* ===== verification/Journal_State.thy ===== *)
theory Journal_State
  imports Core_Mutation Core_Upload
begin

text \<open>
  The write journal of \<open>cirrove-service/src/journal.rs\<close>: its records, its tables, and the
  combinators its operations are written with. An operation returns a result or an
  error together with the journal it leaves behind, because some errors are reported
  after a change was committed; a transaction that fails leaves the journal as it was.
\<close>

section \<open>Records\<close>

datatype journal_error = JStorage | JBusy | JAccount | JIntent | JQuota | JDeviceFull | JMissing
  | JStale | JCorrupt | JSchema

datatype upload_state = PreparingU | PendingU | UploadingU | VerifyRequiredU | VerifyingU
  | UploadedU | ConflictU | FailedU | ResolvedU

datatype mutation_state = PendingM | ApplyingM | VerifyRequiredM | VerifyingM | AppliedM
  | ResolvedM | ConflictM | FailedM | NeedsReviewM

record write_base =
  predecessor :: uuid
  resolved :: bool

text \<open>Sizes and times are integers; the code keeps them as unsigned words and every
  arithmetic step on them below is checked or saturating there.\<close>

record upload_record =
  u_representation :: upload_representation
  u_id :: uuid
  u_sequence :: int
  u_scope :: scope
  u_intent :: upload_intent
  u_state :: upload_state
  u_size :: int
  u_sha256 :: string
  u_attempt :: "uuid option"
  u_remote :: "node option"
  u_base :: "write_base option"
  u_session_key :: "uuid option"
  u_transferred :: int
  u_retry_at :: int
  u_failed_attempts :: int
  u_saved_at :: int

record mutation_record =
  m_id :: uuid
  m_sequence :: int
  m_request :: mutation_request
  m_state :: mutation_state
  m_attempt :: "uuid option"
  m_receipt :: "mutation_receipt option"
  m_verified_content :: "verified_mutation_content option"
  m_retry_at :: int
  m_failed_attempts :: int
  m_base :: "write_base option"
  m_prepared_item :: "string option"
  m_local_ready :: bool

text \<open>The keys that operations exclude each other by; the code writes them as JSON, which
  distinguishes them.\<close>

datatype resource = ItemKey scope string | SlotKey scope string string

record queue_row =
  q_sequence :: int
  q_complete :: bool

record journal =
  j_account :: string
  j_quota :: int
  uploads :: "(uuid, upload_record) fmap"
  mutations :: "(uuid, mutation_record) fmap"
  write_queue :: "(uuid, queue_row) fmap"
  last_sequence :: int
  write_resources :: "(uuid \<times> resource) fset"
  write_prerequisites :: "(uuid \<times> uuid) fset"
  write_successors :: "(uuid, uuid) fmap"
  objects :: "(uuid, string) fmap"

text \<open>What the journal takes from libraries: the digest of a payload in hexadecimal, and
  the Unicode lower-casing of names in slot keys.\<close>

record host =
  sha256 :: "string \<Rightarrow> string"
  lower :: "string \<Rightarrow> string"

definition new_journal :: "string \<Rightarrow> int \<Rightarrow> journal" where
  "new_journal acct quota = \<lparr>j_account = acct, j_quota = quota, uploads = fmempty, mutations = fmempty,
     write_queue = fmempty, last_sequence = 0, write_resources = {||}, write_prerequisites = {||},
     write_successors = fmempty, objects = fmempty\<rparr>"

section \<open>Errors of the system and refused saves\<close>

text \<open>How failures of the operating system and of SQLite become errors of the journal.\<close>

datatype errno = ENOSPC | EDQUOT | OtherErrno

datatype sqlite_extended = IoerrWrite | IoerrFsync | OtherExtended

datatype sqlite_error = SqliteFailure bool sqlite_extended | OtherSqlite

definition from_io :: "errno option \<Rightarrow> journal_error" where
  "from_io e = (if e = Some ENOSPC \<or> e = Some EDQUOT then JDeviceFull else JStorage)"

definition out_of_space :: "bool \<Rightarrow> sqlite_extended \<Rightarrow> bool" where
  "out_of_space disk_full ext \<longleftrightarrow> disk_full \<or> ext = IoerrWrite \<or> ext = IoerrFsync"

definition from_sqlite :: "sqlite_error \<Rightarrow> journal_error" where
  "from_sqlite e = (case e of
       SqliteFailure disk_full ext \<Rightarrow> if out_of_space disk_full ext then JDeviceFull else JStorage
     | OtherSqlite \<Rightarrow> JStorage)"

text \<open>The last refusal for want of space, kept for the status report; the message of an error
  is an argument.\<close>

record save_refusal =
  at_unix :: int
  refusal_kind :: string
  refusal_message :: string

definition note_refusal :: "int \<Rightarrow> (journal_error \<Rightarrow> string) \<Rightarrow> journal_error \<Rightarrow> save_refusal option \<Rightarrow> save_refusal option" where
  "note_refusal now message e slot = (case e of
       JQuota \<Rightarrow> Some \<lparr>at_unix = now, refusal_kind = ''budget'', refusal_message = message e\<rparr>
     | JDeviceFull \<Rightarrow> Some \<lparr>at_unix = now, refusal_kind = ''device'', refusal_message = message e\<rparr>
     | _ \<Rightarrow> slot)"

section \<open>Operations with errors\<close>

type_synonym 'a journal_result = "(journal_error + 'a) \<times> journal"

text \<open>A transaction of the database: the effects of a failed body are rolled back.\<close>

definition transaction :: "(journal \<Rightarrow> 'a journal_result) \<Rightarrow> journal \<Rightarrow> 'a journal_result" where
  "transaction body j = (case body j of (Inl e, _) \<Rightarrow> (Inl e, j) | (Inr x, j') \<Rightarrow> (Inr x, j'))"

lemma transaction_Inr: "transaction body j = (Inr x, j') \<longleftrightarrow> body j = (Inr x, j')"
  by (auto simp: transaction_def split: prod.splits sum.splits)

lemma transaction_Inl: "transaction body j = (Inl e, j') \<Longrightarrow> j' = j"
  by (auto simp: transaction_def split: prod.splits sum.splits)

lemma snd_transaction: "snd (transaction body j) = (if isl (fst (body j)) then j else snd (body j))"
  by (auto simp: transaction_def split: prod.splits sum.splits)

section \<open>Resources\<close>

definition slot_key :: "host \<Rightarrow> scope \<Rightarrow> string \<Rightarrow> string \<Rightarrow> resource" where
  "slot_key h s parent name = SlotKey s parent (lower h name)"

definition upload_resources :: "host \<Rightarrow> scope \<Rightarrow> upload_intent \<Rightarrow> resource list" where
  "upload_resources h s i = [case i of Create parent name \<Rightarrow> slot_key h s parent name | Replace item tag \<Rightarrow> ItemKey s item]"

definition mutation_resources :: "host \<Rightarrow> mutation_request \<Rightarrow> journal_error + resource list" where
  "mutation_resources h r =
     and_then (case intent_before (mr_intent r) of
         None \<Rightarrow> Inr []
       | Some before \<Rightarrow>
           (case parent_id before of
              None \<Rightarrow> Inl JIntent
            | Some p \<Rightarrow> Inr [ItemKey (mr_scope r) (node_id before), slot_key h (mr_scope r) p (node_name before)]))
       (\<lambda>keys. Inr (remdups (keys @ (case mr_intent r of
          CreateFolder parent name \<Rightarrow> [slot_key h (mr_scope r) parent name]
        | Relocate before parent name \<Rightarrow> [slot_key h (mr_scope r) parent name]
        | _ \<Rightarrow> []))))"

section \<open>Queue rows\<close>

definition queue_insert :: "uuid \<Rightarrow> resource list \<Rightarrow> journal \<Rightarrow> int journal_result" where
  "queue_insert i keys j =
     (if fmlookup (write_queue j) i \<noteq> None \<or> last_sequence j \<ge> i64_max
         \<or> list_ex (\<lambda>k. (i, k) |\<in>| write_resources j) keys \<or> \<not> distinct keys
      then fail JStorage j
      else let sq = last_sequence j + 1
           in (Inr sq, j\<lparr>write_queue := fmupd i \<lparr>q_sequence = sq, q_complete = False\<rparr> (write_queue j),
                 last_sequence := sq, write_resources := write_resources j |\<union>| fset_of_list (map (Pair i) keys)\<rparr>))"

definition queue_complete :: "uuid \<Rightarrow> bool \<Rightarrow> journal \<Rightarrow> unit journal_result" where
  "queue_complete i complete j =
     (case fmlookup (write_queue j) i of
        None \<Rightarrow> fail JCorrupt j
      | Some q \<Rightarrow> (Inr (), j\<lparr>write_queue := fmupd i (q\<lparr>q_complete := complete\<rparr>) (write_queue j)\<rparr>))"

definition complete_of :: "journal \<Rightarrow> uuid \<Rightarrow> bool" where
  "complete_of j i = (case fmlookup (write_queue j) i of None \<Rightarrow> False | Some q \<Rightarrow> q_complete q)"

definition sequence_of :: "journal \<Rightarrow> uuid \<Rightarrow> int option" where
  "sequence_of j i = map_option q_sequence (fmlookup (write_queue j) i)"

section \<open>Reading records\<close>

datatype operation = UploadOp upload_record | MutationOp mutation_record

definition upload_get :: "uuid \<Rightarrow> journal \<Rightarrow> upload_record journal_result" where
  "upload_get i j = (case fmlookup (uploads j) i of None \<Rightarrow> fail JMissing j | Some r \<Rightarrow> give r j)"

definition mutation_get :: "uuid \<Rightarrow> journal \<Rightarrow> mutation_record journal_result" where
  "mutation_get i j = (case fmlookup (mutations j) i of None \<Rightarrow> fail JMissing j | Some r \<Rightarrow> give r j)"

definition operation_get :: "uuid \<Rightarrow> journal \<Rightarrow> operation journal_result" where
  "operation_get i j =
     (case fmlookup (uploads j) i of
        Some r \<Rightarrow> give (UploadOp r) j
      | None \<Rightarrow> jbind (mutation_get i j) (\<lambda>r. give (MutationOp r)))"

fun op_scope :: "operation \<Rightarrow> scope" where
  "op_scope (UploadOp r) = u_scope r"
| "op_scope (MutationOp r) = mr_scope (m_request r)"

fun op_sequence :: "operation \<Rightarrow> int" where
  "op_sequence (UploadOp r) = u_sequence r"
| "op_sequence (MutationOp r) = m_sequence r"

fun op_kind :: "operation \<Rightarrow> node_kind option" where
  "op_kind (UploadOp r) = Some File"
| "op_kind (MutationOp r) = (case mr_intent (m_request r) of
       CreateFolder parent name \<Rightarrow> Some Folder
     | Relocate before parent name \<Rightarrow> Some (node_kind before)
     | _ \<Rightarrow> None)"

fun confirmed_node :: "operation \<Rightarrow> node option" where
  "confirmed_node (UploadOp r) = (if u_state r = UploadedU then u_remote r else None)"
| "confirmed_node (MutationOp r) =
     (if m_state r = AppliedM
      then (case m_receipt r of
              Some (ReceiptUpsert n) \<Rightarrow> if accepts (m_request r) (ReceiptUpsert n) then Some n else None
            | _ \<Rightarrow> None)
      else None)"

section \<open>Prerequisites and successors\<close>

definition scope_of :: "journal \<Rightarrow> uuid \<Rightarrow> scope option" where
  "scope_of j i = (case fmlookup (uploads j) i of
       Some r \<Rightarrow> Some (u_scope r)
     | None \<Rightarrow> map_option (\<lambda>r. mr_scope (m_request r)) (fmlookup (mutations j) i))"

fun barriers_check :: "journal \<Rightarrow> scope \<Rightarrow> uuid list \<Rightarrow> uuid list \<Rightarrow> journal_error + unit" where
  "barriers_check j s seen [] = Inr ()"
| "barriers_check j s seen (i # is) =
     (if i \<in> set seen then Inl JIntent
      else case scope_of j i of
        None \<Rightarrow> Inl JMissing
      | Some s' \<Rightarrow> if s' \<noteq> s then Inl JAccount else barriers_check j s (i # seen) is)"

definition barriers_validate :: "scope \<Rightarrow> uuid list \<Rightarrow> journal \<Rightarrow> unit journal_result" where
  "barriers_validate s is j = (if length is > 16 then fail JQuota j else (barriers_check j s [] is, j))"

fun barriers_add :: "uuid \<Rightarrow> int \<Rightarrow> uuid list \<Rightarrow> journal \<Rightarrow> unit journal_result" where
  "barriers_add i sq [] j = give () j"
| "barriers_add i sq (p # ps) j =
     (case sequence_of j p of
        None \<Rightarrow> fail JStale j
      | Some q \<Rightarrow>
          if q > 0 \<and> q < sq
          then barriers_add i sq ps (j\<lparr>write_prerequisites := finsert (i, p) (write_prerequisites j)\<rparr>)
          else fail JStale j)"

definition barriers_insert :: "uuid \<Rightarrow> int \<Rightarrow> scope \<Rightarrow> uuid list \<Rightarrow> journal \<Rightarrow> unit journal_result" where
  "barriers_insert i sq s is j = jbind (barriers_validate s is j) (\<lambda>_. barriers_add i sq is)"

definition barriers_satisfied :: "journal \<Rightarrow> uuid \<Rightarrow> bool" where
  "barriers_satisfied j i \<longleftrightarrow> fBall (write_prerequisites j) (\<lambda>(a, p). a = i \<longrightarrow> complete_of j p)"

definition insert_dependency :: "uuid \<Rightarrow> int \<Rightarrow> write_base option \<Rightarrow> journal \<Rightarrow> unit journal_result" where
  "insert_dependency i sq base j =
     (case base of
        None \<Rightarrow> give () j
      | Some b \<Rightarrow>
          (case sequence_of j (predecessor b) of
             None \<Rightarrow> fail JStale j
           | Some q \<Rightarrow>
               if resolved b \<or> \<not> (q > 0 \<and> q < sq) then fail JStale j
               else if fmlookup (write_successors j) (predecessor b) \<noteq> None
                 \<or> i |\<in>| fmran (write_successors j) then fail JStale j
               else (Inr (), j\<lparr>write_successors := fmupd (predecessor b) i (write_successors j)\<rparr>)))"

definition ensure_successor_free :: "uuid \<Rightarrow> journal \<Rightarrow> unit journal_result" where
  "ensure_successor_free p j =
     jbind (operation_get p j) (\<lambda>_ j. if fmlookup (write_successors j) p \<noteq> None then fail JStale j else give () j)"

end
