(* ===== verification/Journal_Writes.thy ===== *)
theory Journal_Writes
  imports Journal_State
begin

text \<open>
  The operations of the write journal on saves and namespace changes:
  \<open>cirrove-service/src/journal.rs\<close>, \<open>journal/generations.rs\<close>, \<open>journal/mutations.rs\<close> and
  \<open>journal/barriers.rs\<close>. They are modelled for operations that own no object of the
  local namespace: the tables of \<open>namespace.rs\<close>, \<open>replacements.rs\<close>, \<open>working.rs\<close> and the
  identity handoffs are empty, so that binding a destination, confirming a namespace
  object and looking up a receipt's name read nothing. New identifiers, attempt
  tokens and the time are arguments.
\<close>

section \<open>Payloads\<close>

definition total_length :: "string list \<Rightarrow> int" where
  "total_length xs = sum_list (map (\<lambda>x. int (length x)) xs)"

definition retained_usage :: "journal \<Rightarrow> journal_error + int \<times> nat" where
  "retained_usage j =
     (let files = fm_values (objects j)
      in if length files > 10000 then Inl JQuota
         else if total_length files > u64_max then Inl JQuota
         else Inr (total_length files, length files))"

text \<open>The copy loop: every read yields bytes, an empty read at the end, or an error.\<close>

fun copy_loop :: "int \<Rightarrow> (journal_error + string) list \<Rightarrow> string \<Rightarrow> journal_error + string" where
  "copy_loop available [] acc = Inr acc"
| "copy_loop available (Inl e # rest) acc = Inl e"
| "copy_loop available (Inr chunk # rest) acc =
     (if chunk = [] then Inr acc
      else let size = int (length acc) + int (length chunk)
           in if size > u64_max \<or> size > available then Inl JQuota
              else copy_loop available rest (acc @ chunk))"

definition payload :: "host \<Rightarrow> uuid \<Rightarrow> journal \<Rightarrow> string journal_result" where
  "payload h i j =
     jbind (upload_get i j) (\<lambda>r j.
       if u_state r = PreparingU \<or> length (u_sha256 r) \<noteq> 64 then fail JStale j
       else case fmlookup (objects j) i of
         None \<Rightarrow> fail JCorrupt j
       | Some bytes \<Rightarrow>
           if int (length bytes) \<noteq> u_size r \<or> sha256 h bytes \<noteq> u_sha256 r then fail JCorrupt j
           else give bytes j)"

section \<open>Enqueuing saves\<close>

record write_order =
  wo_base :: "write_base option"
  wo_prerequisites :: "uuid list"

definition no_order :: write_order where
  "no_order = \<lparr>wo_base = None, wo_prerequisites = []\<rparr>"

text \<open>Keeping a refused save as a new file resolves it and the saves queued behind it in the
  transaction that enqueues the copy.\<close>

record rescue_commit =
  rc_original :: upload_record
  rc_successors :: "upload_record list"

definition rc_saves :: "rescue_commit \<Rightarrow> upload_record list" where
  "rc_saves c = rc_original c # rc_successors c"

definition rc_latest :: "rescue_commit \<Rightarrow> upload_record" where
  "rc_latest c = last (rc_saves c)"

fun resolve_saves :: "upload_record list \<Rightarrow> journal \<Rightarrow> unit journal_result" where
  "resolve_saves [] j = give () j"
| "resolve_saves (before # rest) j =
     (if u_state before \<notin> {ConflictU, FailedU, PendingU} then fail JStale j
      else case fmlookup (uploads j) (u_id before) of
        None \<Rightarrow> fail JStale j
      | Some r \<Rightarrow>
          if u_state r \<noteq> u_state before then fail JStale j
          else jbind (queue_complete (u_id before) True
                 (j\<lparr>uploads := fmupd (u_id before) (before\<lparr>u_state := ResolvedU\<rparr>) (uploads j)\<rparr>))
               (\<lambda>_. resolve_saves rest))"

definition rescue_apply :: "rescue_commit \<Rightarrow> upload_record \<Rightarrow> journal \<Rightarrow> unit journal_result" where
  "rescue_apply c copy j =
     (case u_intent copy of
        Replace item tag \<Rightarrow> fail JIntent j
      | Create parent name \<Rightarrow>
          let latest = rc_latest c in
          if u_scope copy \<noteq> u_scope latest \<or> u_sha256 copy \<noteq> u_sha256 latest \<or> u_size copy \<noteq> u_size latest
          then fail JCorrupt j
          else resolve_saves (rc_saves c) j)"

text \<open>The commit of \<open>enqueue_admitted_source\<close>, after the payload was published.\<close>

definition enqueue_commit :: "host \<Rightarrow> upload_record \<Rightarrow> uuid list \<Rightarrow> rescue_commit option \<Rightarrow> journal \<Rightarrow> upload_record journal_result" where
  "enqueue_commit h r prerequisites working = transaction (\<lambda>j.
     jbind (queue_insert (u_id r) (upload_resources h (u_scope r) (u_intent r)) j) (\<lambda>sq j.
     let r = r\<lparr>u_sequence := sq\<rparr> in
     jbind (insert_dependency (u_id r) sq (u_base r) j) (\<lambda>_ j.
     jbind (barriers_insert (u_id r) sq (u_scope r) prerequisites j) (\<lambda>_ j.
     if fmlookup (uploads j) (u_id r) \<noteq> None then fail JStorage j
     else let j = j\<lparr>uploads := fmupd (u_id r) r (uploads j)\<rparr> in
       case working of
         None \<Rightarrow> give r j
       | Some c \<Rightarrow> jbind (rescue_apply c r j) (\<lambda>_. give r)))))"

definition new_upload :: "host \<Rightarrow> uuid \<Rightarrow> int \<Rightarrow> scope \<Rightarrow> upload_intent \<Rightarrow> write_base option \<Rightarrow> string \<Rightarrow> upload_record" where
  "new_upload h i now s intent base bytes =
     \<lparr>u_representation = FileBytes, u_id = i, u_sequence = 0, u_scope = s, u_intent = intent, u_state = PendingU,
      u_size = int (length bytes), u_sha256 = sha256 h bytes, u_attempt = None, u_remote = None,
      u_base = base, u_session_key = None, u_transferred = 0, u_retry_at = 0,
      u_failed_attempts = 0, u_saved_at = now\<rparr>"

definition enqueue_generation ::
    "host \<Rightarrow> uuid \<Rightarrow> int \<Rightarrow> scope \<Rightarrow> upload_intent \<Rightarrow> write_order \<Rightarrow> rescue_commit option
       \<Rightarrow> (journal_error + string) list \<Rightarrow> journal \<Rightarrow> upload_record journal_result" where
  "enqueue_generation h i now s intent order working chunks j =
     (if account s \<noteq> j_account j then fail JAccount j
      else if provider s = [] \<or> collection s = [] then fail JIntent j
      else if isl (intent_validate intent) then fail JIntent j
      else jbind (case wo_base order of None \<Rightarrow> give () j | Some b \<Rightarrow> ensure_successor_free (predecessor b) j) (\<lambda>_ j.
      jbind (barriers_validate s (wo_prerequisites order) j) (\<lambda>_ j.
      case retained_usage j of
        Inl e \<Rightarrow> fail e j
      | Inr (kept, files) \<Rightarrow>
          if files \<ge> 10000 then fail JQuota j
          else case copy_loop (max 0 (j_quota j - kept)) chunks [] of
            Inl e \<Rightarrow> fail e j
          | Inr bytes \<Rightarrow>
              if fmlookup (objects j) i \<noteq> None then fail JStorage j
              else enqueue_commit h (new_upload h i now s intent (wo_base order) bytes) (wo_prerequisites order) working
                (j\<lparr>objects := fmupd i bytes (objects j)\<rparr>))))"

definition enqueue :: "host \<Rightarrow> uuid \<Rightarrow> int \<Rightarrow> scope \<Rightarrow> upload_intent \<Rightarrow> (journal_error + string) list \<Rightarrow> journal \<Rightarrow> upload_record journal_result" where
  "enqueue h i now s intent chunks = enqueue_generation h i now s intent no_order None chunks"

definition pending_receipt :: string where
  "pending_receipt = ''cirrove-pending-receipt''"

definition upload_intent_after :: "uuid \<Rightarrow> journal \<Rightarrow> (scope \<times> upload_intent) journal_result" where
  "upload_intent_after p j =
     jbind (operation_get p j) (\<lambda>q j.
       case q of
         UploadOp r \<Rightarrow> if is_file_bytes (u_representation r) then give (u_scope r, u_intent r) j else fail JIntent j
       | MutationOp r \<Rightarrow>
           (case mr_intent (m_request r) of
              Relocate before parent name \<Rightarrow>
                if node_kind before = File
                then give (mr_scope (m_request r),
                       Replace (node_id before) (case etag before of None \<Rightarrow> pending_receipt | Some t \<Rightarrow> t)) j
                else fail JIntent j
            | _ \<Rightarrow> fail JIntent j))"

definition enqueue_after_all :: "host \<Rightarrow> uuid \<Rightarrow> int \<Rightarrow> uuid \<Rightarrow> uuid list \<Rightarrow> (journal_error + string) list \<Rightarrow> journal \<Rightarrow> upload_record journal_result" where
  "enqueue_after_all h i now p prerequisites chunks j =
     jbind (upload_intent_after p j) (\<lambda>(s, intent) j.
     jbind (ensure_successor_free p j) (\<lambda>_ j.
     enqueue_generation h i now s intent
       \<lparr>wo_base = Some \<lparr>predecessor = p, resolved = False\<rparr>, wo_prerequisites = prerequisites\<rparr> None chunks j))"

section \<open>Enqueuing namespace changes\<close>

definition enqueue_mutation_transaction :: "host \<Rightarrow> uuid \<Rightarrow> mutation_request \<Rightarrow> write_order \<Rightarrow> journal \<Rightarrow> mutation_record journal_result" where
  "enqueue_mutation_transaction h i request order j =
     (if account (mr_scope request) \<noteq> j_account j then fail JAccount j
      else if (case mr_intent request of
                 TrashNativeDocument before \<Rightarrow>
                   isl (mutation_validate request) \<or> wo_base order \<noteq> None \<or> wo_prerequisites order \<noteq> []
               | _ \<Rightarrow> False) then fail JIntent j
      else jbind (barriers_validate (mr_scope request) (wo_prerequisites order) j) (\<lambda>_.
        transaction (\<lambda>j.
          case mutation_resources h request of
            Inl e \<Rightarrow> fail e j
          | Inr keys \<Rightarrow>
              jbind (queue_insert i keys j) (\<lambda>sq j.
              jbind (insert_dependency i sq (wo_base order) j) (\<lambda>_ j.
              jbind (barriers_insert i sq (mr_scope request) (wo_prerequisites order) j) (\<lambda>_ j.
              if fmlookup (mutations j) i \<noteq> None then fail JStorage j
              else let r = \<lparr>m_id = i, m_sequence = sq, m_request = request, m_state = PendingM, m_attempt = None,
                       m_receipt = None, m_verified_content = None, m_retry_at = 0, m_failed_attempts = 0,
                       m_base = wo_base order, m_prepared_item = None, m_local_ready = True\<rparr>
                   in (Inr r, j\<lparr>mutations := fmupd i r (mutations j)\<rparr>)))))))"

definition enqueue_mutation :: "host \<Rightarrow> uuid \<Rightarrow> mutation_request \<Rightarrow> journal \<Rightarrow> mutation_record journal_result" where
  "enqueue_mutation h i request j =
     (if isl (mutation_validate request) then fail JIntent j
      else enqueue_mutation_transaction h i request no_order j)"

definition with_source :: "(node \<Rightarrow> node) \<Rightarrow> mutation_request \<Rightarrow> mutation_request option" where
  "with_source f r = (case mr_intent r of
       Relocate before parent name \<Rightarrow> Some (r\<lparr>mr_intent := Relocate (f before) parent name\<rparr>)
     | RemoveFile before \<Rightarrow> Some (r\<lparr>mr_intent := RemoveFile (f before)\<rparr>)
     | _ \<Rightarrow> None)"

definition validate_mutation_base :: "uuid \<Rightarrow> mutation_request \<Rightarrow> journal \<Rightarrow> unit journal_result" where
  "validate_mutation_base p request j =
     jbind (operation_get p j) (\<lambda>previous j.
       if (case previous of UploadOp r \<Rightarrow> \<not> is_file_bytes (u_representation r) | _ \<Rightarrow> False) then fail JIntent j
       else if op_scope previous \<noteq> mr_scope request \<or> account (mr_scope request) \<noteq> j_account j then fail JAccount j
       else case intent_before (mr_intent request) of
         None \<Rightarrow> fail JIntent j
       | Some before \<Rightarrow>
           if op_kind previous \<noteq> Some (node_kind before) \<or> node_target before \<noteq> None then fail JIntent j
           else case with_source (\<lambda>n. n\<lparr>etag := Some pending_receipt\<rparr>) request of
             None \<Rightarrow> fail JIntent j
           | Some preview \<Rightarrow> if isl (mutation_validate preview) then fail JIntent j else give () j)"

definition enqueue_mutation_after_all :: "host \<Rightarrow> uuid \<Rightarrow> uuid \<Rightarrow> uuid list \<Rightarrow> mutation_request \<Rightarrow> journal \<Rightarrow> mutation_record journal_result" where
  "enqueue_mutation_after_all h i p prerequisites request j =
     jbind (validate_mutation_base p request j) (\<lambda>_ j.
     jbind (ensure_successor_free p j) (\<lambda>_ j.
     enqueue_mutation_transaction h i request
       \<lparr>wo_base = Some \<lparr>predecessor = p, resolved = False\<rparr>, wo_prerequisites = prerequisites\<rparr> j))"

section \<open>Saving records\<close>

definition upload_save :: "upload_record \<Rightarrow> journal \<Rightarrow> unit journal_result" where
  "upload_save r = transaction (\<lambda>j.
     if fmlookup (uploads j) (u_id r) = None then fail JMissing j
     else queue_complete (u_id r) (u_state r = UploadedU) (j\<lparr>uploads := fmupd (u_id r) r (uploads j)\<rparr>))"

definition save_mutation :: "mutation_record \<Rightarrow> journal \<Rightarrow> unit journal_result" where
  "save_mutation r = transaction (\<lambda>j.
     if fmlookup (mutations j) (m_id r) = None then fail JMissing j
     else queue_complete (m_id r) (m_state r = AppliedM) (j\<lparr>mutations := fmupd (m_id r) r (mutations j)\<rparr>))"

section \<open>Resolving generations\<close>

definition base_node :: "write_base \<Rightarrow> scope \<Rightarrow> int \<Rightarrow> journal \<Rightarrow> node option journal_result" where
  "base_node b s sq j =
     jbind (operation_get (predecessor b) j) (\<lambda>previous.
       if op_scope previous \<noteq> s \<or> op_sequence previous \<ge> sq then give None
       else give (case confirmed_node previous of
              None \<Rightarrow> None | Some n \<Rightarrow> if node_target n = None then Some n else None))"

definition rebind :: "node option \<Rightarrow> upload_intent option" where
  "rebind n = (case n of
       None \<Rightarrow> None
     | Some n \<Rightarrow> if node_kind n \<noteq> File then None else map_option (Replace (node_id n)) (etag n))"

definition add_resources :: "uuid \<Rightarrow> resource list \<Rightarrow> journal \<Rightarrow> journal" where
  "add_resources i keys j = j\<lparr>write_resources := write_resources j |\<union>| fset_of_list (map (Pair i) keys)\<rparr>"

definition resolve_upload :: "host \<Rightarrow> uuid \<Rightarrow> journal \<Rightarrow> unit journal_result" where
  "resolve_upload h i j =
     jbind (upload_get i j) (\<lambda>r j.
     case u_base r of
       None \<Rightarrow> fail JCorrupt j
     | Some b \<Rightarrow>
         jbind (base_node b (u_scope r) (u_sequence r) j) (\<lambda>n j.
         case rebind n of
           None \<Rightarrow> upload_save (r\<lparr>u_state := FailedU\<rparr>) j
         | Some intent \<Rightarrow>
             if isl (intent_validate intent) then upload_save (r\<lparr>u_state := FailedU\<rparr>) j
             else let r = r\<lparr>u_intent := intent, u_base := Some (b\<lparr>resolved := True\<rparr>)\<rparr>
                  in give () ((add_resources i (upload_resources h (u_scope r) intent) j)\<lparr>uploads := fmupd i r (uploads j)\<rparr>)))"

definition resolve_mutation :: "host \<Rightarrow> uuid \<Rightarrow> journal \<Rightarrow> unit journal_result" where
  "resolve_mutation h i j =
     jbind (mutation_get i j) (\<lambda>r j.
     case m_base r of
       None \<Rightarrow> fail JCorrupt j
     | Some b \<Rightarrow>
         jbind (base_node b (mr_scope (m_request r)) (m_sequence r) j) (\<lambda>n j.
         case n of
           None \<Rightarrow> save_mutation (r\<lparr>m_state := FailedM\<rparr>) j
         | Some n \<Rightarrow>
             if map_option node_kind (intent_before (mr_intent (m_request r))) \<noteq> Some (node_kind n)
             then save_mutation (r\<lparr>m_state := FailedM\<rparr>) j
             else case with_source (\<lambda>_. n) (m_request r) of
               None \<Rightarrow> fail JCorrupt j
             | Some request \<Rightarrow>
                 if isl (mutation_validate request) then save_mutation (r\<lparr>m_request := request, m_state := FailedM\<rparr>) j
                 else case mutation_resources h request of
                   Inl e \<Rightarrow> fail e j
                 | Inr keys \<Rightarrow>
                     let r = r\<lparr>m_request := request, m_base := Some (b\<lparr>resolved := True\<rparr>)\<rparr>
                     in give () ((add_resources i keys j)\<lparr>mutations := fmupd i r (mutations j)\<rparr>)))"

definition waits_for_base :: "journal \<Rightarrow> write_base option \<Rightarrow> bool" where
  "waits_for_base j base = (case base of None \<Rightarrow> False | Some b \<Rightarrow> complete_of j (predecessor b) \<and> \<not> resolved b)"

text \<open>The rows whose predecessor is complete, oldest first; \<open>True\<close> marks uploads.\<close>

definition ready_rows :: "journal \<Rightarrow> (int \<times> bool \<times> uuid) list" where
  "ready_rows j = sort_key fst
     (map (\<lambda>r. (u_sequence r, True, u_id r))
        (filter (\<lambda>r. (u_state r = PendingU \<or> u_state r = PreparingU) \<and> waits_for_base j (u_base r)) (fm_values (uploads j)))
      @ map (\<lambda>r. (m_sequence r, False, m_id r))
        (filter (\<lambda>r. m_state r = PendingM \<and> waits_for_base j (m_base r)) (fm_values (mutations j))))"

fun resolve_rows :: "host \<Rightarrow> (int \<times> bool \<times> uuid) list \<Rightarrow> journal \<Rightarrow> unit journal_result" where
  "resolve_rows h [] j = give () j"
| "resolve_rows h ((_, upload, i) # rows) j =
     jbind (if upload then resolve_upload h i j else resolve_mutation h i j) (\<lambda>_. resolve_rows h rows)"

definition resolve_ready_generations :: "host \<Rightarrow> journal \<Rightarrow> bool journal_result" where
  "resolve_ready_generations h j =
     jbind (resolve_rows h (take 256 (ready_rows j)) j) (\<lambda>_ j. give (ready_rows j = []) j)"

section \<open>Claiming work\<close>

definition shares_resource :: "journal \<Rightarrow> uuid \<Rightarrow> uuid \<Rightarrow> bool" where
  "shares_resource j a b \<longleftrightarrow> fBex (write_resources j) (\<lambda>(i, k). i = a \<and> (b, k) |\<in>| write_resources j)"

text \<open>An incomplete operation queued earlier holds one of the resources.\<close>

definition blocked_by_earlier :: "journal \<Rightarrow> uuid \<Rightarrow> int \<Rightarrow> bool" where
  "blocked_by_earlier j i sq \<longleftrightarrow>
     fBex (fmdom (write_queue j)) (\<lambda>p. case fmlookup (write_queue j) p of
        None \<Rightarrow> False
      | Some q \<Rightarrow> q_sequence q < sq \<and> \<not> q_complete q \<and> shares_resource j p i)"

definition base_settled :: "write_base option \<Rightarrow> bool" where
  "base_settled base = (case base of None \<Rightarrow> True | Some b \<Rightarrow> resolved b)"

definition eligible :: "journal \<Rightarrow> int \<Rightarrow> uuid \<Rightarrow> int \<Rightarrow> write_base option \<Rightarrow> int \<Rightarrow> bool" where
  "eligible j now i sq base retry_at \<longleftrightarrow>
     base_settled base \<and> barriers_satisfied j i \<and> retry_at \<le> now \<and> \<not> blocked_by_earlier j i sq"

definition claimable :: "upload_state \<Rightarrow> int \<Rightarrow> journal \<Rightarrow> upload_record list" where
  "claimable st now j = sort_key u_sequence
     (filter (\<lambda>r. u_state r = st \<and> eligible j now (u_id r) (u_sequence r) (u_base r) (u_retry_at r)) (fm_values (uploads j)))"

definition claim_next :: "host \<Rightarrow> int \<Rightarrow> uuid \<Rightarrow> journal \<Rightarrow> upload_record option journal_result" where
  "claim_next h now token j =
     jbind (resolve_ready_generations h j) (\<lambda>settled j.
     if \<not> settled then give None j
     else case claimable PendingU now j of
       [] \<Rightarrow> give None j
     | r # _ \<Rightarrow>
         (case payload h (u_id r) j of
            (Inl e, j) \<Rightarrow> jbind (upload_save (r\<lparr>u_state := FailedU\<rparr>) j) (\<lambda>_. fail e)
          | (Inr _, j) \<Rightarrow>
              let r = r\<lparr>u_state := UploadingU, u_attempt := Some token\<rparr>
              in jbind (upload_save r j) (\<lambda>_. give (Some r))))"

definition claim_verification :: "uuid \<Rightarrow> uuid \<Rightarrow> journal \<Rightarrow> upload_record journal_result" where
  "claim_verification i token j =
     jbind (upload_get i j) (\<lambda>r j.
     if u_state r \<noteq> VerifyRequiredU \<or> \<not> base_settled (u_base r) \<or> \<not> barriers_satisfied j i then fail JStale j
     else let r = r\<lparr>u_state := VerifyingU, u_attempt := Some token\<rparr>
          in jbind (upload_save r j) (\<lambda>_. give r))"

definition claim_next_verification :: "host \<Rightarrow> int \<Rightarrow> uuid \<Rightarrow> journal \<Rightarrow> upload_record option journal_result" where
  "claim_next_verification h now token j =
     jbind (resolve_ready_generations h j) (\<lambda>settled j.
     if \<not> settled then give None j
     else case claimable VerifyRequiredU now j of
       [] \<Rightarrow> give None j
     | r # _ \<Rightarrow> jbind (claim_verification (u_id r) token j) (\<lambda>r. give (Some r)))"

definition claimable_mutations :: "int \<Rightarrow> journal \<Rightarrow> mutation_record list" where
  "claimable_mutations now j = sort_key m_sequence
     (filter (\<lambda>r. (m_state r = PendingM \<or> m_state r = VerifyRequiredM) \<and> m_local_ready r
        \<and> eligible j now (m_id r) (m_sequence r) (m_base r) (m_retry_at r)) (fm_values (mutations j)))"

definition claim_mutation :: "host \<Rightarrow> int \<Rightarrow> uuid \<Rightarrow> journal \<Rightarrow> mutation_record option journal_result" where
  "claim_mutation h now token j =
     jbind (resolve_ready_generations h j) (\<lambda>settled j.
     if \<not> settled then give None j
     else case claimable_mutations now j of
       [] \<Rightarrow> give None j
     | r # _ \<Rightarrow>
         let r = r\<lparr>m_state := (if m_state r = PendingM then ApplyingM else VerifyingM), m_attempt := Some token\<rparr>
         in jbind (save_mutation r j) (\<lambda>_. give (Some r)))"

section \<open>Attempts at saves\<close>

definition active_attempt :: "uuid \<Rightarrow> uuid \<Rightarrow> journal \<Rightarrow> upload_record journal_result" where
  "active_attempt i token j =
     jbind (upload_get i j) (\<lambda>r j.
     if \<not> (u_state r = UploadingU \<or> u_state r = VerifyingU) \<or> u_attempt r \<noteq> Some token then fail JStale j
     else give r j)"

definition record_session :: "uuid \<Rightarrow> uuid \<Rightarrow> uuid \<Rightarrow> int \<Rightarrow> journal \<Rightarrow> unit journal_result" where
  "record_session i token k transferred j =
     jbind (active_attempt i token j) (\<lambda>r j.
     if transferred > u_size r then fail JStale j
     else upload_save (r\<lparr>u_session_key := Some k, u_transferred := transferred, u_state := UploadingU\<rparr>) j)"

definition retry_time :: "int \<Rightarrow> int \<Rightarrow> int" where
  "retry_time now delay = min (min (now + delay) u64_max) i64_max"

definition defer_attempt :: "int \<Rightarrow> uuid \<Rightarrow> uuid \<Rightarrow> upload_state \<Rightarrow> int \<Rightarrow> journal \<Rightarrow> unit journal_result" where
  "defer_attempt now i token st delay j =
     (if \<not> (st = VerifyRequiredU \<or> st = ConflictU \<or> st = FailedU) then fail JStale j
      else jbind (active_attempt i token j) (\<lambda>r.
        upload_save (r\<lparr>u_state := st, u_attempt := None, u_retry_at := retry_time now delay,
          u_failed_attempts := min (u_failed_attempts r + 1) u32_max\<rparr>)))"

definition stop_attempt :: "int \<Rightarrow> uuid \<Rightarrow> uuid \<Rightarrow> upload_state \<Rightarrow> journal \<Rightarrow> unit journal_result" where
  "stop_attempt now i token st = defer_attempt now i token st 0"

definition retry_verified_uncommitted :: "host \<Rightarrow> uuid \<Rightarrow> journal \<Rightarrow> unit journal_result" where
  "retry_verified_uncommitted h i j =
     jbind (upload_get i j) (\<lambda>r j.
     if \<not> (u_state r = VerifyRequiredU \<or> u_state r = FailedU) then fail JStale j
     else jbind (payload h i j) (\<lambda>_.
       upload_save (r\<lparr>u_state := PendingU, u_attempt := None, u_retry_at := 0, u_session_key := None, u_transferred := 0\<rparr>)))"

definition request_retry :: "uuid \<Rightarrow> journal \<Rightarrow> unit journal_result" where
  "request_retry i j =
     jbind (upload_get i j) (\<lambda>r j.
     if \<not> base_settled (u_base r) then fail JStale j
     else if \<not> (u_state r = FailedU \<or> u_state r = VerifyRequiredU) then fail JStale j
     else upload_save (r\<lparr>u_state := VerifyRequiredU, u_retry_at := 0\<rparr>) j)"

definition receipt_matches :: "upload_record \<Rightarrow> node \<Rightarrow> bool" where
  "receipt_matches r remote \<longleftrightarrow>
     (case u_intent r of
        Create parent name \<Rightarrow> node_name remote = name \<and> parent_id remote = Some parent
      | Replace item tag \<Rightarrow> node_id remote = item)
     \<and> node_id remote \<noteq> [] \<and> node_kind remote = File \<and> \<not> package remote \<and> node_target remote = None
     \<and> uint (node_size remote) = u_size r \<and> content_revision remote \<noteq> None"

definition acknowledge :: "uuid \<Rightarrow> uuid \<Rightarrow> node \<Rightarrow> journal \<Rightarrow> unit journal_result" where
  "acknowledge i token remote j =
     jbind (active_attempt i token j) (\<lambda>r j.
     if \<not> is_file_bytes (u_representation r) then fail JIntent j
     else if \<not> receipt_matches r remote then fail JCorrupt j
     else upload_save (r\<lparr>u_remote := Some remote, u_state := UploadedU, u_transferred := u_size r, u_attempt := None\<rparr>) j)"

definition prune_uploaded_payload :: "uuid \<Rightarrow> journal \<Rightarrow> unit journal_result" where
  "prune_uploaded_payload i j =
     jbind (upload_get i j) (\<lambda>r j.
     if u_state r \<noteq> UploadedU then fail JStale j
     else (Inr (), j\<lparr>objects := fmdrop i (objects j)\<rparr>))"

section \<open>Keeping both copies\<close>

text \<open>A later save that was never attempted and follows the refused one without a change of place.\<close>

definition untouched_successor :: "upload_record \<Rightarrow> upload_record \<Rightarrow> upload_record \<Rightarrow> bool" where
  "untouched_successor original previous next \<longleftrightarrow>
     u_state next = PendingU \<and> u_sequence next > u_sequence previous \<and> u_scope next = u_scope original
     \<and> u_intent next = u_intent original
     \<and> (case u_base next of None \<Rightarrow> False | Some b \<Rightarrow> \<not> resolved b \<and> predecessor b = u_id previous)
     \<and> u_attempt next = None \<and> u_remote next = None \<and> u_session_key next = None
     \<and> u_transferred next = 0 \<and> u_failed_attempts next = 0"

text \<open>Both walks along the successors stop after a fixed number of saves.\<close>

function chain_walk :: "int \<Rightarrow> upload_record \<Rightarrow> upload_record \<Rightarrow> journal \<Rightarrow> journal_error + upload_record list" where
  "chain_walk n original previous j =
     (case fmlookup (write_successors j) (u_id previous) of
        None \<Rightarrow> Inr []
      | Some next \<Rightarrow>
          (case fmlookup (uploads j) next of
             None \<Rightarrow> Inl JMissing
           | Some r \<Rightarrow>
               if n \<le> 0 then Inl JQuota
               else if \<not> untouched_successor original previous r then Inl JStale
               else and_then (chain_walk (n - 1) original r j) (\<lambda>rs. Inr (r # rs))))"
  by pat_completeness auto
termination by (relation "measure (\<lambda>(n, _). nat n)") auto

definition has_dependent :: "journal \<Rightarrow> uuid \<Rightarrow> bool" where
  "has_dependent j i = fBex (write_prerequisites j) (\<lambda>(_, p). p = i)"

function rescue_walk :: "int \<Rightarrow> upload_record \<Rightarrow> upload_record \<Rightarrow> journal \<Rightarrow> journal_error + upload_record list" where
  "rescue_walk n original previous j =
     (if has_dependent j (u_id previous) then Inl JStale
      else case fmlookup (write_successors j) (u_id previous) of
        None \<Rightarrow> Inr []
      | Some next \<Rightarrow>
          if n \<le> 0 then Inl JQuota
          else (case fmlookup (uploads j) next of
             None \<Rightarrow> Inl JMissing
           | Some r \<Rightarrow>
               if \<not> untouched_successor original previous r then Inl JStale
               else and_then (rescue_walk (n - 1) original r j) (\<lambda>rs. Inr (r # rs))))"
  by pat_completeness auto
termination by (relation "measure (\<lambda>(n, _). nat n)") auto

declare chain_walk.simps [simp del] rescue_walk.simps [simp del]

definition prepare_saved :: "uuid \<Rightarrow> string \<Rightarrow> string \<Rightarrow> journal \<Rightarrow> rescue_commit journal_result" where
  "prepare_saved i parent name j =
     jbind (upload_get i j) (\<lambda>original j.
     if u_state original \<notin> {ConflictU, FailedU} then fail JStale j
     else if isl (intent_validate (Create parent name)) then fail JIntent j
     else (and_then (chain_walk 9999 original original j) (\<lambda>_.
           and_then (rescue_walk 10000 original original j) (\<lambda>rs.
             Inr \<lparr>rc_original = original, rc_successors = rs\<rparr>)), j))"

definition keep_both :: "host \<Rightarrow> uuid \<Rightarrow> int \<Rightarrow> uuid \<Rightarrow> string \<Rightarrow> string \<Rightarrow> journal \<Rightarrow> upload_record journal_result" where
  "keep_both h copy now i parent name j =
     jbind (upload_get i j) (\<lambda>r j.
     if \<not> is_file_bytes (u_representation r) then fail JIntent j
     else jbind (resolve_ready_generations h j) (\<lambda>_ j.
     jbind (prepare_saved i parent name j) (\<lambda>c j.
     jbind (payload h (u_id (rc_latest c)) j) (\<lambda>bytes j.
     enqueue_generation h copy now (u_scope (rc_original c)) (Create parent name) no_order (Some c)
       [Inr bytes] j))))"

section \<open>Attempts at namespace changes\<close>

definition mutation_attempt :: "uuid \<Rightarrow> uuid \<Rightarrow> journal \<Rightarrow> mutation_record journal_result" where
  "mutation_attempt i token j =
     jbind (mutation_get i j) (\<lambda>r j.
     if \<not> (m_state r = ApplyingM \<or> m_state r = VerifyingM) \<or> m_attempt r \<noteq> Some token then fail JStale j
     else give r j)"

definition has_scheme :: "string \<Rightarrow> bool" where
  "has_scheme s = list_ex (\<lambda>n. take 3 (drop n s) = ''://'') [0 ..< length s]"

definition record_prepared_mutation :: "uuid \<Rightarrow> uuid \<Rightarrow> string \<Rightarrow> journal \<Rightarrow> unit journal_result" where
  "record_prepared_mutation i token item j =
     (if item = [] \<or> length item > 4096 \<or> CHR 0x00 \<in> set item \<or> CHR 0x0D \<in> set item \<or> CHR 0x0A \<in> set item
         \<or> has_scheme item then fail JIntent j
      else jbind (mutation_attempt i token j) (\<lambda>r j.
        if m_state r \<noteq> ApplyingM \<or> m_prepared_item r \<noteq> None then fail JStale j
        else save_mutation (r\<lparr>m_prepared_item := Some item\<rparr>) j))"

definition reconciled_state :: "mutation_record \<Rightarrow> mutation_receipt \<Rightarrow> mutation_state" where
  "reconciled_state r receipt =
     (case (mr_intent (m_request r), receipt) of
        (Relocate before parent name, ReceiptUpsert after) \<Rightarrow>
          if m_state r \<noteq> VerifyingM \<or> node_kind before \<noteq> File then AppliedM
          else if node_size before \<noteq> node_size after then ConflictM
          else if etag before = etag after then AppliedM
          else (case (nonempty_tag (content_version before), nonempty_tag (content_version after)) of
                  (Some old, Some new) \<Rightarrow> if old = new then AppliedM else ConflictM
                | _ \<Rightarrow> NeedsReviewM)
      | _ \<Rightarrow> AppliedM)"

definition acknowledge_mutation_evidence ::
    "uuid \<Rightarrow> uuid \<Rightarrow> mutation_receipt \<Rightarrow> verified_mutation_content option \<Rightarrow> journal \<Rightarrow> mutation_state journal_result" where
  "acknowledge_mutation_evidence i token receipt proof j =
     jbind (mutation_attempt i token j) (\<lambda>r j.
     if is_some_and proof (\<lambda>p. m_state r \<noteq> VerifyingM \<or> \<not> valid_for p (m_request r) receipt) then fail JCorrupt j
     else if \<not> accepts (m_request r) receipt then fail JCorrupt j
     else if is_some_and (m_prepared_item r) (\<lambda>p. \<not> (case receipt of
              ReceiptUpsert n \<Rightarrow> node_id n = p | ReceiptRemoved item \<Rightarrow> item = p)) then fail JCorrupt j
     else let st = (if proof \<noteq> None then AppliedM else reconciled_state r receipt);
              r = r\<lparr>m_state := st, m_verified_content := proof, m_receipt := Some receipt, m_attempt := None\<rparr>
          in jbind (save_mutation r j) (\<lambda>_. give st))"

definition defer_mutation :: "int \<Rightarrow> uuid \<Rightarrow> uuid \<Rightarrow> mutation_state \<Rightarrow> int \<Rightarrow> journal \<Rightarrow> unit journal_result" where
  "defer_mutation now i token st delay j =
     (if \<not> (st = VerifyRequiredM \<or> st = FailedM \<or> st = ConflictM \<or> st = NeedsReviewM) then fail JStale j
      else jbind (mutation_attempt i token j) (\<lambda>r.
        save_mutation (r\<lparr>m_state := st, m_attempt := None, m_retry_at := retry_time now delay,
          m_failed_attempts := min (m_failed_attempts r + 1) u32_max\<rparr>)))"

definition defer_mutation_preparation :: "int \<Rightarrow> uuid \<Rightarrow> uuid \<Rightarrow> int \<Rightarrow> journal \<Rightarrow> unit journal_result" where
  "defer_mutation_preparation now i token delay j =
     jbind (mutation_attempt i token j) (\<lambda>r j.
     if m_state r \<noteq> ApplyingM \<or> m_prepared_item r \<noteq> None then fail JStale j
     else save_mutation (r\<lparr>m_state := PendingM, m_attempt := None, m_retry_at := retry_time now delay,
            m_failed_attempts := min (m_failed_attempts r + 1) u32_max\<rparr>) j)"

definition retry_uncommitted_mutation :: "uuid \<Rightarrow> uuid \<Rightarrow> journal \<Rightarrow> unit journal_result" where
  "retry_uncommitted_mutation i token j =
     jbind (mutation_attempt i token j) (\<lambda>r j.
     if m_state r \<noteq> VerifyingM then fail JStale j
     else save_mutation (r\<lparr>m_state := PendingM, m_attempt := None, m_retry_at := 0\<rparr>) j)"

definition request_mutation_retry :: "uuid \<Rightarrow> journal \<Rightarrow> unit journal_result" where
  "request_mutation_retry i j =
     jbind (mutation_get i j) (\<lambda>r j.
     if \<not> base_settled (m_base r) then fail JStale j
     else if \<not> (m_state r = FailedM \<or> m_state r = VerifyRequiredM \<or> m_state r = NeedsReviewM) then fail JStale j
     else save_mutation (r\<lparr>m_state := VerifyRequiredM, m_retry_at := 0\<rparr>) j)"

definition is_removal :: "mutation_intent \<Rightarrow> bool" where
  "is_removal i = (case i of RemoveFile before \<Rightarrow> True | RemoveFolder before \<Rightarrow> True | _ \<Rightarrow> False)"

definition stuck :: "mutation_record \<Rightarrow> bool" where
  "stuck r \<longleftrightarrow> m_state r = ConflictM \<or> m_state r = FailedM \<or> m_state r = NeedsReviewM"

text \<open>Discarding a stuck removal needs the namespace object it hides, which no operation
  modelled here owns.\<close>

definition discard_stuck_removal :: "uuid \<Rightarrow> journal \<Rightarrow> unit journal_result" where
  "discard_stuck_removal i j =
     jbind (mutation_get i j) (\<lambda>r j.
     if \<not> stuck r then fail JStale j
     else if \<not> is_removal (mr_intent (m_request r)) then fail JIntent j
     else fail JMissing j)"

section \<open>Restarting\<close>

text \<open>What opening the journal does to attempts a previous process left behind.\<close>

definition restart_upload :: "upload_record \<Rightarrow> upload_record" where
  "restart_upload r = (if u_state r = UploadingU \<or> u_state r = VerifyingU
     then r\<lparr>u_state := VerifyRequiredU, u_attempt := None\<rparr> else r)"

definition restart_mutation :: "mutation_record \<Rightarrow> mutation_record" where
  "restart_mutation r = (if m_state r = ApplyingM \<or> m_state r = VerifyingM
     then r\<lparr>m_state := VerifyRequiredM, m_attempt := None\<rparr> else r)"

definition restart :: "journal \<Rightarrow> journal" where
  "restart j = j\<lparr>uploads := fmmap restart_upload (uploads j), mutations := fmmap restart_mutation (mutations j)\<rparr>"

section \<open>Readers\<close>

definition unconfirmed_changes :: "journal \<Rightarrow> nat" where
  "unconfirmed_changes j =
     length (filter (\<lambda>r. u_state r = VerifyRequiredU \<or> u_state r = VerifyingU) (fm_values (uploads j)))
     + length (filter (\<lambda>r. m_state r = VerifyRequiredM \<or> m_state r = VerifyingM) (fm_values (mutations j)))"

definition given_up :: "upload_record \<Rightarrow> bool" where
  "given_up r \<longleftrightarrow> u_state r = FailedU \<or> u_state r = ConflictU"

definition failed_uploads :: "journal \<Rightarrow> nat" where
  "failed_uploads j = length (filter given_up (fm_values (uploads j)))"

definition clamp_limit :: "nat \<Rightarrow> nat" where
  "clamp_limit n = max 1 (min n 1000)"

definition failed_upload_list :: "nat \<Rightarrow> journal \<Rightarrow> upload_record list" where
  "failed_upload_list limit j =
     take (clamp_limit limit) (rev (sort_key u_sequence (filter given_up (fm_values (uploads j)))))"

definition list_uploads :: "int \<Rightarrow> nat \<Rightarrow> journal \<Rightarrow> upload_record list" where
  "list_uploads after limit j =
     (if after > i64_max then []
      else take (clamp_limit limit) (sort_key u_sequence (filter (\<lambda>r. u_sequence r > after) (fm_values (uploads j)))))"

definition recent_uploads :: "nat \<Rightarrow> journal \<Rightarrow> upload_record list" where
  "recent_uploads limit j = take (min limit 200) (rev (sort_key u_sequence (fm_values (uploads j))))"

definition list_mutations :: "int \<Rightarrow> nat \<Rightarrow> journal \<Rightarrow> mutation_record list" where
  "list_mutations after limit j =
     (if after > i64_max then []
      else take (clamp_limit limit) (sort_key m_sequence (filter (\<lambda>r. m_sequence r > after) (fm_values (mutations j)))))"

definition stuck_mutations :: "journal \<Rightarrow> nat" where
  "stuck_mutations j = length (filter stuck (fm_values (mutations j)))"

definition stuck_mutation_list :: "nat \<Rightarrow> journal \<Rightarrow> mutation_record list" where
  "stuck_mutation_list limit j =
     take (clamp_limit limit) (rev (sort_key m_sequence (filter stuck (fm_values (mutations j)))))"

definition stuck_removals :: "nat \<Rightarrow> journal \<Rightarrow> uuid list" where
  "stuck_removals limit j =
     map m_id (filter (\<lambda>r. is_removal (mr_intent (m_request r)))
       (take (clamp_limit limit) (sort_key m_sequence (filter stuck (fm_values (mutations j))))))"

definition confirmed_upload_base :: "uuid \<Rightarrow> journal \<Rightarrow> node option journal_result" where
  "confirmed_upload_base i j =
     jbind (upload_get i j) (\<lambda>r j.
     case u_base r of
       None \<Rightarrow> give None j
     | Some b \<Rightarrow>
         if \<not> resolved b then fail JStale j
         else jbind (base_node b (u_scope r) (u_sequence r) j) (\<lambda>n j.
           case n of
             None \<Rightarrow> fail JStale j
           | Some n \<Rightarrow>
               if node_kind n \<noteq> File \<or> package n \<or> node_target n \<noteq> None
                  \<or> \<not> (case u_intent r of Replace item tag \<Rightarrow> item = node_id n \<and> Some tag = etag n | _ \<Rightarrow> False)
               then fail JStale j
               else give (Some n) j))"

definition operation_prerequisites :: "uuid \<Rightarrow> journal \<Rightarrow> uuid list journal_result" where
  "operation_prerequisites i j =
     (if fmlookup (write_queue j) i = None then fail JMissing j
      else give (sorted_list_of_fset (snd |`| ffilter (\<lambda>(a, _). a = i) (write_prerequisites j))) j)"

section \<open>The machine\<close>

datatype journal_op =
    Enqueue uuid int scope upload_intent "(journal_error + string) list"
  | EnqueueAfter uuid int uuid "uuid list" "(journal_error + string) list"
  | EnqueueMutation uuid mutation_request
  | EnqueueMutationAfter uuid uuid "uuid list" mutation_request
  | ClaimNext int uuid
  | ClaimVerification uuid uuid
  | ClaimNextVerification int uuid
  | ClaimMutation int uuid
  | RecordSession uuid uuid uuid int
  | DeferAttempt int uuid uuid upload_state int
  | RetryVerifiedUncommitted uuid
  | RequestRetry uuid
  | Acknowledge uuid uuid node
  | PrunePayload uuid
  | KeepBoth uuid int uuid string string
  | RecordPrepared uuid uuid string
  | AcknowledgeMutation uuid uuid mutation_receipt "verified_mutation_content option"
  | DeferMutation int uuid uuid mutation_state int
  | DeferPreparation int uuid uuid int
  | RetryUncommittedMutation uuid uuid
  | RequestMutationRetry uuid
  | Restart

fun journal_exec :: "host \<Rightarrow> journal_op \<Rightarrow> journal \<Rightarrow> journal" where
  "journal_exec h (Enqueue i now s intent chunks) j = snd (enqueue h i now s intent chunks j)"
| "journal_exec h (EnqueueAfter i now p ps chunks) j = snd (enqueue_after_all h i now p ps chunks j)"
| "journal_exec h (EnqueueMutation i request) j = snd (enqueue_mutation h i request j)"
| "journal_exec h (EnqueueMutationAfter i p ps request) j = snd (enqueue_mutation_after_all h i p ps request j)"
| "journal_exec h (ClaimNext now token) j = snd (claim_next h now token j)"
| "journal_exec h (ClaimVerification i token) j = snd (claim_verification i token j)"
| "journal_exec h (ClaimNextVerification now token) j = snd (claim_next_verification h now token j)"
| "journal_exec h (ClaimMutation now token) j = snd (claim_mutation h now token j)"
| "journal_exec h (RecordSession i token k n) j = snd (record_session i token k n j)"
| "journal_exec h (DeferAttempt now i token st delay) j = snd (defer_attempt now i token st delay j)"
| "journal_exec h (RetryVerifiedUncommitted i) j = snd (retry_verified_uncommitted h i j)"
| "journal_exec h (RequestRetry i) j = snd (request_retry i j)"
| "journal_exec h (Acknowledge i token remote) j = snd (acknowledge i token remote j)"
| "journal_exec h (PrunePayload i) j = snd (prune_uploaded_payload i j)"
| "journal_exec h (KeepBoth copy now i parent name) j = snd (keep_both h copy now i parent name j)"
| "journal_exec h (RecordPrepared i token item) j = snd (record_prepared_mutation i token item j)"
| "journal_exec h (AcknowledgeMutation i token receipt proof) j = snd (acknowledge_mutation_evidence i token receipt proof j)"
| "journal_exec h (DeferMutation now i token st delay) j = snd (defer_mutation now i token st delay j)"
| "journal_exec h (DeferPreparation now i token delay) j = snd (defer_mutation_preparation now i token delay j)"
| "journal_exec h (RetryUncommittedMutation i token) j = snd (retry_uncommitted_mutation i token j)"
| "journal_exec h (RequestMutationRetry i) j = snd (request_mutation_retry i j)"
| "journal_exec h Restart j = restart j"

end
