(* ===== verification/Journal_Spec.thy ===== *)
theory Journal_Spec
  imports Journal_Writes
begin

text \<open>
  What the write journal promises, as a step relation on journals: the life cycle of
  one save (\<open>upload_move\<close>) and of one namespace change (\<open>mutation_move\<close>), and the atomic
  changes a journal may make (\<open>jstep\<close>). The operations refine it, so that every invariant
  is proved once per kind of step and not once per operation. \<open>T\<close> is the set of
  permits of the calls under consideration: the attempt tokens they may issue, the
  operations they may send again, and whether they may resolve refused saves.
\<close>

section \<open>Life cycles\<close>

datatype permit = Token uuid | Replay uuid | Settle

definition upload_in_flight :: "upload_record \<Rightarrow> bool" where
  "upload_in_flight r \<longleftrightarrow> u_state r = UploadingU \<or> u_state r = VerifyingU"

definition mutation_in_flight :: "mutation_record \<Rightarrow> bool" where
  "mutation_in_flight r \<longleftrightarrow> m_state r = ApplyingM \<or> m_state r = VerifyingM"

inductive upload_move :: "permit set \<Rightarrow> upload_record \<Rightarrow> upload_record \<Rightarrow> bool" for T where
  Claimed: "u_state r = PendingU \<Longrightarrow> base_settled (u_base r) \<Longrightarrow> Token t \<in> T
    \<Longrightarrow> upload_move T r (r\<lparr>u_state := UploadingU, u_attempt := Some t\<rparr>)"
| Unusable: "u_state r = PendingU \<or> u_state r = PreparingU \<Longrightarrow> upload_move T r (r\<lparr>u_state := FailedU\<rparr>)"
| Inspected: "u_state r = VerifyRequiredU \<Longrightarrow> base_settled (u_base r) \<Longrightarrow> Token t \<in> T
    \<Longrightarrow> upload_move T r (r\<lparr>u_state := VerifyingU, u_attempt := Some t\<rparr>)"
| Progressed: "upload_in_flight r \<Longrightarrow> n \<le> u_size r
    \<Longrightarrow> upload_move T r (r\<lparr>u_session_key := Some k, u_transferred := n, u_state := UploadingU\<rparr>)"
| Deferred: "upload_in_flight r \<Longrightarrow> st \<in> {VerifyRequiredU, ConflictU, FailedU}
    \<Longrightarrow> upload_move T r (r\<lparr>u_state := st, u_attempt := None, u_retry_at := at, u_failed_attempts := n\<rparr>)"
| Retried: "u_state r = VerifyRequiredU \<or> u_state r = FailedU \<Longrightarrow> Replay (u_id r) \<in> T
    \<Longrightarrow> upload_move T r (r\<lparr>u_state := PendingU, u_attempt := None, u_retry_at := 0, u_session_key := None,
          u_transferred := 0\<rparr>)"
| Rechecked: "u_state r = FailedU \<or> u_state r = VerifyRequiredU \<Longrightarrow> base_settled (u_base r)
    \<Longrightarrow> upload_move T r (r\<lparr>u_state := VerifyRequiredU, u_retry_at := 0\<rparr>)"
| Confirmed: "upload_in_flight r \<Longrightarrow> receipt_matches r n
    \<Longrightarrow> upload_move T r (r\<lparr>u_remote := Some n, u_state := UploadedU, u_transferred := u_size r, u_attempt := None\<rparr>)"
| Settled: "u_state r \<in> {ConflictU, FailedU, PendingU} \<Longrightarrow> Settle \<in> T \<Longrightarrow> upload_move T r (r\<lparr>u_state := ResolvedU\<rparr>)"

text \<open>Only a relocation or the removal of a file may follow an earlier operation.\<close>

definition chainable :: "mutation_request \<Rightarrow> bool" where
  "chainable q = (case mr_intent q of Relocate before parent name \<Rightarrow> True | RemoveFile before \<Rightarrow> True | _ \<Rightarrow> False)"

inductive mutation_move :: "permit set \<Rightarrow> mutation_record \<Rightarrow> mutation_record \<Rightarrow> bool" for T where
  MClaimed: "m_state r = PendingM \<Longrightarrow> base_settled (m_base r) \<Longrightarrow> Token t \<in> T
    \<Longrightarrow> mutation_move T r (r\<lparr>m_state := ApplyingM, m_attempt := Some t\<rparr>)"
| MInspected: "m_state r = VerifyRequiredM \<Longrightarrow> base_settled (m_base r) \<Longrightarrow> Token t \<in> T
    \<Longrightarrow> mutation_move T r (r\<lparr>m_state := VerifyingM, m_attempt := Some t\<rparr>)"
| MUnusable: "m_state r = PendingM \<Longrightarrow> \<not> base_settled (m_base r) \<Longrightarrow> chainable q
    \<Longrightarrow> mutation_move T r (r\<lparr>m_request := q, m_state := FailedM\<rparr>)"
| MPrepared: "m_state r = ApplyingM \<Longrightarrow> m_prepared_item r = None
    \<Longrightarrow> mutation_move T r (r\<lparr>m_prepared_item := Some item\<rparr>)"
| MAnswered: "mutation_in_flight r \<Longrightarrow> accepts (m_request r) receipt \<Longrightarrow> st \<in> {AppliedM, ConflictM, NeedsReviewM}
    \<Longrightarrow> mutation_move T r (r\<lparr>m_state := st, m_verified_content := proof, m_receipt := Some receipt, m_attempt := None\<rparr>)"
| MDeferred: "mutation_in_flight r \<Longrightarrow> st \<in> {PendingM, VerifyRequiredM, FailedM, ConflictM, NeedsReviewM}
    \<Longrightarrow> st = PendingM \<longrightarrow> Replay (m_id r) \<in> T
    \<Longrightarrow> mutation_move T r (r\<lparr>m_state := st, m_attempt := None, m_retry_at := at, m_failed_attempts := n\<rparr>)"
| MRetried: "m_state r = VerifyingM \<Longrightarrow> Replay (m_id r) \<in> T
    \<Longrightarrow> mutation_move T r (r\<lparr>m_state := PendingM, m_attempt := None, m_retry_at := 0\<rparr>)"
| MRechecked: "m_state r \<in> {FailedM, VerifyRequiredM, NeedsReviewM} \<Longrightarrow> base_settled (m_base r)
    \<Longrightarrow> mutation_move T r (r\<lparr>m_state := VerifyRequiredM, m_retry_at := 0\<rparr>)"

inductive_simps upload_move_iff: "upload_move T r r'"
inductive_simps mutation_move_iff: "mutation_move T r r'"

text \<open>What never changes about a save that was accepted, and what a finished one keeps.\<close>

definition same_save :: "upload_record \<Rightarrow> upload_record \<Rightarrow> bool" where
  "same_save r r' \<longleftrightarrow> u_id r' = u_id r \<and> u_sequence r' = u_sequence r \<and> u_scope r' = u_scope r
     \<and> u_representation r' = u_representation r \<and> u_size r' = u_size r \<and> u_sha256 r' = u_sha256 r
     \<and> u_saved_at r' = u_saved_at r
     \<and> map_option predecessor (u_base r') = map_option predecessor (u_base r)"

definition same_change :: "mutation_record \<Rightarrow> mutation_record \<Rightarrow> bool" where
  "same_change r r' \<longleftrightarrow> m_id r' = m_id r \<and> m_sequence r' = m_sequence r
     \<and> map_option predecessor (m_base r') = map_option predecessor (m_base r)"

lemma upload_move_same: "upload_move T r r' \<Longrightarrow> same_save r r' \<and> u_base r' = u_base r \<and> u_intent r' = u_intent r"
  by (induction rule: upload_move.induct) (auto simp: same_save_def)

lemma upload_move_final: "upload_move T r r' \<Longrightarrow> u_state r \<notin> {UploadedU, ResolvedU} \<and> (u_state r = ConflictU \<longrightarrow> Settle \<in> T)"
  by (induction rule: upload_move.induct) (auto simp: upload_in_flight_def)

lemma mutation_move_same: "mutation_move T r r' \<Longrightarrow> same_change r r' \<and> m_base r' = m_base r"
  by (induction rule: mutation_move.induct) (auto simp: same_change_def)

lemma mutation_move_final: "mutation_move T r r' \<Longrightarrow> m_state r \<notin> {AppliedM, ConflictM, ResolvedM}"
  by (induction rule: mutation_move.induct) (auto simp: mutation_in_flight_def)

section \<open>Steps of a journal\<close>

definition mark_complete :: "uuid \<Rightarrow> bool \<Rightarrow> (uuid, queue_row) fmap \<Rightarrow> (uuid, queue_row) fmap" where
  "mark_complete i c q = (case fmlookup q i of None \<Rightarrow> q | Some row \<Rightarrow> fmupd i (row\<lparr>q_complete := c\<rparr>) q)"

text \<open>The queue counts a save as complete when it is uploaded or was resolved by the user.\<close>

definition upload_done :: "upload_record \<Rightarrow> bool" where
  "upload_done r \<longleftrightarrow> u_state r = UploadedU \<or> u_state r = ResolvedU"

lemma upload_done_update [simp]: "upload_done (r\<lparr>u_intent := x, u_base := y\<rparr>) = upload_done r"
  by (simp add: upload_done_def)

lemma upload_done_pending: "u_state r = PendingU \<Longrightarrow> \<not> upload_done r"
  by (simp add: upload_done_def)

definition put_upload :: "upload_record \<Rightarrow> journal \<Rightarrow> journal" where
  "put_upload r j = j\<lparr>uploads := fmupd (u_id r) r (uploads j),
     write_queue := mark_complete (u_id r) (upload_done r) (write_queue j)\<rparr>"

definition put_mutation :: "mutation_record \<Rightarrow> journal \<Rightarrow> journal" where
  "put_mutation r j = j\<lparr>mutations := fmupd (m_id r) r (mutations j),
     write_queue := mark_complete (m_id r) (m_state r = AppliedM) (write_queue j)\<rparr>"

definition confirmed :: "journal \<Rightarrow> uuid \<Rightarrow> node option" where
  "confirmed j p = (case fmlookup (uploads j) p of
       Some r \<Rightarrow> confirmed_node (UploadOp r)
     | None \<Rightarrow> Option.bind (fmlookup (mutations j) p) (\<lambda>r. confirmed_node (MutationOp r)))"

definition earlier :: "journal \<Rightarrow> uuid \<Rightarrow> int \<Rightarrow> bool" where
  "earlier j p sq \<longleftrightarrow> (\<exists>q. fmlookup (write_queue j) p = Some q \<and> q_sequence q < sq)"

text \<open>Admission of a new operation: a queue row behind every other, the resources it
  excludes others by, its prerequisites, and its place after its predecessor.\<close>

definition admit :: "uuid \<Rightarrow> resource list \<Rightarrow> uuid list \<Rightarrow> write_base option \<Rightarrow> journal \<Rightarrow> journal" where
  "admit i keys ps base j = j\<lparr>
     write_queue := fmupd i \<lparr>q_sequence = last_sequence j + 1, q_complete = False\<rparr> (write_queue j),
     last_sequence := last_sequence j + 1,
     write_resources := write_resources j |\<union>| fset_of_list (map (Pair i) keys),
     write_prerequisites := write_prerequisites j |\<union>| fset_of_list (map (Pair i) ps),
     write_successors := (case base of None \<Rightarrow> write_successors j
       | Some b \<Rightarrow> fmupd (predecessor b) i (write_successors j))\<rparr>"

definition admissible :: "uuid \<Rightarrow> uuid list \<Rightarrow> write_base option \<Rightarrow> journal \<Rightarrow> bool" where
  "admissible i ps base j \<longleftrightarrow> fmlookup (write_queue j) i = None
     \<and> (\<forall>p \<in> set ps. p \<noteq> i \<and> earlier j p (last_sequence j + 1))
     \<and> (\<forall>b. base = Some b \<longrightarrow> \<not> resolved b \<and> predecessor b \<noteq> i \<and> earlier j (predecessor b) (last_sequence j + 1))"

text \<open>Room for one more payload in the spool.\<close>

definition spool_fits :: "journal \<Rightarrow> string \<Rightarrow> bool" where
  "spool_fits j bytes \<longleftrightarrow> length (fm_values (objects j)) < 10000
     \<and> total_length (fm_values (objects j)) + int (length bytes) \<le> max (total_length (fm_values (objects j))) (j_quota j)"

inductive jstep :: "host \<Rightarrow> permit set \<Rightarrow> journal \<Rightarrow> journal \<Rightarrow> bool" for h T where
  Upload_saved: "fmlookup (uploads j) i = Some r \<Longrightarrow> upload_move T r r' \<Longrightarrow> jstep h T j (put_upload r' j)"
| Mutation_saved: "fmlookup (mutations j) i = Some r \<Longrightarrow> mutation_move T r r' \<Longrightarrow> jstep h T j (put_mutation r' j)"
| Upload_rebound: "fmlookup (uploads j) i = Some r \<Longrightarrow> u_state r = PendingU \<or> u_state r = PreparingU
    \<Longrightarrow> u_base r = Some b \<Longrightarrow> \<not> resolved b \<Longrightarrow> complete_of j (predecessor b)
    \<Longrightarrow> confirmed j (predecessor b) = Some n \<Longrightarrow> rebind (Some n) = Some intent
    \<Longrightarrow> r' = r\<lparr>u_intent := intent, u_base := Some (b\<lparr>resolved := True\<rparr>)\<rparr>
    \<Longrightarrow> jstep h T j ((add_resources i (upload_resources h (u_scope r) intent) j)\<lparr>uploads := fmupd i r' (uploads j)\<rparr>)"
| Mutation_rebound: "fmlookup (mutations j) i = Some r \<Longrightarrow> m_state r = PendingM
    \<Longrightarrow> m_base r = Some b \<Longrightarrow> \<not> resolved b \<Longrightarrow> complete_of j (predecessor b)
    \<Longrightarrow> confirmed j (predecessor b) = Some n \<Longrightarrow> with_source (\<lambda>_. n) (m_request r) = Some q
    \<Longrightarrow> mutation_validate q = Inr () \<Longrightarrow> mutation_resources h q = Inr keys
    \<Longrightarrow> r' = r\<lparr>m_request := q, m_base := Some (b\<lparr>resolved := True\<rparr>)\<rparr>
    \<Longrightarrow> jstep h T j ((add_resources i keys j)\<lparr>mutations := fmupd i r' (mutations j)\<rparr>)"
| Published: "fmlookup (objects j) i = None \<Longrightarrow> spool_fits j bytes \<Longrightarrow> jstep h T j (j\<lparr>objects := fmupd i bytes (objects j)\<rparr>)"
| Upload_admitted: "admissible (u_id r) ps (u_base r) j \<Longrightarrow> u_state r = PendingU \<Longrightarrow> u_attempt r = None
    \<Longrightarrow> u_representation r = FileBytes \<Longrightarrow> u_sequence r = last_sequence j + 1
    \<Longrightarrow> fmlookup (objects j) (u_id r) = Some bytes \<Longrightarrow> u_size r = int (length bytes) \<Longrightarrow> u_sha256 r = sha256 h bytes
    \<Longrightarrow> jstep h T j ((admit (u_id r) (upload_resources h (u_scope r) (u_intent r)) ps (u_base r) j)\<lparr>uploads := fmupd (u_id r) r (uploads j)\<rparr>)"
| Mutation_admitted: "admissible (m_id r) ps (m_base r) j \<Longrightarrow> m_base r \<noteq> None \<longrightarrow> chainable (m_request r) \<Longrightarrow> m_state r = PendingM \<Longrightarrow> m_attempt r = None
    \<Longrightarrow> m_sequence r = last_sequence j + 1 \<Longrightarrow> mutation_resources h (m_request r) = Inr keys
    \<Longrightarrow> jstep h T j ((admit (m_id r) keys ps (m_base r) j)\<lparr>mutations := fmupd (m_id r) r (mutations j)\<rparr>)"
| Pruned: "fmlookup (uploads j) i = Some r \<Longrightarrow> u_state r = UploadedU
    \<Longrightarrow> jstep h T j (j\<lparr>objects := fmdrop i (objects j)\<rparr>)"
| Recovered: "jstep h T j (restart j)"

end
