(* ===== verification/Journal_Invariants.thy ===== *)
theory Journal_Invariants
  imports Journal_Spec
begin

text \<open>
  The well-formedness of a journal (its tables agree, its edges point backward, its
  records carry the receipts and payloads their states promise, resolved generations
  are bound to their predecessor's receipt) and that every step of \<open>Journal_Spec\<close> keeps it.
\<close>

section \<open>Well-formed journals\<close>

text \<open>The tables agree: every record is filed under its identifier, has the queue row of its
  sequence number, and the row is complete exactly when the record is confirmed.\<close>

definition tables_ok :: "journal \<Rightarrow> bool" where
  "tables_ok j \<longleftrightarrow>
     (\<forall>i r. fmlookup (uploads j) i = Some r \<longrightarrow>
        u_id r = i \<and> fmlookup (write_queue j) i = Some \<lparr>q_sequence = u_sequence r, q_complete = upload_done r\<rparr>)
     \<and> (\<forall>i r. fmlookup (mutations j) i = Some r \<longrightarrow>
        m_id r = i \<and> fmlookup (write_queue j) i = Some \<lparr>q_sequence = m_sequence r, q_complete = (m_state r = AppliedM)\<rparr>)
     \<and> (\<forall>i. fmlookup (uploads j) i = None \<or> fmlookup (mutations j) i = None)
     \<and> (\<forall>i q. fmlookup (write_queue j) i = Some q \<longrightarrow> fmlookup (uploads j) i = None \<longrightarrow> fmlookup (mutations j) i \<noteq> None)"

definition sequences_ok :: "journal \<Rightarrow> bool" where
  "sequences_ok j \<longleftrightarrow> 0 \<le> last_sequence j
     \<and> (\<forall>i q. fmlookup (write_queue j) i = Some q \<longrightarrow> 0 < q_sequence q \<and> q_sequence q \<le> last_sequence j)
     \<and> (\<forall>i q i' q'. fmlookup (write_queue j) i = Some q \<longrightarrow> fmlookup (write_queue j) i' = Some q'
          \<longrightarrow> q_sequence q = q_sequence q' \<longrightarrow> i = i')"

text \<open>Every edge points backward.\<close>

definition edges_ok :: "journal \<Rightarrow> bool" where
  "edges_ok j \<longleftrightarrow>
     (\<forall>i p. (i, p) |\<in>| write_prerequisites j \<longrightarrow> (\<exists>q. fmlookup (write_queue j) i = Some q \<and> earlier j p (q_sequence q)))
     \<and> (\<forall>i r b. fmlookup (uploads j) i = Some r \<longrightarrow> u_base r = Some b \<longrightarrow> earlier j (predecessor b) (u_sequence r))
     \<and> (\<forall>i r b. fmlookup (mutations j) i = Some r \<longrightarrow> m_base r = Some b \<longrightarrow> earlier j (predecessor b) (m_sequence r))"

text \<open>Records: an attempt exactly while in flight, a matching receipt once confirmed, and a
  sealed payload until then.\<close>

definition upload_ok :: "upload_record \<Rightarrow> bool" where
  "upload_ok r \<longleftrightarrow> u_representation r = FileBytes \<and> u_state r \<noteq> PreparingU
     \<and> (u_attempt r \<noteq> None \<longleftrightarrow> upload_in_flight r)
     \<and> (u_state r = UploadedU \<longrightarrow> (\<exists>n. u_remote r = Some n \<and> receipt_matches r n))
     \<and> (u_state r \<in> {UploadingU, VerifyRequiredU, VerifyingU, UploadedU, ConflictU} \<longrightarrow> base_settled (u_base r))"

definition mutation_ok :: "mutation_record \<Rightarrow> bool" where
  "mutation_ok r \<longleftrightarrow> (m_attempt r \<noteq> None \<longleftrightarrow> mutation_in_flight r)
     \<and> (m_state r = AppliedM \<longrightarrow> (\<exists>receipt. m_receipt r = Some receipt \<and> accepts (m_request r) receipt))
     \<and> (m_state r \<notin> {PendingM, FailedM} \<longrightarrow> base_settled (m_base r))
     \<and> (m_base r \<noteq> None \<longrightarrow> chainable (m_request r))"

definition payload_ok :: "host \<Rightarrow> journal \<Rightarrow> upload_record \<Rightarrow> bool" where
  "payload_ok h j r \<longleftrightarrow> u_state r = UploadedU
     \<or> (\<exists>bytes. fmlookup (objects j) (u_id r) = Some bytes \<and> u_size r = int (length bytes) \<and> u_sha256 r = sha256 h bytes)"

definition records_ok :: "host \<Rightarrow> journal \<Rightarrow> bool" where
  "records_ok h j \<longleftrightarrow>
     (\<forall>i r. fmlookup (uploads j) i = Some r \<longrightarrow> upload_ok r \<and> payload_ok h j r)
     \<and> (\<forall>i r. fmlookup (mutations j) i = Some r \<longrightarrow> mutation_ok r)"

text \<open>A resolved generation names the item and version its predecessor's receipt
  confirmed, and holds the resources of what it will do.\<close>

definition bound_upload :: "host \<Rightarrow> journal \<Rightarrow> upload_record \<Rightarrow> bool" where
  "bound_upload h j r \<longleftrightarrow>
     (\<forall>k \<in> set (upload_resources h (u_scope r) (u_intent r)). (u_id r, k) |\<in>| write_resources j)
     \<and> (\<forall>b. u_base r = Some b \<longrightarrow> resolved b \<longrightarrow>
          (\<exists>n tag. confirmed j (predecessor b) = Some n \<and> node_kind n = File \<and> etag n = Some tag
             \<and> u_intent r = Replace (node_id n) tag))"

definition bound_mutation :: "host \<Rightarrow> journal \<Rightarrow> mutation_record \<Rightarrow> bool" where
  "bound_mutation h j r \<longleftrightarrow>
     (base_settled (m_base r) \<longrightarrow>
        (\<exists>keys. mutation_resources h (m_request r) = Inr keys \<and> (\<forall>k \<in> set keys. (m_id r, k) |\<in>| write_resources j)))
     \<and> (\<forall>b. m_base r = Some b \<longrightarrow> resolved b \<longrightarrow>
          (\<exists>n. confirmed j (predecessor b) = Some n \<and> intent_before (mr_intent (m_request r)) = Some n))"

definition bindings_ok :: "host \<Rightarrow> journal \<Rightarrow> bool" where
  "bindings_ok h j \<longleftrightarrow>
     (\<forall>i r. fmlookup (uploads j) i = Some r \<longrightarrow> bound_upload h j r)
     \<and> (\<forall>i r. fmlookup (mutations j) i = Some r \<longrightarrow> bound_mutation h j r)"

definition journal_ok :: "host \<Rightarrow> journal \<Rightarrow> bool" where
  "journal_ok h j \<longleftrightarrow> tables_ok j \<and> sequences_ok j \<and> edges_ok j \<and> records_ok h j \<and> bindings_ok h j"

section \<open>Lookups after a step\<close>

lemma mark_complete_lookup:
  "fmlookup (mark_complete i c q) k = (if k = i then map_option (q_complete_update (\<lambda>_. c)) (fmlookup q i) else fmlookup q k)"
  by (auto simp: mark_complete_def split: option.splits)

lemma mark_complete_sequence:
  "map_option q_sequence (fmlookup (mark_complete i c q) k) = map_option q_sequence (fmlookup q k)"
  by (auto simp: mark_complete_lookup option.map_comp comp_def)

lemma put_upload_sel [simp]:
  "uploads (put_upload r j) = fmupd (u_id r) r (uploads j)" "mutations (put_upload r j) = mutations j"
  "write_queue (put_upload r j) = mark_complete (u_id r) (upload_done r) (write_queue j)"
  "last_sequence (put_upload r j) = last_sequence j" "write_resources (put_upload r j) = write_resources j"
  "write_prerequisites (put_upload r j) = write_prerequisites j" "objects (put_upload r j) = objects j"
  "write_successors (put_upload r j) = write_successors j" "j_account (put_upload r j) = j_account j"
  by (simp_all add: put_upload_def)

lemma put_mutation_sel [simp]:
  "mutations (put_mutation r j) = fmupd (m_id r) r (mutations j)" "uploads (put_mutation r j) = uploads j"
  "write_queue (put_mutation r j) = mark_complete (m_id r) (m_state r = AppliedM) (write_queue j)"
  "last_sequence (put_mutation r j) = last_sequence j" "write_resources (put_mutation r j) = write_resources j"
  "write_prerequisites (put_mutation r j) = write_prerequisites j" "objects (put_mutation r j) = objects j"
  "write_successors (put_mutation r j) = write_successors j" "j_account (put_mutation r j) = j_account j"
  by (simp_all add: put_mutation_def)

lemma admit_sel [simp]:
  "uploads (admit i ks ps b j) = uploads j" "mutations (admit i ks ps b j) = mutations j"
  "write_queue (admit i ks ps b j) = fmupd i \<lparr>q_sequence = last_sequence j + 1, q_complete = False\<rparr> (write_queue j)"
  "last_sequence (admit i ks ps b j) = last_sequence j + 1"
  "write_resources (admit i ks ps b j) = write_resources j |\<union>| fset_of_list (map (Pair i) ks)"
  "write_prerequisites (admit i ks ps b j) = write_prerequisites j |\<union>| fset_of_list (map (Pair i) ps)"
  "objects (admit i ks ps b j) = objects j"
  by (simp_all add: admit_def)

lemma add_resources_sel [simp]:
  "uploads (add_resources i ks j) = uploads j" "mutations (add_resources i ks j) = mutations j"
  "write_queue (add_resources i ks j) = write_queue j" "last_sequence (add_resources i ks j) = last_sequence j"
  "write_resources (add_resources i ks j) = write_resources j |\<union>| fset_of_list (map (Pair i) ks)"
  "write_prerequisites (add_resources i ks j) = write_prerequisites j" "objects (add_resources i ks j) = objects j"
  "write_successors (add_resources i ks j) = write_successors j"
  by (simp_all add: add_resources_def)

lemma restart_sel [simp]:
  "uploads (restart j) = fmmap restart_upload (uploads j)" "mutations (restart j) = fmmap restart_mutation (mutations j)"
  "write_queue (restart j) = write_queue j" "last_sequence (restart j) = last_sequence j"
  "write_resources (restart j) = write_resources j" "write_prerequisites (restart j) = write_prerequisites j"
  "objects (restart j) = objects j" "write_successors (restart j) = write_successors j"
  by (simp_all add: restart_def)

lemma earlier_put [simp]:
  "earlier (put_upload r j) p sq = earlier j p sq" "earlier (put_mutation m j) p sq = earlier j p sq"
  by (auto simp: earlier_def mark_complete_lookup)

lemma earlier_add [simp]: "earlier (add_resources i ks j\<lparr>uploads := u\<rparr>) p sq = earlier j p sq"
  "earlier (add_resources i ks j\<lparr>mutations := m\<rparr>) p sq = earlier j p sq"
  "earlier (j\<lparr>objects := x\<rparr>) p sq = earlier j p sq" "earlier (restart j) p sq = earlier j p sq"
  by (simp_all add: earlier_def)

lemma earlier_admit:
  "fmlookup (write_queue j) i = None \<Longrightarrow> earlier j p sq \<Longrightarrow> earlier (admit i ks ps b j\<lparr>uploads := u\<rparr>) p sq"
  "fmlookup (write_queue j) i = None \<Longrightarrow> earlier j p sq \<Longrightarrow> earlier (admit i ks ps b j\<lparr>mutations := m\<rparr>) p sq"
  by (auto simp: earlier_def)

lemma restart_upload_sel [simp]:
  "u_id (restart_upload r) = u_id r" "u_sequence (restart_upload r) = u_sequence r" "u_base (restart_upload r) = u_base r"
  "u_state (restart_upload r) = UploadedU \<longleftrightarrow> u_state r = UploadedU" "u_intent (restart_upload r) = u_intent r"
  "u_scope (restart_upload r) = u_scope r" "u_size (restart_upload r) = u_size r" "u_sha256 (restart_upload r) = u_sha256 r"
  "u_remote (restart_upload r) = u_remote r" "upload_done (restart_upload r) = upload_done r"
  by (auto simp: restart_upload_def upload_done_def)

lemma restart_mutation_sel [simp]:
  "m_id (restart_mutation r) = m_id r" "m_sequence (restart_mutation r) = m_sequence r" "m_base (restart_mutation r) = m_base r"
  "m_state (restart_mutation r) = AppliedM \<longleftrightarrow> m_state r = AppliedM" "m_request (restart_mutation r) = m_request r"
  "m_receipt (restart_mutation r) = m_receipt r"
  by (auto simp: restart_mutation_def)

section \<open>Steps keep journals well formed\<close>

lemma upload_rowD:
  assumes "tables_ok j" "fmlookup (uploads j) i = Some r"
  shows "u_id r = i" "fmlookup (write_queue j) i = Some \<lparr>q_sequence = u_sequence r, q_complete = upload_done r\<rparr>"
    "fmlookup (mutations j) i = None"
  using assms unfolding tables_ok_def by (blast, blast, metis option.distinct(1))

lemma mutation_rowD:
  assumes "tables_ok j" "fmlookup (mutations j) i = Some r"
  shows "m_id r = i" "fmlookup (write_queue j) i = Some \<lparr>q_sequence = m_sequence r, q_complete = (m_state r = AppliedM)\<rparr>"
    "fmlookup (uploads j) i = None"
  using assms unfolding tables_ok_def by (blast, blast, metis option.distinct(1))

lemma no_rowD:
  assumes "tables_ok j" "fmlookup (write_queue j) i = None"
  shows "fmlookup (uploads j) i = None" "fmlookup (mutations j) i = None"
  using assms upload_rowD(2) mutation_rowD(2) by (metis option.exhaust option.distinct(1))+

lemma queue_rowE:
  assumes "tables_ok j" "fmlookup (write_queue j) i = Some q"
  obtains (upload) r where "fmlookup (uploads j) i = Some r" | (mutation) r where "fmlookup (mutations j) i = Some r"
  using assms unfolding tables_ok_def by (metis option.exhaust)

lemma tables_okI:
  assumes "\<And>i r. fmlookup (uploads j) i = Some r \<Longrightarrow> u_id r = i \<and> fmlookup (mutations j) i = None
      \<and> fmlookup (write_queue j) i = Some \<lparr>q_sequence = u_sequence r, q_complete = upload_done r\<rparr>"
    and "\<And>i r. fmlookup (mutations j) i = Some r \<Longrightarrow> m_id r = i \<and> fmlookup (uploads j) i = None
      \<and> fmlookup (write_queue j) i = Some \<lparr>q_sequence = m_sequence r, q_complete = (m_state r = AppliedM)\<rparr>"
    and "\<And>i. fmlookup (uploads j) i = None \<Longrightarrow> fmlookup (mutations j) i = None \<Longrightarrow> fmlookup (write_queue j) i = None"
  shows "tables_ok j"
  unfolding tables_ok_def
proof (intro conjI allI impI)
  show "fmlookup (uploads j) i = None \<or> fmlookup (mutations j) i = None" for i
    using assms(1) by (cases "fmlookup (uploads j) i") auto
  show "fmlookup (mutations j) i \<noteq> None" if "fmlookup (write_queue j) i = Some q" "fmlookup (uploads j) i = None" for i q
    using assms(3) [OF that(2)] that(1) by auto
qed (use assms in auto)

lemma tables_rows:
  assumes "tables_ok j"
  shows "fmlookup (uploads j) i = None \<Longrightarrow> fmlookup (mutations j) i = None \<Longrightarrow> fmlookup (write_queue j) i = None"
  using assms unfolding tables_ok_def by (metis option.exhaust)

lemma tables_step:
  assumes "jstep h T j j'" "tables_ok j"
  shows "tables_ok j'"
proof -
  note rows = upload_rowD [OF assms(2)] mutation_rowD [OF assms(2)] no_rowD [OF assms(2)] tables_rows [OF assms(2)]
  show ?thesis
    using assms(1)
  proof (cases rule: jstep.cases)
    case (Upload_saved i r r')
    then show ?thesis
      using upload_move_same [OF Upload_saved(3)] rows(1-3) [OF Upload_saved(2)]
      by (intro tables_okI) (auto simp: same_save_def mark_complete_lookup split: if_splits dest: rows(1-6) intro: rows(9))
  next
    case (Mutation_saved i r r')
    then show ?thesis
      using mutation_move_same [OF Mutation_saved(3)] rows(4-6) [OF Mutation_saved(2)]
      by (intro tables_okI) (auto simp: same_change_def mark_complete_lookup split: if_splits dest: rows(1-6) intro: rows(9))
  next
    case (Upload_rebound i r b n intent r')
    then show ?thesis
      using rows(1-3) [OF Upload_rebound(2)] by (intro tables_okI) (auto split: if_splits dest: rows(1-6) intro: rows(9))
  next
    case (Mutation_rebound i r b n q keys r')
    then show ?thesis
      using rows(4-6) [OF Mutation_rebound(2)] by (intro tables_okI) (auto split: if_splits dest: rows(1-6) intro: rows(9))
  next
    case (Upload_admitted r ps bytes)
    then have "fmlookup (write_queue j) (u_id r) = None"
      by (simp add: admissible_def)
    then show ?thesis
      using Upload_admitted rows(7,8) upload_done_pending by (intro tables_okI) (auto split: if_splits dest: rows(1-6) intro: rows(9))
  next
    case (Mutation_admitted r ps keys)
    then have "fmlookup (write_queue j) (m_id r) = None"
      by (simp add: admissible_def)
    then show ?thesis
      using Mutation_admitted rows(7,8) by (intro tables_okI) (auto split: if_splits dest: rows(1-6) intro: rows(9))
  next
    case Recovered
    then show ?thesis
      by (intro tables_okI) (fastforce dest: rows(1-6) intro: rows(9))+
  qed (auto intro!: tables_okI rows(9) dest: rows(1-6))
qed

lemma sequences_cong:
  assumes "\<And>k. map_option q_sequence (fmlookup (write_queue j') k) = map_option q_sequence (fmlookup (write_queue j) k)"
    "last_sequence j' = last_sequence j" "sequences_ok j"
  shows "sequences_ok j'"
proof -
  have "\<exists>q'. fmlookup (write_queue j) k = Some q' \<and> q_sequence q' = q_sequence q"
    if "fmlookup (write_queue j') k = Some q" for k q
    using assms(1) [of k] that by (cases "fmlookup (write_queue j) k") auto
  then show ?thesis
    using assms(2,3) unfolding sequences_ok_def by metis
qed

lemma sequences_admit:
  assumes "sequences_ok j"
  shows "sequences_ok (admit i ks ps b j)"
proof -
  have "q_sequence q < last_sequence j + 1" "0 < q_sequence q" if "fmlookup (write_queue j) k = Some q" for k q
    using assms that by (auto simp: sequences_ok_def zless_add1_eq)
  then show ?thesis
    using assms unfolding sequences_ok_def by (auto split: if_splits) fastforce+
qed

lemma sequences_step:
  assumes "jstep h T j j'" "sequences_ok j"
  shows "sequences_ok j'"
  using assms(1)
proof (cases rule: jstep.cases)
  case (Upload_admitted r ps bytes)
  then show ?thesis
    by (intro sequences_cong [OF _ _ sequences_admit [OF assms(2)]]) simp_all
next
  case (Mutation_admitted r ps keys)
  then show ?thesis
    by (intro sequences_cong [OF _ _ sequences_admit [OF assms(2)]]) simp_all
qed (auto intro!: sequences_cong [OF _ _ assms(2)] simp: mark_complete_sequence)

lemma edgesD:
  assumes "edges_ok j"
  shows "(i, p) |\<in>| write_prerequisites j \<Longrightarrow> \<exists>q. fmlookup (write_queue j) i = Some q \<and> earlier j p (q_sequence q)"
    "fmlookup (uploads j) i = Some r \<Longrightarrow> u_base r = Some b \<Longrightarrow> earlier j (predecessor b) (u_sequence r)"
    "fmlookup (mutations j) i = Some m \<Longrightarrow> m_base m = Some b \<Longrightarrow> earlier j (predecessor b) (m_sequence m)"
  using assms unfolding edges_ok_def by blast+

lemma edges_okI:
  assumes "\<And>i p. (i, p) |\<in>| write_prerequisites j \<Longrightarrow> \<exists>q. fmlookup (write_queue j) i = Some q \<and> earlier j p (q_sequence q)"
    "\<And>i r b. fmlookup (uploads j) i = Some r \<Longrightarrow> u_base r = Some b \<Longrightarrow> earlier j (predecessor b) (u_sequence r)"
    "\<And>i m b. fmlookup (mutations j) i = Some m \<Longrightarrow> m_base m = Some b \<Longrightarrow> earlier j (predecessor b) (m_sequence m)"
  shows "edges_ok j"
  using assms unfolding edges_ok_def by blast

lemma edges_step:
  assumes "jstep h T j j'" "tables_ok j" "edges_ok j"
  shows "edges_ok j'"
proof -
  note edges = edgesD [OF assms(3)]
  show ?thesis
    using assms(1)
  proof (cases rule: jstep.cases)
    case (Upload_saved i r r')
    then show ?thesis
      using upload_move_same [OF Upload_saved(3)] edges(2) [OF Upload_saved(2)]
      by (intro edges_okI) (auto simp: same_save_def mark_complete_lookup edges(2,3) split: if_splits dest: edges(1))
  next
    case (Mutation_saved i r r')
    then show ?thesis
      using mutation_move_same [OF Mutation_saved(3)] edges(3) [OF Mutation_saved(2)]
      by (intro edges_okI) (auto simp: same_change_def mark_complete_lookup edges(2,3) split: if_splits dest: edges(1))
  next
    case (Upload_rebound i r b n intent r')
    then show ?thesis
      using edges(2) [OF Upload_rebound(2)] by (intro edges_okI) (auto simp: edges split: if_splits)
  next
    case (Mutation_rebound i r b n q keys r')
    then show ?thesis
      using edges(3) [OF Mutation_rebound(2)] by (intro edges_okI) (auto simp: edges split: if_splits)
  next
    case (Upload_admitted r ps bytes)
    then show ?thesis
      by (intro edges_okI)
        (auto simp: admissible_def fset_of_list_elem split: if_splits dest!: edges(1) intro: earlier_admit edges(2,3))
  next
    case (Mutation_admitted r ps keys)
    then show ?thesis
      by (intro edges_okI)
        (auto simp: admissible_def fset_of_list_elem split: if_splits dest!: edges(1) intro: earlier_admit edges(2,3))
  qed (auto intro!: edges_okI simp: edges)
qed

lemma upload_move_ok:
  assumes "upload_move T r r'" "upload_ok r"
  shows "upload_ok r'"
  using assms by (induction rule: upload_move.induct)
    (auto simp: upload_ok_def upload_in_flight_def receipt_matches_def base_settled_def)

lemma mutation_move_ok:
  assumes "mutation_move T r r'" "mutation_ok r"
  shows "mutation_ok r'"
  using assms by (induction rule: mutation_move.induct)
    (auto simp: mutation_ok_def mutation_in_flight_def base_settled_def)

lemma upload_move_payload:
  "upload_move T r r' \<Longrightarrow> payload_ok h j r \<Longrightarrow> payload_ok h j r'"
  using upload_move_same [of T r r'] upload_move_final [of T r r'] by (auto simp: payload_ok_def same_save_def)

lemma restart_ok: "upload_ok r \<Longrightarrow> upload_ok (restart_upload r)" "mutation_ok m \<Longrightarrow> mutation_ok (restart_mutation m)"
  by (auto simp: upload_ok_def restart_upload_def upload_in_flight_def mutation_ok_def restart_mutation_def
      mutation_in_flight_def receipt_matches_def)

lemma with_source_before:
  "with_source (\<lambda>_. n) q = Some q' \<Longrightarrow> intent_before (mr_intent q') = Some n"
  by (auto simp: with_source_def split: mutation_intent.splits)

lemma with_source_chainable:
  "with_source f q = Some q' \<Longrightarrow> chainable q'" "with_source f q = None \<longleftrightarrow> \<not> chainable q"
  "with_source f q = Some q' \<Longrightarrow> chainable q"
  by (auto simp: with_source_def chainable_def split: mutation_intent.splits)

lemma recordsD:
  assumes "records_ok h j"
  shows "fmlookup (uploads j) i = Some r \<Longrightarrow> upload_ok r" "fmlookup (uploads j) i = Some r \<Longrightarrow> payload_ok h j r"
    "fmlookup (mutations j) i = Some m \<Longrightarrow> mutation_ok m"
  using assms unfolding records_ok_def by blast+

lemma records_okI:
  assumes "\<And>i r. fmlookup (uploads j) i = Some r \<Longrightarrow> upload_ok r \<and> payload_ok h j r"
    "\<And>i m. fmlookup (mutations j) i = Some m \<Longrightarrow> mutation_ok m"
  shows "records_ok h j"
  using assms unfolding records_ok_def by blast

lemma payload_ok_cong: "objects j' = objects j \<Longrightarrow> payload_ok h j r \<Longrightarrow> payload_ok h j' r"
  by (simp add: payload_ok_def)

lemma payload_ok_publish:
  "fmlookup (objects j) i = None \<Longrightarrow> payload_ok h j r \<Longrightarrow> payload_ok h (j\<lparr>objects := fmupd i bytes (objects j)\<rparr>) r"
  by (auto simp: payload_ok_def)

lemma payload_ok_prune:
  "u_id r \<noteq> i \<or> u_state r = UploadedU \<Longrightarrow> payload_ok h j r \<Longrightarrow> payload_ok h (j\<lparr>objects := fmdrop i (objects j)\<rparr>) r"
  by (auto simp: payload_ok_def)

lemma payload_ok_restart: "payload_ok h j r \<Longrightarrow> payload_ok h (restart j) (restart_upload r)"
  by (simp add: payload_ok_def)

lemma records_step:
  assumes "jstep h T j j'" "tables_ok j" "records_ok h j"
  shows "records_ok h j'"
proof -
  note records = recordsD [OF assms(3)]
  show ?thesis
    using assms(1)
  proof (cases rule: jstep.cases)
    case (Upload_saved i r r')
    have "upload_ok r'" "payload_ok h j r'"
      using upload_move_ok [OF Upload_saved(3) records(1) [OF Upload_saved(2)]]
        upload_move_payload [OF Upload_saved(3) records(2) [OF Upload_saved(2)]] by simp_all
    then show ?thesis
      using Upload_saved by (intro records_okI) (auto split: if_splits intro: payload_ok_cong [of _ j] dest: records)
  next
    case (Mutation_saved i r r')
    have "mutation_ok r'"
      using mutation_move_ok [OF Mutation_saved(3) records(3) [OF Mutation_saved(2)]] .
    then show ?thesis
      using Mutation_saved by (intro records_okI) (auto split: if_splits intro: payload_ok_cong [of _ j] dest: records)
  next
    case (Upload_rebound i r b n intent r')
    have "upload_ok r'" "payload_ok h j r'"
      using records(1,2) [OF Upload_rebound(2)] Upload_rebound(3,4,9)
      by (auto simp: upload_ok_def payload_ok_def upload_in_flight_def)
    then show ?thesis
      using Upload_rebound by (intro records_okI) (auto split: if_splits intro: payload_ok_cong [of _ j] dest: records)
  next
    case (Mutation_rebound i r b n q keys r')
    have "mutation_ok r'"
      using records(3) [OF Mutation_rebound(2)] Mutation_rebound
      by (auto simp: mutation_ok_def mutation_in_flight_def dest: with_source_chainable(1))
    then show ?thesis
      using Mutation_rebound by (intro records_okI) (auto split: if_splits intro: payload_ok_cong [of _ j] dest: records)
  next
    case (Published i bytes)
    then show ?thesis
      by (intro records_okI) (auto intro!: payload_ok_publish dest: records)
  next
    case (Upload_admitted r ps bytes)
    then have "upload_ok r" "payload_ok h j r"
      by (auto simp: upload_ok_def payload_ok_def upload_in_flight_def)
    then show ?thesis
      using Upload_admitted by (intro records_okI) (auto split: if_splits intro: payload_ok_cong [of _ j] dest: records)
  next
    case (Mutation_admitted r ps keys)
    then have "mutation_ok r"
      by (auto simp: mutation_ok_def mutation_in_flight_def)
    then show ?thesis
      using Mutation_admitted by (intro records_okI) (auto split: if_splits intro: payload_ok_cong [of _ j] dest: records)
  next
    case (Pruned i r)
    then show ?thesis
      using upload_rowD(1) [OF assms(2)]
      by (intro records_okI) (auto intro!: payload_ok_prune dest: records)
  next
    case Recovered
    then show ?thesis
      by (intro records_okI) (auto intro!: restart_ok payload_ok_restart dest: records)
  qed
qed

section \<open>Confirmed nodes and bindings are stable\<close>

lemma confirmed_put_upload:
  assumes "tables_ok j" "fmlookup (uploads j) i = Some r" "upload_move T r r'" "confirmed j p = Some n"
  shows "confirmed (put_upload r' j) p = Some n"
proof -
  have "u_id r' = i" "u_state r \<noteq> UploadedU"
    using upload_move_same [OF assms(3)] upload_move_final [OF assms(3)] upload_rowD(1) [OF assms(1,2)]
    by (auto simp: same_save_def)
  then show ?thesis
    using assms(2,4) by (auto simp: confirmed_def split: option.splits)
qed

lemma confirmed_put_mutation:
  assumes "tables_ok j" "fmlookup (mutations j) i = Some r" "mutation_move T r r'" "confirmed j p = Some n"
  shows "confirmed (put_mutation r' j) p = Some n"
proof -
  have "m_id r' = i" "m_state r \<noteq> AppliedM"
    using mutation_move_same [OF assms(3)] mutation_move_final [OF assms(3)] mutation_rowD(1) [OF assms(1,2)]
    by (auto simp: same_change_def)
  then show ?thesis
    using assms(2,4) by (auto simp: confirmed_def split: option.splits)
qed

lemma confirmed_node_restart:
  "confirmed_node (UploadOp (restart_upload r)) = confirmed_node (UploadOp r)"
  "confirmed_node (MutationOp (restart_mutation m)) = confirmed_node (MutationOp m)"
  by (simp_all del: confirmed_node.simps add: confirmed_node.simps cong: option.case_cong mutation_receipt.case_cong)

lemma confirmed_restart: "confirmed (restart j) p = confirmed j p"
  by (cases "fmlookup (mutations j) p"; cases "fmlookup (uploads j) p")
    (simp_all del: confirmed_node.simps add: confirmed_def confirmed_node_restart)

lemma confirmed_step:
  assumes "jstep h T j j'" "tables_ok j" "confirmed j p = Some n"
  shows "confirmed j' p = Some n"
  using assms(1)
proof (cases rule: jstep.cases)
  case (Upload_saved i r r')
  then show ?thesis
    using confirmed_put_upload [OF assms(2) _ _ assms(3)] by auto
next
  case (Mutation_saved i r r')
  then show ?thesis
    using confirmed_put_mutation [OF assms(2) _ _ assms(3)] by auto
next
  case (Upload_admitted r ps bytes)
  then show ?thesis
    using assms(3) no_rowD [OF assms(2), of "u_id r"] by (auto simp: confirmed_def admissible_def split: option.splits)
next
  case (Mutation_admitted r ps keys)
  then show ?thesis
    using assms(3) no_rowD [OF assms(2), of "m_id r"] by (auto simp: confirmed_def admissible_def split: option.splits)
next
  case Recovered
  then show ?thesis
    using assms(3) by (simp add: confirmed_restart)
qed (use assms(3) in \<open>auto simp: confirmed_def split: option.splits if_splits\<close>)

lemma resources_step: "jstep h T j j' \<Longrightarrow> write_resources j |\<subseteq>| write_resources j'"
  by (induction rule: jstep.induct) auto

lemma bound_upload_step:
  assumes "jstep h T j j'" "tables_ok j" "bound_upload h j r"
    "u_id r' = u_id r" "u_scope r' = u_scope r" "u_intent r' = u_intent r" "u_base r' = u_base r"
  shows "bound_upload h j' r'"
  using assms(3-) confirmed_step [OF assms(1,2)] resources_step [OF assms(1)]
  unfolding bound_upload_def by (metis fsubsetD)

lemma bound_mutation_step:
  assumes "jstep h T j j'" "tables_ok j" "bound_mutation h j r"
    "m_id r' = m_id r" "m_request r' = m_request r \<or> \<not> base_settled (m_base r)" "m_base r' = m_base r"
  shows "bound_mutation h j' r'"
proof (cases "base_settled (m_base r)")
  case True
  then show ?thesis
    using assms(3-) confirmed_step [OF assms(1,2)] resources_step [OF assms(1)]
    unfolding bound_mutation_def by (metis fsubsetD)
next
  case False
  then show ?thesis
    using assms(3-) by (auto simp: bound_mutation_def base_settled_def)
qed

lemma mutation_move_request: "mutation_move T r r' \<Longrightarrow> m_request r' = m_request r \<or> \<not> base_settled (m_base r)"
  by (induction rule: mutation_move.induct) auto

lemma bindingsD:
  assumes "bindings_ok h j"
  shows "fmlookup (uploads j) i = Some r \<Longrightarrow> bound_upload h j r" "fmlookup (mutations j) i = Some m \<Longrightarrow> bound_mutation h j m"
  using assms unfolding bindings_ok_def by blast+

lemma bindings_okI:
  assumes "\<And>i r. fmlookup (uploads j) i = Some r \<Longrightarrow> bound_upload h j r"
    "\<And>i m. fmlookup (mutations j) i = Some m \<Longrightarrow> bound_mutation h j m"
  shows "bindings_ok h j"
  using assms unfolding bindings_ok_def by blast

lemma rebind_Some:
  "rebind (Some n) = Some intent \<longleftrightarrow> node_kind n = File \<and> (\<exists>tag. etag n = Some tag \<and> intent = Replace (node_id n) tag)"
  by (auto simp: rebind_def)

lemma bindings_step:
  assumes "jstep h T j j'" "tables_ok j" "bindings_ok h j"
  shows "bindings_ok h j'"
proof -
  note keep = bound_upload_step [OF assms(1,2) bindingsD(1) [OF assms(3)]]
    bound_mutation_step [OF assms(1,2) bindingsD(2) [OF assms(3)]]
  note bind = confirmed_step [OF assms(1,2)]
  show ?thesis
    using assms(1)
  proof (cases rule: jstep.cases)
    case (Upload_saved i r r')
    then show ?thesis
      using upload_move_same [OF Upload_saved(3)]
      by (intro bindings_okI) (auto split: if_splits intro: keep [unfolded Upload_saved(1)] simp: same_save_def)
  next
    case (Mutation_saved i r r')
    then show ?thesis
      using mutation_move_same [OF Mutation_saved(3)] mutation_move_request [OF Mutation_saved(3)]
      by (intro bindings_okI) (auto split: if_splits intro: keep [unfolded Mutation_saved(1)] simp: same_change_def)
  next
    case (Upload_rebound i r b n intent r')
    have "bound_upload h j' r'"
      using Upload_rebound bind [OF Upload_rebound(7)] upload_rowD(1) [OF assms(2) Upload_rebound(2)]
      by (auto simp: bound_upload_def fset_of_list_elem rebind_Some)
    moreover have "uploads j' = fmupd i r' (uploads j)" "mutations j' = mutations j"
      using Upload_rebound(1) by simp_all
    ultimately show ?thesis
      by (intro bindings_okI) (auto split: if_splits intro: keep)
  next
    case (Mutation_rebound i r b n q keys r')
    have "bound_mutation h j' r'"
      using Mutation_rebound bind [OF Mutation_rebound(7)] mutation_rowD(1) [OF assms(2) Mutation_rebound(2)]
      by (auto simp: bound_mutation_def fset_of_list_elem with_source_before)
    moreover have "uploads j' = uploads j" "mutations j' = fmupd i r' (mutations j)"
      using Mutation_rebound(1) by simp_all
    ultimately show ?thesis
      by (intro bindings_okI) (auto split: if_splits intro: keep)
  next
    case (Upload_admitted r ps bytes)
    then have "bound_upload h j' r"
      by (auto simp: bound_upload_def admissible_def fset_of_list_elem)
    then show ?thesis
      using Upload_admitted by (intro bindings_okI) (auto split: if_splits intro: keep [unfolded Upload_admitted(1)])
  next
    case (Mutation_admitted r ps keys)
    then have "bound_mutation h j' r"
      by (auto simp: bound_mutation_def admissible_def fset_of_list_elem)
    then show ?thesis
      using Mutation_admitted by (intro bindings_okI) (auto split: if_splits intro: keep [unfolded Mutation_admitted(1)])
  next
    case (Published i bytes)
    then show ?thesis
      by (intro bindings_okI) (auto intro: keep [unfolded Published(1)])
  next
    case (Pruned i r)
    then show ?thesis
      by (intro bindings_okI) (auto intro: keep [unfolded Pruned(1)])
  next
    case Recovered
    then show ?thesis
      by (intro bindings_okI) (auto intro: keep [unfolded Recovered(1)])
  qed
qed

lemma journal_ok_step: "jstep h T j j' \<Longrightarrow> journal_ok h j \<Longrightarrow> journal_ok h j'"
  by (auto simp: journal_ok_def intro: tables_step sequences_step edges_step records_step bindings_step)

lemma journal_ok_new: "journal_ok h (new_journal a q)"
  by (simp add: journal_ok_def tables_ok_def sequences_ok_def edges_ok_def records_ok_def bindings_ok_def new_journal_def)

end
