(* ===== verification/Journal_Refinement.thy ===== *)
theory Journal_Refinement
  imports Journal_Invariants
begin

text \<open>
  Every operation of the journal is a sequence of the steps of \<open>Journal_Spec\<close>, whatever
  it returns: an operation that fails leaves the journal where some prefix of its
  steps took it.
\<close>

abbreviation jsteps :: "host \<Rightarrow> permit set \<Rightarrow> journal \<Rightarrow> journal \<Rightarrow> bool" where
  "jsteps h T \<equiv> (jstep h T)\<^sup>*\<^sup>*"

lemma jsteps_ok: "jsteps h T j j' \<Longrightarrow> journal_ok h j \<Longrightarrow> journal_ok h j'"
  by (induction rule: rtranclp_induct) (auto intro: journal_ok_step)

lemma jsteps_jbind:
  assumes "jsteps h T j (snd r)"
    "\<And>x j1. r = (Inr x, j1) \<Longrightarrow> jsteps h T j j1 \<Longrightarrow> jsteps h T j1 (snd (f x j1))"
  shows "jsteps h T j (snd (jbind r f))"
proof (cases r)
  case (Pair v j1)
  then show ?thesis
    using assms by (cases v) (auto intro: rtranclp_trans)
qed

lemma get_eq [simp]:
  "upload_get i j = (Inr r, j') \<longleftrightarrow> j' = j \<and> fmlookup (uploads j) i = Some r"
  "mutation_get i j = (Inr m, j') \<longleftrightarrow> j' = j \<and> fmlookup (mutations j) i = Some m"
  "snd (upload_get i j) = j" "snd (mutation_get i j) = j" "snd (operation_get i j) = j"
  by (auto simp: upload_get_def mutation_get_def operation_get_def jbind_def split: option.splits sum.splits prod.splits)

lemma attempt_eq:
  "active_attempt i t j = (Inr r, j') \<longleftrightarrow>
     j' = j \<and> fmlookup (uploads j) i = Some r \<and> upload_in_flight r \<and> u_attempt r = Some t"
  "mutation_attempt i t j = (Inr m, j') \<longleftrightarrow>
     j' = j \<and> fmlookup (mutations j) i = Some m \<and> mutation_in_flight m \<and> m_attempt m = Some t"
  "snd (active_attempt i t j) = j" "snd (mutation_attempt i t j) = j"
  by (auto simp: active_attempt_def mutation_attempt_def upload_in_flight_def mutation_in_flight_def jbind_Inr split: if_splits)
    (auto simp: upload_get_def mutation_get_def fail_def give_def split: option.splits)

lemma upload_save_eq:
  assumes "tables_ok j" "fmlookup (uploads j) (u_id r') = Some r" "u_state r' \<noteq> ResolvedU"
  shows "upload_save r' j = (Inr (), put_upload r' j)"
  using upload_rowD [OF assms(1,2)] assms(2,3)
  by (simp add: upload_save_def upload_done_def transaction_def queue_complete_def put_upload_def mark_complete_def)

lemma save_mutation_eq:
  assumes "tables_ok j" "fmlookup (mutations j) (m_id r') = Some r"
  shows "save_mutation r' j = (Inr (), put_mutation r' j)"
  using mutation_rowD [OF assms] assms(2)
  by (simp add: save_mutation_def transaction_def queue_complete_def put_mutation_def mark_complete_def)

lemma upload_save_steps:
  assumes "journal_ok h j" "fmlookup (uploads j) i = Some r" "upload_move T r r'" "u_state r' \<noteq> ResolvedU"
  shows "upload_save r' j = (Inr (), put_upload r' j)" "jstep h T j (put_upload r' j)"
proof -
  have "tables_ok j"
    using assms(1) by (simp add: journal_ok_def)
  moreover have "u_id r' = i"
    using upload_move_same [OF assms(3)] upload_rowD(1) [OF calculation assms(2)] by (simp add: same_save_def)
  ultimately show "upload_save r' j = (Inr (), put_upload r' j)" "jstep h T j (put_upload r' j)"
    using assms by (auto intro: upload_save_eq jstep.Upload_saved)
qed

lemma save_mutation_steps:
  assumes "journal_ok h j" "fmlookup (mutations j) i = Some r" "mutation_move T r r'"
  shows "save_mutation r' j = (Inr (), put_mutation r' j)" "jstep h T j (put_mutation r' j)"
proof -
  have "tables_ok j"
    using assms(1) by (simp add: journal_ok_def)
  moreover have "m_id r' = i"
    using mutation_move_same [OF assms(3)] mutation_rowD(1) [OF calculation assms(2)] by (simp add: same_change_def)
  ultimately show "save_mutation r' j = (Inr (), put_mutation r' j)" "jstep h T j (put_mutation r' j)"
    using assms by (auto intro: save_mutation_eq jstep.Mutation_saved)
qed

lemma upload_save_jsteps:
  "journal_ok h j \<Longrightarrow> fmlookup (uploads j) i = Some r \<Longrightarrow> upload_move T r r' \<Longrightarrow> u_state r' \<noteq> ResolvedU
    \<Longrightarrow> jsteps h T j (snd (upload_save r' j))"
  using upload_save_steps by fastforce

lemma save_mutation_jsteps:
  "journal_ok h j \<Longrightarrow> fmlookup (mutations j) i = Some r \<Longrightarrow> mutation_move T r r' \<Longrightarrow> jsteps h T j (snd (save_mutation r' j))"
  using save_mutation_steps by fastforce

section \<open>Attempts\<close>

lemma record_session_steps:
  "journal_ok h j \<Longrightarrow> jsteps h T j (snd (record_session i t k n j))"
  unfolding record_session_def
  by (rule jsteps_jbind) (auto simp: attempt_eq intro!: upload_save_jsteps upload_move.Progressed)

lemma defer_attempt_steps:
  "journal_ok h j \<Longrightarrow> jsteps h T j (snd (defer_attempt now i t st d j))"
  unfolding defer_attempt_def
  by (auto intro!: jsteps_jbind upload_save_jsteps upload_move.Deferred simp: attempt_eq)

lemma payload_snd [simp]: "snd (payload h i j) = j" and payload_Inr_snd: "payload h i j = (v, j') \<Longrightarrow> j' = j"
proof -
  show *: "snd (payload h i j) = j"
    by (cases "fmlookup (uploads j) i")
      (auto simp: payload_def upload_get_def jbind_def fail_def give_def split: option.splits)
  show "payload h i j = (v, j') \<Longrightarrow> j' = j"
    using * by simp
qed

lemma record_ids:
  "journal_ok h j \<Longrightarrow> fmlookup (uploads j) i = Some r \<Longrightarrow> u_id r = i"
  "journal_ok h j \<Longrightarrow> fmlookup (mutations j) i = Some m \<Longrightarrow> m_id m = i"
  using upload_rowD(1) mutation_rowD(1) by (auto simp: journal_ok_def)

lemma retry_verified_uncommitted_steps:
  "journal_ok h j \<Longrightarrow> Replay i \<in> T \<Longrightarrow> jsteps h T j (snd (retry_verified_uncommitted h i j))"
  unfolding retry_verified_uncommitted_def
  by (rule jsteps_jbind)
    (auto intro!: jsteps_jbind upload_save_jsteps upload_move.Retried dest: payload_Inr_snd simp: record_ids)

lemma request_retry_steps:
  "journal_ok h j \<Longrightarrow> jsteps h T j (snd (request_retry i j))"
  unfolding request_retry_def
  by (rule jsteps_jbind) (auto intro!: upload_save_jsteps upload_move.Rechecked)

lemma claim_verification_steps:
  "journal_ok h j \<Longrightarrow> Token t \<in> T \<Longrightarrow> jsteps h T j (snd (claim_verification i t j))"
  unfolding claim_verification_def Let_def
  by (rule jsteps_jbind) (auto intro!: jsteps_jbind upload_save_jsteps upload_move.Inspected)

lemma acknowledge_steps:
  "journal_ok h j \<Longrightarrow> jsteps h T j (snd (acknowledge i t n j))"
  unfolding acknowledge_def
  by (rule jsteps_jbind) (auto simp: attempt_eq intro!: upload_save_jsteps upload_move.Confirmed)

lemma prune_steps: "journal_ok h j \<Longrightarrow> jsteps h T j (snd (prune_uploaded_payload i j))"
  unfolding prune_uploaded_payload_def
  by (rule jsteps_jbind) (auto intro: jstep.Pruned)

lemma record_prepared_steps:
  "journal_ok h j \<Longrightarrow> jsteps h T j (snd (record_prepared_mutation i t item j))"
  unfolding record_prepared_mutation_def
  by (auto intro!: jsteps_jbind save_mutation_jsteps mutation_move.MPrepared simp: attempt_eq)

lemma reconciled_states: "reconciled_state r receipt \<in> {AppliedM, ConflictM, NeedsReviewM}"
  by (auto simp: reconciled_state_def split: mutation_intent.splits mutation_receipt.splits option.splits)

lemma acknowledge_mutation_steps:
  "journal_ok h j \<Longrightarrow> jsteps h T j (snd (acknowledge_mutation_evidence i t receipt proof j))"
  unfolding acknowledge_mutation_evidence_def Let_def
  by (auto intro!: jsteps_jbind mutation_move.MAnswered reconciled_states elim!: save_mutation_jsteps [rotated] simp: attempt_eq
      simp del: insert_iff)

lemma defer_mutation_steps:
  "journal_ok h j \<Longrightarrow> jsteps h T j (snd (defer_mutation now i t st d j))"
  unfolding defer_mutation_def
  by (auto intro!: jsteps_jbind save_mutation_jsteps mutation_move.MDeferred simp: attempt_eq)

lemma defer_preparation_steps:
  "journal_ok h j \<Longrightarrow> Replay i \<in> T \<Longrightarrow> jsteps h T j (snd (defer_mutation_preparation now i t d j))"
  unfolding defer_mutation_preparation_def
  by (rule jsteps_jbind) (auto intro!: save_mutation_jsteps mutation_move.MDeferred simp: attempt_eq record_ids)

lemma retry_uncommitted_steps:
  "journal_ok h j \<Longrightarrow> Replay i \<in> T \<Longrightarrow> jsteps h T j (snd (retry_uncommitted_mutation i t j))"
  unfolding retry_uncommitted_mutation_def
  by (rule jsteps_jbind) (auto intro!: save_mutation_jsteps mutation_move.MRetried simp: attempt_eq record_ids)

lemma request_mutation_retry_steps:
  "journal_ok h j \<Longrightarrow> jsteps h T j (snd (request_mutation_retry i j))"
  unfolding request_mutation_retry_def
  by (rule jsteps_jbind) (auto intro!: save_mutation_jsteps mutation_move.MRechecked)

lemma restart_steps: "jsteps h T j (restart j)"
  by (intro r_into_rtranclp jstep.Recovered)

section \<open>Resolving generations\<close>

definition upload_waits :: "journal \<Rightarrow> uuid \<Rightarrow> bool" where
  "upload_waits j i \<longleftrightarrow> (\<exists>r. fmlookup (uploads j) i = Some r \<and> (u_state r = PendingU \<or> u_state r = PreparingU)
     \<and> waits_for_base j (u_base r))"

definition mutation_waits :: "journal \<Rightarrow> uuid \<Rightarrow> bool" where
  "mutation_waits j i \<longleftrightarrow> (\<exists>r. fmlookup (mutations j) i = Some r \<and> m_state r = PendingM \<and> waits_for_base j (m_base r))"

text \<open>What resolving one row does: it stops waiting, nothing else starts to, and no
  operation becomes complete.\<close>

definition settles :: "host \<Rightarrow> permit set \<Rightarrow> uuid \<Rightarrow> journal \<Rightarrow> unit journal_result \<Rightarrow> bool" where
  "settles h T i j out \<longleftrightarrow> fst out = Inr () \<and> jsteps h T j (snd out)
     \<and> (\<forall>k. upload_waits (snd out) k \<longleftrightarrow> upload_waits j k \<and> k \<noteq> i)
     \<and> (\<forall>k. mutation_waits (snd out) k \<longleftrightarrow> mutation_waits j k \<and> k \<noteq> i)"

lemma complete_put:
  assumes "tables_ok j"
  shows "fmlookup (uploads j) (u_id r') = Some r \<Longrightarrow> upload_done r' \<longleftrightarrow> upload_done r
      \<Longrightarrow> complete_of (put_upload r' j) k = complete_of j k"
    "fmlookup (mutations j) (m_id m') = Some m \<Longrightarrow> m_state m' = AppliedM \<longleftrightarrow> m_state m = AppliedM
      \<Longrightarrow> complete_of (put_mutation m' j) k = complete_of j k"
  using upload_rowD(2) [OF assms, of "u_id r'" r] mutation_rowD(2) [OF assms, of "m_id m'" m]
  by (auto simp: complete_of_def mark_complete_lookup split: option.splits)

lemma base_node_confirmed:
  assumes "tables_ok j" "complete_of j (predecessor b)"
  shows "\<exists>n. base_node b s sq j = (Inr n, j) \<and> (\<forall>m. n = Some m \<longrightarrow> confirmed j (predecessor b) = Some m)"
proof -
  obtain q where q: "fmlookup (write_queue j) (predecessor b) = Some q"
    using assms(2) by (auto simp: complete_of_def split: option.splits)
  show ?thesis
    using assms(1) q
    by (cases rule: queue_rowE)
      (auto simp: base_node_def operation_get_def mutation_get_def confirmed_def give_def jbind_def
        dest: upload_rowD(3) mutation_rowD(3) split: option.splits if_splits)
qed

lemma waits_cong:
  assumes "\<And>k. complete_of j' k = complete_of j k"
  shows "waits_for_base j' base = waits_for_base j base"
  using assms by (simp add: waits_for_base_def split: option.splits)

lemma waits_resolved: "base = Some b \<Longrightarrow> resolved b \<Longrightarrow> \<not> waits_for_base j base"
  by (simp add: waits_for_base_def)

lemma settles_upload:
  assumes "tables_ok j" "fmlookup (uploads j) i = Some r" "jsteps h T j j'" "mutations j' = mutations j"
    "uploads j' = fmupd i r' (uploads j)" "\<And>k. complete_of j' k = complete_of j k"
    "u_state r' = FailedU \<or> u_base r' = Some b \<and> resolved b"
  shows "settles h T i j (Inr (), j')"
proof -
  have "fmlookup (mutations j) i = None"
    using upload_rowD(3) [OF assms(1,2)] .
  then show ?thesis
    using assms(3-) waits_resolved unfolding settles_def upload_waits_def mutation_waits_def
    by (auto simp: waits_cong [OF assms(6)])
qed

lemma settles_mutation:
  assumes "tables_ok j" "fmlookup (mutations j) i = Some r" "jsteps h T j j'" "uploads j' = uploads j"
    "mutations j' = fmupd i r' (mutations j)" "\<And>k. complete_of j' k = complete_of j k"
    "m_state r' = FailedM \<or> m_base r' = Some b \<and> resolved b"
  shows "settles h T i j (Inr (), j')"
proof -
  have "fmlookup (uploads j) i = None"
    using mutation_rowD(3) [OF assms(1,2)] .
  then show ?thesis
    using assms(3-) waits_resolved unfolding settles_def upload_waits_def mutation_waits_def
    by (auto simp: waits_cong [OF assms(6)])
qed

lemma fail_upload_settles:
  assumes "journal_ok h j" "fmlookup (uploads j) i = Some r" "u_state r = PendingU \<or> u_state r = PreparingU"
  shows "settles h T i j (upload_save (r\<lparr>u_state := FailedU\<rparr>) j)"
proof -
  let ?r = "r\<lparr>u_state := FailedU\<rparr>"
  have ok: "tables_ok j" and [simp]: "u_id r = i"
    using assms(1) upload_rowD(1) [OF _ assms(2)] by (auto simp: journal_ok_def)
  have save: "upload_save ?r j = (Inr (), put_upload ?r j)" "jstep h T j (put_upload ?r j)"
    using upload_save_steps [OF assms(1,2) upload_move.Unusable [OF assms(3)]] by simp_all
  show ?thesis
    unfolding save(1) using save(2) assms(2,3)
    by (intro settles_upload [OF ok assms(2), where r' = ?r]) (auto simp: complete_put [OF ok] upload_done_def)
qed

lemma resolve_upload_settles:
  assumes "journal_ok h j" "upload_waits j i"
  shows "settles h T i j (resolve_upload h i j)"
proof -
  obtain r b where r: "fmlookup (uploads j) i = Some r" "u_state r = PendingU \<or> u_state r = PreparingU"
      "u_base r = Some b" "complete_of j (predecessor b)" "\<not> resolved b"
    using assms(2) by (auto simp: upload_waits_def waits_for_base_def split: option.splits)
  have ok: "tables_ok j"
    using assms(1) by (simp add: journal_ok_def)
  obtain n where n: "base_node b (u_scope r) (u_sequence r) j = (Inr n, j)"
      "\<And>m. n = Some m \<Longrightarrow> confirmed j (predecessor b) = Some m"
    using base_node_confirmed [OF ok r(4)] by blast
  note eval = resolve_upload_def upload_get_def r(1,3) n(1)
  show ?thesis
  proof (cases "\<exists>intent. rebind n = Some intent \<and> \<not> isl (intent_validate intent)")
    case False
    then have "resolve_upload h i j = upload_save (r\<lparr>u_state := FailedU\<rparr>) j"
      by (auto simp: eval give_def split: option.splits)
    then show ?thesis
      using fail_upload_settles [OF assms(1) r(1,2)] by simp
  next
    case True
    then obtain intent m where i: "rebind n = Some intent" "\<not> isl (intent_validate intent)" "n = Some m"
      by (auto simp: rebind_def split: option.splits)
    let ?r = "r\<lparr>u_intent := intent, u_base := Some (b\<lparr>resolved := True\<rparr>)\<rparr>"
    let ?j = "(add_resources i (upload_resources h (u_scope r) intent) j)\<lparr>uploads := fmupd i ?r (uploads j)\<rparr>"
    have "resolve_upload h i j = (Inr (), ?j)"
      using i by (simp add: eval give_def Let_def)
    moreover have "jsteps h T j ?j"
      using jstep.Upload_rebound [OF r(1,2,3,5,4) n(2) [OF i(3)] _ refl] i by (intro r_into_rtranclp) simp
    ultimately show ?thesis
      using settles_upload [OF ok r(1), where r' = ?r and j' = ?j and b = "b\<lparr>resolved := True\<rparr>"]
      by (simp add: complete_of_def)
  qed
qed

lemma fail_mutation_settles:
  assumes "journal_ok h j" "fmlookup (mutations j) i = Some r" "m_state r = PendingM" "\<not> base_settled (m_base r)" "chainable q"
  shows "settles h T i j (save_mutation (r\<lparr>m_request := q, m_state := FailedM\<rparr>) j)"
proof -
  let ?r = "r\<lparr>m_request := q, m_state := FailedM\<rparr>"
  have ok: "tables_ok j" and [simp]: "m_id r = i"
    using assms(1) mutation_rowD(1) [OF _ assms(2)] by (auto simp: journal_ok_def)
  have save: "save_mutation ?r j = (Inr (), put_mutation ?r j)" "jstep h T j (put_mutation ?r j)"
    using save_mutation_steps [OF assms(1,2) mutation_move.MUnusable [OF assms(3-)]] by simp_all
  show ?thesis
    unfolding save(1) using save(2) assms(2,3)
    by (intro settles_mutation [OF ok assms(2), where r' = ?r]) (auto simp: complete_put [OF ok])
qed

lemma validated_resources: "mutation_validate q = Inr () \<Longrightarrow> \<exists>keys. mutation_resources h q = Inr keys"
  by (auto simp: mutation_validate_def mutation_resources_def Let_def is_some_and_def split: if_splits option.splits)

lemma resolve_mutation_settles:
  assumes "journal_ok h j" "mutation_waits j i"
  shows "settles h T i j (resolve_mutation h i j)"
proof -
  obtain r b where r: "fmlookup (mutations j) i = Some r" "m_state r = PendingM"
      "m_base r = Some b" "complete_of j (predecessor b)" "\<not> resolved b"
    using assms(2) by (auto simp: mutation_waits_def waits_for_base_def split: option.splits)
  have ok: "tables_ok j" and chain: "chainable (m_request r)"
    using assms(1) r(1,3) by (auto simp: journal_ok_def records_ok_def mutation_ok_def)
  obtain n where n: "base_node b (mr_scope (m_request r)) (m_sequence r) j = (Inr n, j)"
      "\<And>m. n = Some m \<Longrightarrow> confirmed j (predecessor b) = Some m"
    using base_node_confirmed [OF ok r(4)] by blast
  note eval = resolve_mutation_def mutation_get_def r(1,3) n(1)
  have unsettled: "\<not> base_settled (m_base r)"
    using r(3,5) by (simp add: base_settled_def)
  note failed = fail_mutation_settles [OF assms(1) r(1,2) unsettled]
  show ?thesis
  proof (cases "\<exists>m. n = Some m \<and> map_option node_kind (intent_before (mr_intent (m_request r))) = Some (node_kind m)")
    case False
    then have "resolve_mutation h i j = save_mutation (r\<lparr>m_request := m_request r, m_state := FailedM\<rparr>) j"
      by (auto simp: eval give_def split: option.splits)
    then show ?thesis
      using failed [OF chain] by simp
  next
    case True
    then obtain m q where m: "n = Some m" "with_source (\<lambda>_. m) (m_request r) = Some q"
        "map_option node_kind (intent_before (mr_intent (m_request r))) = Some (node_kind m)"
      using chain with_source_chainable(2) [of _ "m_request r"] by (metis option.exhaust)
    show ?thesis
    proof (cases "isl (mutation_validate q)")
      case True
      then have "resolve_mutation h i j = save_mutation (r\<lparr>m_request := q, m_state := FailedM\<rparr>) j"
        using m by (simp add: eval give_def)
      then show ?thesis
        using failed [OF with_source_chainable(1) [OF m(2)]] by simp
    next
      case False
      then have v: "mutation_validate q = Inr ()"
        by (cases "mutation_validate q") auto
      then obtain keys where k: "mutation_resources h q = Inr keys"
        using validated_resources by blast
      let ?r = "r\<lparr>m_request := q, m_base := Some (b\<lparr>resolved := True\<rparr>)\<rparr>"
      let ?j = "(add_resources i keys j)\<lparr>mutations := fmupd i ?r (mutations j)\<rparr>"
      have "resolve_mutation h i j = (Inr (), ?j)"
        using m v k by (simp add: eval give_def Let_def)
      moreover have "jsteps h T j ?j"
        using jstep.Mutation_rebound [OF r(1,2,3,5,4) n(2) [OF m(1)] m(2) v k refl] by (rule r_into_rtranclp)
      ultimately show ?thesis
        using settles_mutation [OF ok r(1), where r' = ?r and j' = ?j and b = "b\<lparr>resolved := True\<rparr>"]
        by (simp add: complete_of_def)
    qed
  qed
qed

definition row_waits :: "journal \<Rightarrow> bool \<Rightarrow> uuid \<Rightarrow> bool" where
  "row_waits j up i = (if up then upload_waits j i else mutation_waits j i)"

lemma row_waits_once: "tables_ok j \<Longrightarrow> row_waits j a i \<Longrightarrow> row_waits j b i \<Longrightarrow> a = b"
  using upload_rowD(3) [of j i] by (auto simp: row_waits_def upload_waits_def mutation_waits_def split: if_splits)

lemma ready_rows_iff:
  assumes "tables_ok j"
  shows "(sq, up, i) \<in> set (ready_rows j) \<longleftrightarrow>
    row_waits j up i \<and> sq = (if up then u_sequence (the (fmlookup (uploads j) i)) else m_sequence (the (fmlookup (mutations j) i)))"
proof -
  have "r' = r" if "fmlookup (uploads j) (u_id r) = Some r'" "fmlookup (uploads j) k = Some r" for r r' k
    using upload_rowD(1) [OF assms that(2)] that by simp
  moreover have "r' = r" if "fmlookup (mutations j) (m_id r) = Some r'" "fmlookup (mutations j) k = Some r" for r r' k
    using mutation_rowD(1) [OF assms that(2)] that by simp
  ultimately show ?thesis
    using upload_rowD(1) [OF assms] mutation_rowD(1) [OF assms]
    by (auto simp: ready_rows_def row_waits_def upload_waits_def mutation_waits_def set_fm_values image_iff split: if_splits)
qed

lemma ready_rows_distinct:
  assumes "tables_ok j"
  shows "distinct (map (snd \<circ> snd) (ready_rows j))"
proof -
  let ?u = "map u_id (fm_values (uploads j))" and ?m = "map m_id (fm_values (mutations j))"
  have u: "distinct ?u" and m: "distinct ?m"
    using upload_rowD(1) [OF assms] mutation_rowD(1) [OF assms] by (auto intro!: fm_values_keys(2))
  have "mset (map (snd \<circ> snd) (ready_rows j)) =
      mset (map u_id (filter (\<lambda>r. (u_state r = PendingU \<or> u_state r = PreparingU) \<and> waits_for_base j (u_base r)) (fm_values (uploads j)))
        @ map m_id (filter (\<lambda>r. m_state r = PendingM \<and> waits_for_base j (m_base r)) (fm_values (mutations j))))"
    by (simp add: ready_rows_def comp_def multiset.map_comp)
  moreover have "r \<noteq> r'" if "r \<in> set ?u" "r' \<in> set ?m" for r r'
    using that upload_rowD(1,3) [OF assms] mutation_rowD(1) [OF assms] by (fastforce simp: set_fm_values)
  then have "distinct (map u_id (filter P (fm_values (uploads j))) @ map m_id (filter Q (fm_values (mutations j))))" for P Q
    using u m by (fastforce simp: distinct_map_filter)
  ultimately show ?thesis
    using mset_eq_imp_distinct_iff by blast
qed

lemma resolve_rows_steps:
  assumes "journal_ok h j" "distinct (map (snd \<circ> snd) rows)" "\<forall>(sq, up, i) \<in> set rows. row_waits j up i"
  shows "fst (resolve_rows h rows j) = Inr () \<and> jsteps h T j (snd (resolve_rows h rows j))
    \<and> (\<forall>up k. row_waits (snd (resolve_rows h rows j)) up k \<longleftrightarrow> row_waits j up k \<and> k \<notin> (snd \<circ> snd) ` set rows)"
  using assms
proof (induction rows arbitrary: j)
  case Nil
  then show ?case
    by (simp add: give_def)
next
  case (Cons row rows)
  obtain sq up i where row: "row = (sq, up, i)"
    by (cases row)
  define out where "out = (if up then resolve_upload h i j else resolve_mutation h i j)"
  have w: "row_waits j up i"
    using Cons.prems(3) row by simp
  have s: "settles h T i j out"
    using resolve_upload_settles [OF Cons.prems(1)] resolve_mutation_settles [OF Cons.prems(1)] w
    by (auto simp: out_def row_waits_def)
  then obtain j' where out: "out = (Inr (), j')" "jsteps h T j j'"
    by (cases out) (auto simp: settles_def)
  have ok: "journal_ok h j'"
    using jsteps_ok [OF out(2) Cons.prems(1)] .
  have waits: "row_waits j' b k \<longleftrightarrow> row_waits j b k \<and> k \<noteq> i" for b k
    using s out(1) by (auto simp: settles_def row_waits_def)
  have later: "\<forall>(sq, up, k) \<in> set rows. row_waits j' up k"
    using Cons.prems(2,3) row waits by (fastforce simp: image_iff)
  have "resolve_rows h (row # rows) j = resolve_rows h rows j'"
    using out(1) by (simp add: row out_def)
  then show ?case
    using Cons.IH [OF ok _ later] Cons.prems(2) out(2) waits row by (auto intro: rtranclp_trans)
qed

lemma resolve_ready_steps:
  assumes "journal_ok h j"
  obtains j' where "resolve_ready_generations h j = (Inr (ready_rows j' = []), j')" "jsteps h T j j'" "journal_ok h j'"
    "\<And>up k. row_waits j' up k \<longleftrightarrow> row_waits j up k \<and> k \<notin> (snd \<circ> snd) ` set (take 256 (ready_rows j))"
proof -
  have ok: "tables_ok j"
    using assms by (simp add: journal_ok_def)
  have d: "distinct (map (snd \<circ> snd) (take 256 (ready_rows j)))"
    using distinct_take [OF ready_rows_distinct [OF ok]] by (simp add: take_map)
  have w: "\<forall>(sq, up, i) \<in> set (take 256 (ready_rows j)). row_waits j up i"
    using ready_rows_iff [OF ok] by (auto dest!: in_set_takeD)
  obtain j' where j': "resolve_rows h (take 256 (ready_rows j)) j = (Inr (), j')" "jsteps h T j j'"
      "\<And>up k. row_waits j' up k \<longleftrightarrow> row_waits j up k \<and> k \<notin> (snd \<circ> snd) ` set (take 256 (ready_rows j))"
    using resolve_rows_steps [OF assms d w, of T] by (cases "resolve_rows h (take 256 (ready_rows j)) j") auto
  show thesis
    using j' jsteps_ok [OF j'(2) assms] by (intro that [of j']) (simp_all add: resolve_ready_generations_def give_def)
qed

section \<open>Claims\<close>

lemma claimable_iff:
  assumes "tables_ok j"
  shows "r \<in> set (claimable st now j) \<longleftrightarrow>
    fmlookup (uploads j) (u_id r) = Some r \<and> u_state r = st \<and> eligible j now (u_id r) (u_sequence r) (u_base r) (u_retry_at r)"
  using upload_rowD(1) [OF assms] by (auto simp: claimable_def set_fm_values)

lemma claimable_mutations_iff:
  assumes "tables_ok j"
  shows "r \<in> set (claimable_mutations now j) \<longleftrightarrow>
    fmlookup (mutations j) (m_id r) = Some r \<and> (m_state r = PendingM \<or> m_state r = VerifyRequiredM) \<and> m_local_ready r
    \<and> eligible j now (m_id r) (m_sequence r) (m_base r) (m_retry_at r)"
  using mutation_rowD(1) [OF assms] by (auto simp: claimable_mutations_def set_fm_values)

lemma claim_next_steps:
  assumes "journal_ok h j" "Token t \<in> T"
  shows "jsteps h T j (snd (claim_next h now t j))"
proof (rule resolve_ready_steps [OF assms(1), of T])
  fix j'
  assume r: "resolve_ready_generations h j = (Inr (ready_rows j' = []), j')" "jsteps h T j j'" "journal_ok h j'"
  have "jsteps h T j' (snd (claim_next h now t j))"
  proof (cases "ready_rows j' = [] \<and> claimable PendingU now j' \<noteq> []")
    case True
    then obtain r rs where c: "claimable PendingU now j' = r # rs"
      by (cases "claimable PendingU now j'") auto
    then have "fmlookup (uploads j') (u_id r) = Some r" "u_state r = PendingU" "base_settled (u_base r)"
      using claimable_iff [of j' r PendingU now] r(3) by (simp_all add: journal_ok_def eligible_def)
    then show ?thesis
      using True c r assms(2)
      by (cases "payload h (u_id r) j'")
        (auto simp: claim_next_def Let_def split: sum.splits dest!: payload_Inr_snd
          intro!: jsteps_jbind upload_save_jsteps upload_move.Claimed upload_move.Unusable)
  qed (use r in \<open>auto simp: claim_next_def\<close>)
  then show ?thesis
    using r(2) by (rule rtranclp_trans [rotated])
qed

lemma claim_next_verification_steps:
  assumes "journal_ok h j" "Token t \<in> T"
  shows "jsteps h T j (snd (claim_next_verification h now t j))"
proof (rule resolve_ready_steps [OF assms(1), of T])
  fix j'
  assume r: "resolve_ready_generations h j = (Inr (ready_rows j' = []), j')" "jsteps h T j j'" "journal_ok h j'"
  have "jsteps h T j' (snd (claim_next_verification h now t j))"
    using r assms(2)
    by (auto simp: claim_next_verification_def intro!: jsteps_jbind claim_verification_steps split: list.splits)
  then show ?thesis
    using r(2) by (rule rtranclp_trans [rotated])
qed

lemma claim_mutation_steps:
  assumes "journal_ok h j" "Token t \<in> T"
  shows "jsteps h T j (snd (claim_mutation h now t j))"
proof (rule resolve_ready_steps [OF assms(1), of T])
  fix j'
  assume r: "resolve_ready_generations h j = (Inr (ready_rows j' = []), j')" "jsteps h T j j'" "journal_ok h j'"
  have "jsteps h T j' (snd (claim_mutation h now t j))"
  proof (cases "ready_rows j' = [] \<and> claimable_mutations now j' \<noteq> []")
    case True
    then obtain r rs where c: "claimable_mutations now j' = r # rs"
      by (cases "claimable_mutations now j'") auto
    then have "fmlookup (mutations j') (m_id r) = Some r" "m_state r = PendingM \<or> m_state r = VerifyRequiredM"
        "base_settled (m_base r)"
      using claimable_mutations_iff [of j' r now] r(3) by (simp_all add: journal_ok_def eligible_def)
    then show ?thesis
      using True c r assms(2)
      by (auto simp: claim_mutation_def Let_def
          intro!: jsteps_jbind save_mutation_jsteps mutation_move.MClaimed mutation_move.MInspected)
  qed (use r in \<open>auto simp: claim_mutation_def\<close>)
  then show ?thesis
    using r(2) by (rule rtranclp_trans [rotated])
qed

section \<open>Admissions\<close>

lemma queue_insert_eq:
  "queue_insert i keys j = (Inr sq, j') \<longleftrightarrow> sq = last_sequence j + 1 \<and> fmlookup (write_queue j) i = None
     \<and> last_sequence j < i64_max \<and> (\<forall>k \<in> set keys. (i, k) |\<notin>| write_resources j) \<and> distinct keys
     \<and> j' = j\<lparr>write_queue := fmupd i \<lparr>q_sequence = sq, q_complete = False\<rparr> (write_queue j), last_sequence := sq,
              write_resources := write_resources j |\<union>| fset_of_list (map (Pair i) keys)\<rparr>"
  by (auto simp: queue_insert_def Let_def list_ex_iff split: if_splits)

lemma barriers_validate_snd: "snd (barriers_validate s ps j) = j"
  "barriers_validate s ps j = (v, j') \<Longrightarrow> j' = j"
  by (auto simp: barriers_validate_def fail_def split: if_splits)

lemma barriers_add_eq:
  "barriers_add i sq ps j = (Inr u, j') \<longleftrightarrow>
     (\<forall>p \<in> set ps. \<exists>q. sequence_of j p = Some q \<and> 0 < q \<and> q < sq)
     \<and> j' = j\<lparr>write_prerequisites := write_prerequisites j |\<union>| fset_of_list (map (Pair i) ps)\<rparr>"
proof (induction ps arbitrary: j)
  case (Cons p ps)
  have "sequence_of (j\<lparr>write_prerequisites := x\<rparr>) k = sequence_of j k" for x k
    by (simp add: sequence_of_def)
  then show ?case
    using Cons.IH by (auto split: option.splits if_splits)
qed auto

lemma insert_dependency_eq:
  "insert_dependency i sq base j = (Inr u, j') \<longleftrightarrow>
     (case base of None \<Rightarrow> j' = j
      | Some b \<Rightarrow> \<not> resolved b \<and> (\<exists>q. sequence_of j (predecessor b) = Some q \<and> 0 < q \<and> q < sq)
          \<and> fmlookup (write_successors j) (predecessor b) = None \<and> i |\<notin>| fmran (write_successors j)
          \<and> j' = j\<lparr>write_successors := fmupd (predecessor b) i (write_successors j)\<rparr>)"
  by (auto simp: insert_dependency_def split: option.splits if_splits)

text \<open>What a successful admission did: the queue row, the resources, the lineage and the
  prerequisites, in the order the code inserts them.\<close>

lemma admission_eq:
  assumes "queue_insert i keys j = (Inr sq, j1)" "insert_dependency i sq base j1 = (Inr u, j2)"
    "barriers_insert i sq s ps j2 = (Inr v, j3)"
  shows "sq = last_sequence j + 1" "admissible i ps base j" "j3 = admit i keys ps base j"
proof -
  show sq: "sq = last_sequence j + 1"
    using assms(1) by (simp add: queue_insert_eq)
  have b: "barriers_add i sq ps j2 = (Inr v, j3)"
    using assms(3) by (auto simp: barriers_insert_def jbind_Inr dest: barriers_validate_snd(2))
  have row: "\<exists>q. sequence_of j' p = Some q \<and> q < sq \<Longrightarrow> p \<noteq> i \<and> earlier j p sq"
    if "write_queue j' = fmupd i \<lparr>q_sequence = sq, q_complete = False\<rparr> (write_queue j)" for p j'
    using that by (auto simp: sequence_of_def earlier_def split: if_splits)
  have q1: "write_queue j1 = fmupd i \<lparr>q_sequence = sq, q_complete = False\<rparr> (write_queue j)"
    using assms(1) by (simp add: queue_insert_eq)
  have q2: "write_queue j2 = write_queue j1"
    using assms(2) by (auto simp: insert_dependency_eq split: option.splits)
  have "p \<noteq> i \<and> earlier j p sq" if "p \<in> set ps" for p
    using b row [OF q2 [THEN trans, OF q1]] that unfolding barriers_add_eq by blast
  moreover have "\<not> resolved b \<and> predecessor b \<noteq> i \<and> earlier j (predecessor b) sq" if "base = Some b" for b
    using assms(2) row [OF q1] that unfolding insert_dependency_eq by auto
  ultimately show "admissible i ps base j"
    using assms(1) sq by (simp add: admissible_def queue_insert_eq)
  show "j3 = admit i keys ps base j"
    using assms(1,2) b unfolding admit_def queue_insert_eq insert_dependency_eq barriers_add_eq
    by (auto split: option.splits)
qed

lemma enqueue_commit_Inl: "enqueue_commit h r ps w j = (Inl e, j') \<Longrightarrow> j' = j"
  unfolding enqueue_commit_def by (rule transaction_Inl)

lemma enqueue_commit_Inr:
  assumes "enqueue_commit h r ps w j = (Inr r', j')" "u_state r = PendingU" "u_attempt r = None" "u_representation r = FileBytes"
    "fmlookup (objects j) (u_id r) = Some bytes" "u_size r = int (length bytes)" "u_sha256 r = sha256 h bytes"
  obtains j1 where "jstep h T j j1" "r' = r\<lparr>u_sequence := last_sequence j + 1\<rparr>"
    "uploads j1 = fmupd (u_id r) r' (uploads j)" "objects j1 = objects j" "fmlookup (write_queue j) (u_id r) = None"
    "u_base r = None \<longrightarrow> write_successors j1 = write_successors j"
    "case w of None \<Rightarrow> j' = j1 | Some c \<Rightarrow> rescue_apply c r' j1 = (Inr (), j')"
proof -
  obtain sq j2 j3 j4 u v where c: "queue_insert (u_id r) (upload_resources h (u_scope r) (u_intent r)) j = (Inr sq, j2)"
      "insert_dependency (u_id r) sq (u_base r) j2 = (Inr u, j3)" "barriers_insert (u_id r) sq (u_scope r) ps j3 = (Inr v, j4)"
      "r' = r\<lparr>u_sequence := sq\<rparr>"
      "case w of None \<Rightarrow> j' = j4\<lparr>uploads := fmupd (u_id r) r' (uploads j4)\<rparr>
         | Some c \<Rightarrow> rescue_apply c r' (j4\<lparr>uploads := fmupd (u_id r) r' (uploads j4)\<rparr>) = (Inr (), j')"
    using assms(1) by (cases w) (auto simp: enqueue_commit_def transaction_Inr jbind_Inr Let_def split: if_splits)
  note a = admission_eq [OF c(1-3)]
  have r': "r' = r\<lparr>u_sequence := last_sequence j + 1\<rparr>"
    using a(1) c(4) by simp
  have fields: "u_id r' = u_id r" "u_scope r' = u_scope r" "u_intent r' = u_intent r" "u_base r' = u_base r"
      "u_sequence r' = last_sequence j + 1" "u_state r' = PendingU" "u_attempt r' = None" "u_representation r' = FileBytes"
      "u_size r' = int (length bytes)" "u_sha256 r' = sha256 h bytes"
    using assms(2-) by (simp_all add: r')
  let ?j = "(admit (u_id r') (upload_resources h (u_scope r') (u_intent r')) ps (u_base r') j)
      \<lparr>uploads := fmupd (u_id r') r' (uploads j)\<rparr>"
  have j4: "j4\<lparr>uploads := fmupd (u_id r) r' (uploads j4)\<rparr> = ?j"
    unfolding a(3) fields by simp
  have "jstep h T j ?j"
    using assms(5) a(2) fields by (intro jstep.Upload_admitted [where bytes = bytes]) simp_all
  moreover have "fmlookup (write_queue j) (u_id r) = None"
    using a(2) by (simp add: admissible_def)
  ultimately show thesis
    using c(5) unfolding j4 by (intro that [of ?j] r') (simp_all add: fields admit_def)
qed

text \<open>What a rescue resolves: records as they stand in the journal, each once.\<close>

definition rescuable :: "rescue_commit \<Rightarrow> journal \<Rightarrow> bool" where
  "rescuable c j \<longleftrightarrow> (\<forall>s \<in> set (rc_saves c). fmlookup (uploads j) (u_id s) = Some s) \<and> distinct (map u_id (rc_saves c))"

lemma resolve_saves_steps:
  assumes "resolve_saves saves j = (Inr u, j')" "journal_ok h j" "Settle \<in> T"
    "\<forall>s \<in> set saves. fmlookup (uploads j) (u_id s) = Some s" "distinct (map u_id saves)"
  shows "jsteps h T j j' \<and> objects j' = objects j \<and> write_successors j' = write_successors j
    \<and> (\<forall>s \<in> set saves. fmlookup (uploads j') (u_id s) = Some (s\<lparr>u_state := ResolvedU\<rparr>))
    \<and> (\<forall>k. k \<notin> u_id ` set saves \<longrightarrow> fmlookup (uploads j') k = fmlookup (uploads j) k)"
  using assms
proof (induction saves arbitrary: j)
  case (Cons s saves)
  let ?r = "s\<lparr>u_state := ResolvedU\<rparr>"
  have s: "fmlookup (uploads j) (u_id s) = Some s" "u_state s \<in> {ConflictU, FailedU, PendingU}"
    using Cons.prems(1,4) by (auto split: if_splits)
  have tables: "tables_ok j"
    using Cons.prems(2) by (simp add: journal_ok_def)
  have step: "jstep h T j (put_upload ?r j)"
    using jstep.Upload_saved [OF s(1) upload_move.Settled [OF s(2) Cons.prems(3)]] .
  have "queue_complete (u_id s) True (j\<lparr>uploads := fmupd (u_id s) ?r (uploads j)\<rparr>) = (Inr (), put_upload ?r j)"
    using upload_rowD(2) [OF tables s(1)] by (simp add: queue_complete_def put_upload_def mark_complete_def upload_done_def)
  then have "resolve_saves saves (put_upload ?r j) = (Inr u, j')"
    using Cons.prems(1) s by (auto split: if_splits)
  moreover have "\<forall>x \<in> set saves. fmlookup (uploads (put_upload ?r j)) (u_id x) = Some x"
    using Cons.prems(4,5) by auto
  ultimately show ?case
    using Cons.IH [of "put_upload ?r j"] journal_ok_step [OF step Cons.prems(2)] Cons.prems(3,5) step
    by (auto intro: converse_rtranclp_into_rtranclp)
qed simp

lemma new_upload_sel [simp]:
  "u_id (new_upload h i now s intent b bytes) = i" "u_state (new_upload h i now s intent b bytes) = PendingU"
  "u_attempt (new_upload h i now s intent b bytes) = None" "u_representation (new_upload h i now s intent b bytes) = FileBytes"
  "u_size (new_upload h i now s intent b bytes) = int (length bytes)"
  "u_sha256 (new_upload h i now s intent b bytes) = sha256 h bytes" "u_base (new_upload h i now s intent b bytes) = b"
  "u_intent (new_upload h i now s intent b bytes) = intent"
  by (simp_all add: new_upload_def)

lemma ensure_successor_free_snd: "snd (ensure_successor_free p j) = j"
  by (auto simp: ensure_successor_free_def jbind_def operation_get_def mutation_get_def give_def fail_def split: option.splits)

lemma copy_loop_bound:
  assumes "copy_loop a chunks acc = Inr bytes" "int (length acc) \<le> a \<or> acc = []"
  shows "int (length bytes) \<le> max 0 a"
  using assms by (induction a chunks acc rule: copy_loop.induct) (auto simp: Let_def split: if_splits)

lemma enqueue_spool_fits:
  assumes "retained_usage j = Inr (kept, files)" "files < 10000" "copy_loop (max 0 (j_quota j - kept)) chunks [] = Inr bytes"
  shows "spool_fits j bytes"
  using copy_loop_bound [OF assms(3)] assms(1,2)
  by (auto simp: spool_fits_def retained_usage_def Let_def split: if_splits)

lemma enqueue_generation_cases:
  obtains (refused) e where "enqueue_generation h i now s intent order w chunks j = (Inl e, j)"
  | (published) bytes kept files where "fmlookup (objects j) i = None" "retained_usage j = Inr (kept, files)" "files < 10000"
      "copy_loop (max 0 (j_quota j - kept)) chunks [] = Inr bytes"
      "enqueue_generation h i now s intent order w chunks j =
         enqueue_commit h (new_upload h i now s intent (wo_base order) bytes) (wo_prerequisites order) w
           (j\<lparr>objects := fmupd i bytes (objects j)\<rparr>)"
proof -
  define b where "b = (case wo_base order of None \<Rightarrow> give () j | Some b \<Rightarrow> ensure_successor_free (predecessor b) j)"
  define v where "v = barriers_validate s (wo_prerequisites order) j"
  define gen where "gen = enqueue_generation h i now s intent order w chunks j"
  have "snd b = j" "snd v = j"
    by (auto simp: b_def v_def ensure_successor_free_snd barriers_validate_snd split: option.splits)
  then obtain b' v' where eqs: "b = (b', j)" "barriers_validate s (wo_prerequisites order) j = (v', j)"
    by (cases b; cases v) (auto simp: v_def)
  have "(\<exists>e. gen = (Inl e, j)) \<or> (\<exists>bytes kept files. fmlookup (objects j) i = None \<and> retained_usage j = Inr (kept, files)
      \<and> files < 10000 \<and> copy_loop (max 0 (j_quota j - kept)) chunks [] = Inr bytes
      \<and> gen = enqueue_commit h (new_upload h i now s intent (wo_base order) bytes) (wo_prerequisites order) w
           (j\<lparr>objects := fmupd i bytes (objects j)\<rparr>))"
    unfolding gen_def enqueue_generation_def b_def [symmetric]
    by (cases b'; cases v'; simp add: eqs fail_def split: sum.split prod.split)
  then show thesis
    using refused published unfolding gen_def by blast
qed

lemma rescue_apply_Inr:
  "rescue_apply c r j = (Inr u, j') \<Longrightarrow> resolve_saves (rc_saves c) j = (Inr u, j') \<and> u_scope r = u_scope (rc_latest c)
     \<and> u_sha256 r = u_sha256 (rc_latest c) \<and> u_size r = u_size (rc_latest c)"
  by (auto simp: rescue_apply_def Let_def split: upload_intent.splits if_splits)

lemma enqueue_commit_effect:
  assumes "enqueue_commit h r ps w j = (Inr r', j')" "journal_ok h j" "u_state r = PendingU" "u_attempt r = None"
    "u_representation r = FileBytes" "fmlookup (objects j) (u_id r) = Some bytes" "u_size r = int (length bytes)"
    "u_sha256 r = sha256 h bytes" "\<And>c. w = Some c \<Longrightarrow> rescuable c j \<and> Settle \<in> T"
  shows "jsteps h T j j'" "r' = r\<lparr>u_sequence := last_sequence j + 1\<rparr>" "fmlookup (uploads j') (u_id r) = Some r'"
    "objects j' = objects j" "u_base r = None \<Longrightarrow> write_successors j' = write_successors j"
    "\<And>c. w = Some c \<Longrightarrow> (\<forall>s \<in> set (rc_saves c). fmlookup (uploads j') (u_id s) = Some (s\<lparr>u_state := ResolvedU\<rparr>))
       \<and> u_sha256 r = u_sha256 (rc_latest c) \<and> u_size r = u_size (rc_latest c)"
proof -
  obtain j1 where c: "jstep h T j j1" "r' = r\<lparr>u_sequence := last_sequence j + 1\<rparr>"
      "uploads j1 = fmupd (u_id r) r' (uploads j)" "objects j1 = objects j" "fmlookup (write_queue j) (u_id r) = None"
      "u_base r = None \<longrightarrow> write_successors j1 = write_successors j"
      "case w of None \<Rightarrow> j' = j1 | Some c \<Rightarrow> rescue_apply c r' j1 = (Inr (), j')"
    by (rule enqueue_commit_Inr [OF assms(1,3-8), where T = T])
  show r': "r' = r\<lparr>u_sequence := last_sequence j + 1\<rparr>"
    by (rule c(2))
  have ok: "journal_ok h j1"
    by (rule journal_ok_step [OF c(1) assms(2)])
  have "jsteps h T j j' \<and> fmlookup (uploads j') (u_id r) = Some r' \<and> objects j' = objects j
    \<and> (u_base r = None \<longrightarrow> write_successors j' = write_successors j)
    \<and> (\<forall>c. w = Some c \<longrightarrow> (\<forall>s \<in> set (rc_saves c). fmlookup (uploads j') (u_id s) = Some (s\<lparr>u_state := ResolvedU\<rparr>))
       \<and> u_sha256 r = u_sha256 (rc_latest c) \<and> u_size r = u_size (rc_latest c))"
  proof (cases w)
    case None
    then show ?thesis
      using c by auto
  next
    case (Some cm)
    have res: "\<forall>x \<in> set (rc_saves cm). fmlookup (uploads j) (u_id x) = Some x" "distinct (map u_id (rc_saves cm))" "Settle \<in> T"
      using assms(9) [OF Some] by (simp_all add: rescuable_def)
    have "fmlookup (uploads j) (u_id r) = None"
      using no_rowD(1) c(5) assms(2) by (simp add: journal_ok_def)
    then have new: "u_id r \<notin> u_id ` set (rc_saves cm)" and in_j1: "\<forall>x \<in> set (rc_saves cm). fmlookup (uploads j1) (u_id x) = Some x"
      using res(1) c(3) by fastforce+
    note app = rescue_apply_Inr [of cm r' j1 "()" j']
    have "rescue_apply cm r' j1 = (Inr (), j')"
      using c(7) Some by simp
    from resolve_saves_steps [OF conjunct1 [OF app [OF this]] ok res(3) in_j1 res(2)]
    show ?thesis
      using c(1,3,4,6) new Some app [OF \<open>rescue_apply cm r' j1 = (Inr (), j')\<close>] r'
      by (auto intro: converse_rtranclp_into_rtranclp)
  qed
  then show "jsteps h T j j'" "fmlookup (uploads j') (u_id r) = Some r'" "objects j' = objects j"
    "u_base r = None \<Longrightarrow> write_successors j' = write_successors j"
    "\<And>c. w = Some c \<Longrightarrow> (\<forall>s \<in> set (rc_saves c). fmlookup (uploads j') (u_id s) = Some (s\<lparr>u_state := ResolvedU\<rparr>))
       \<and> u_sha256 r = u_sha256 (rc_latest c) \<and> u_size r = u_size (rc_latest c)"
    by blast+
qed

lemma publish_step:
  assumes "fmlookup (objects j) i = None" "retained_usage j = Inr (kept, files)" "files < 10000"
    "copy_loop (max 0 (j_quota j - kept)) chunks [] = Inr bytes"
  shows "jstep h T j (j\<lparr>objects := fmupd i bytes (objects j)\<rparr>)"
  using assms(1) by (rule jstep.Published) (use assms(2-4) in \<open>rule enqueue_spool_fits\<close>)

lemma rescuable_objects [simp]: "rescuable c (j\<lparr>objects := x\<rparr>) = rescuable c j"
  by (simp add: rescuable_def)

lemma enqueue_generation_Inr:
  assumes "enqueue_generation h i now s intent order w chunks j = (Inr r, j')" "journal_ok h j"
    "\<And>c. w = Some c \<Longrightarrow> rescuable c j \<and> Settle \<in> T"
  obtains bytes kept files where "retained_usage j = Inr (kept, files)" "copy_loop (max 0 (j_quota j - kept)) chunks [] = Inr bytes"
    "jsteps h T j j'" "r = (new_upload h i now s intent (wo_base order) bytes)\<lparr>u_sequence := last_sequence j + 1\<rparr>"
    "fmlookup (uploads j') i = Some r" "objects j' = fmupd i bytes (objects j)" "fmlookup (objects j) i = None"
    "wo_base order = None \<Longrightarrow> write_successors j' = write_successors j"
    "\<And>c. w = Some c \<Longrightarrow> (\<forall>x \<in> set (rc_saves c). fmlookup (uploads j') (u_id x) = Some (x\<lparr>u_state := ResolvedU\<rparr>))
       \<and> u_sha256 r = u_sha256 (rc_latest c) \<and> u_size r = u_size (rc_latest c)"
proof (cases rule: enqueue_generation_cases [of h i now s intent order w chunks j])
  case (published bytes kept files)
  note step = publish_step [OF published(1-4), of h T]
  note ok = journal_ok_step [OF step assms(2)]
  note e = enqueue_commit_effect [OF published(5) [symmetric, THEN trans, OF assms(1)] ok, where T = T and bytes = bytes]
  show thesis
    by (rule that [OF published(2,4)]) (use e assms(3) published(1) step in
      \<open>auto intro: converse_rtranclp_into_rtranclp\<close>)
qed (use assms(1) in simp)

lemma enqueue_generation_steps:
  assumes "journal_ok h j" "\<And>c. w = Some c \<Longrightarrow> rescuable c j \<and> Settle \<in> T"
  shows "jsteps h T j (snd (enqueue_generation h i now s intent order w chunks j))"
proof (cases "enqueue_generation h i now s intent order w chunks j")
  case (Pair v j')
  show ?thesis
  proof (cases v)
    case (Inr r)
    then show ?thesis
      using Pair by (auto intro: enqueue_generation_Inr [OF _ assms])
  next
    case (Inl e)
    show ?thesis
    proof (cases rule: enqueue_generation_cases [of h i now s intent order w chunks j])
      case (published bytes kept files)
      then have "j' = j\<lparr>objects := fmupd i bytes (objects j)\<rparr>"
        using Pair Inl enqueue_commit_Inl by metis
      then show ?thesis
        using publish_step [OF published(1-4)] Pair by auto
    qed (use Pair in simp)
  qed
qed

lemma enqueue_mutation_transaction_steps:
  assumes "wo_base order \<noteq> None \<longrightarrow> chainable request"
  shows "jsteps h T j (snd (enqueue_mutation_transaction h i request order j))"
proof (cases "enqueue_mutation_transaction h i request order j")
  case (Pair v j')
  show ?thesis
  proof (cases v)
    case (Inl e)
    have "j' = j"
      using Pair Inl barriers_validate_snd
      by (auto simp: enqueue_mutation_transaction_def jbind_def fail_def split: if_splits sum.splits prod.splits
          dest: transaction_Inl)
    then show ?thesis
      using Pair by simp
  next
    case (Inr r)
    obtain keys where k: "mutation_resources h request = Inr keys"
      using Pair Inr by (cases "mutation_resources h request")
        (auto simp: enqueue_mutation_transaction_def transaction_Inr jbind_Inr split: if_splits)
    obtain sq j1 j2 j3 u w where c: "mutation_resources h request = Inr keys"
        "queue_insert i keys j = (Inr sq, j1)" "insert_dependency i sq (wo_base order) j1 = (Inr u, j2)"
        "barriers_insert i sq (mr_scope request) (wo_prerequisites order) j2 = (Inr w, j3)"
        "m_id r = i" "m_sequence r = sq" "m_request r = request" "m_state r = PendingM" "m_attempt r = None"
        "m_base r = wo_base order" "j' = j3\<lparr>mutations := fmupd i r (mutations j3)\<rparr>"
      using Pair Inr k
      by (auto simp: enqueue_mutation_transaction_def transaction_Inr jbind_Inr Let_def split: if_splits
          dest!: barriers_validate_snd(2))
    note a = admission_eq [OF c(2-4)]
    have "j' = (admit (m_id r) keys (wo_prerequisites order) (m_base r) j)\<lparr>mutations := fmupd (m_id r) r (mutations j)\<rparr>"
      using a c by simp
    moreover have "jstep h T j \<dots>"
      using a c assms by (intro jstep.Mutation_admitted) simp_all
    ultimately show ?thesis
      using Pair by auto
  qed
qed

lemma upload_intent_after_snd: "upload_intent_after p j = (Inr x, j') \<Longrightarrow> j' = j" "snd (upload_intent_after p j) = j"
proof -
  show *: "snd (upload_intent_after p j) = j"
    using get_eq(5) [of p j]
    by (cases "operation_get p j"; cases "fst (operation_get p j)")
      (auto simp: upload_intent_after_def split: operation.splits mutation_intent.splits)
  show "upload_intent_after p j = (Inr x, j') \<Longrightarrow> j' = j"
    using * by simp
qed

lemma ensure_successor_free_Inr: "ensure_successor_free p j = (v, j') \<Longrightarrow> j' = j"
  using ensure_successor_free_snd [of p j] by simp

lemma enqueue_after_all_steps:
  "journal_ok h j \<Longrightarrow> jsteps h T j (snd (enqueue_after_all h i now p ps chunks j))"
  unfolding enqueue_after_all_def
  by (rule jsteps_jbind)
    (auto intro!: jsteps_jbind enqueue_generation_steps simp: upload_intent_after_snd ensure_successor_free_snd
      dest!: upload_intent_after_snd(1) ensure_successor_free_Inr)

lemma enqueue_mutation_steps: "jsteps h T j (snd (enqueue_mutation h i request j))"
  by (auto simp: enqueue_mutation_def no_order_def intro!: enqueue_mutation_transaction_steps)

lemma validate_base_chainable:
  "validate_mutation_base p request j = (Inr u, j') \<Longrightarrow> chainable request" "snd (validate_mutation_base p request j) = j"
proof -
  obtain v where v: "operation_get p j = (v, j)"
    using get_eq(5) [of p j] by (cases "operation_get p j") auto
  then show "validate_mutation_base p request j = (Inr u, j') \<Longrightarrow> chainable request"
    by (cases v) (auto simp: validate_mutation_base_def split: if_splits option.splits dest: with_source_chainable(3))
  show "snd (validate_mutation_base p request j) = j"
    using v by (cases v) (auto simp: validate_mutation_base_def split: option.splits)
qed

lemma enqueue_mutation_after_all_steps: "jsteps h T j (snd (enqueue_mutation_after_all h i p ps request j))"
  unfolding enqueue_mutation_after_all_def
  by (rule jsteps_jbind)
    (auto intro!: jsteps_jbind enqueue_mutation_transaction_steps dest: validate_base_chainable(1)
      simp: validate_base_chainable(2) ensure_successor_free_snd)

section \<open>Keeping both copies\<close>

fun successor_chain :: "journal \<Rightarrow> uuid list \<Rightarrow> bool" where
  "successor_chain j [] = False"
| "successor_chain j [i] = (fmlookup (write_successors j) i = None)"
| "successor_chain j (i # k # rest) = (fmlookup (write_successors j) i = Some k \<and> successor_chain j (k # rest))"

lemma strictly_sorted_distinct: "sorted_wrt (\<lambda>x y. f x < (f y :: int)) xs \<Longrightarrow> distinct xs"
  by (induction xs) auto

lemma rescue_walk_Inr:
  assumes "rescue_walk n original previous j = Inr rs" "tables_ok j"
  shows "(\<forall>r \<in> set rs. fmlookup (uploads j) (u_id r) = Some r \<and> u_state r = PendingU)
    \<and> successor_chain j (map u_id (previous # rs)) \<and> sorted_wrt (\<lambda>r r'. u_sequence r < u_sequence r') (previous # rs)"
  using assms
proof (induction n original previous j arbitrary: rs rule: rescue_walk.induct)
  case (1 n original previous j)
  show ?case
  proof (cases "fmlookup (write_successors j) (u_id previous)")
    case None
    then show ?thesis
      using 1(2) by (auto simp: rescue_walk.simps [of n] split: if_splits)
  next
    case (Some nx)
    obtain r rs' where r: "fmlookup (uploads j) nx = Some r" "untouched_successor original previous r"
        "rescue_walk (n - 1) original r j = Inr rs'" "rs = r # rs'" "\<not> has_dependent j (u_id previous)" "\<not> n \<le> 0"
      using 1(2) Some by (auto simp: rescue_walk.simps [of n] result_simps split: if_splits option.splits)
    have "u_id r = nx"
      using upload_rowD(1) [OF 1(3) r(1)] .
    then show ?thesis
      using 1(1) [OF r(5) Some r(6,1) _ r(3) 1(3)] r(1,2,4) Some by (auto simp: untouched_successor_def)
  qed
qed

lemma prepare_saved_Inr:
  assumes "prepare_saved i parent name j = (Inr c, j')" "tables_ok j"
  shows "j' = j" "rescuable c j" "u_id (rc_original c) = i" "u_state (rc_original c) \<in> {ConflictU, FailedU}"
    "\<And>s. s \<in> set (rc_successors c) \<Longrightarrow> u_state s = PendingU" "fmlookup (uploads j) i = Some (rc_original c)"
    "successor_chain j (map u_id (rc_saves c))"
proof -
  obtain rs where c: "fmlookup (uploads j) i = Some (rc_original c)" "u_state (rc_original c) \<in> {ConflictU, FailedU}"
      "rescue_walk 10000 (rc_original c) (rc_original c) j = Inr rs" "rc_successors c = rs" "j' = j"
    using assms(1) by (auto simp: prepare_saved_def jbind_Inr result_simps split: if_splits)
  note w = rescue_walk_Inr [OF c(3) assms(2)]
  show "j' = j" "u_state (rc_original c) \<in> {ConflictU, FailedU}" "fmlookup (uploads j) i = Some (rc_original c)"
      "\<And>s. s \<in> set (rc_successors c) \<Longrightarrow> u_state s = PendingU"
    using c w by auto
  show "successor_chain j (map u_id (rc_saves c))"
    using w c(4) by (simp add: rc_saves_def)
  show i: "u_id (rc_original c) = i"
    using upload_rowD(1) [OF assms(2) c(1)] .
  have all: "\<forall>s \<in> set (rc_saves c). fmlookup (uploads j) (u_id s) = Some s"
    using w c(1,4) i by (auto simp: rc_saves_def)
  have "sorted_wrt (\<lambda>r r'. u_sequence r < u_sequence r') (rc_saves c)"
    using w c(4) by (simp add: rc_saves_def)
  then have "distinct (rc_saves c)"
    by (rule strictly_sorted_distinct)
  then show "rescuable c j"
    using all unfolding rescuable_def distinct_map inj_on_def by (metis option.inject)
qed

lemma keep_both_steps:
  assumes "journal_ok h j" "Settle \<in> T"
  shows "jsteps h T j (snd (keep_both h copy now i parent name j))"
  unfolding keep_both_def
proof (rule jsteps_jbind, simp)
  fix r j1
  assume "upload_get i j = (Inr r, j1)"
  then have [simp]: "j1 = j"
    by simp
  obtain j2 where j2: "resolve_ready_generations h j = (Inr (ready_rows j2 = []), j2)" "jsteps h T j j2" "journal_ok h j2"
    by (rule resolve_ready_steps [OF assms(1)])
  let ?enqueue = "\<lambda>c bytes. enqueue_generation h copy now (u_scope (rc_original c)) (Create parent name) no_order (Some c) [Inr bytes]"
  have "jsteps h T j2 (snd (jbind (prepare_saved i parent name j2) (\<lambda>c j. jbind (payload h (u_id (rc_latest c)) j) (?enqueue c))))"
  proof (rule jsteps_jbind)
    show "jsteps h T j2 (snd (prepare_saved i parent name j2))"
      by (cases "fmlookup (uploads j2) i") (auto simp: prepare_saved_def upload_get_def give_def fail_def)
  next
    fix c j3
    assume c: "prepare_saved i parent name j2 = (Inr c, j3)"
    have "tables_ok j2"
      using j2(3) by (simp add: journal_ok_def)
    then have "j3 = j2" "rescuable c j2"
      using prepare_saved_Inr [OF c] by simp_all
    then show "jsteps h T j3 (snd (jbind (payload h (u_id (rc_latest c)) j3) (?enqueue c)))"
      using j2(3) assms(2)
      by (auto intro!: jsteps_jbind enqueue_generation_steps dest!: payload_Inr_snd)
  qed
  then show "jsteps h T j1 (snd (if \<not> is_file_bytes (u_representation r) then fail JIntent j1
      else jbind (resolve_ready_generations h j1) (\<lambda>_ j. jbind (prepare_saved i parent name j) (\<lambda>c j.
        jbind (payload h (u_id (rc_latest c)) j) (?enqueue c)))))"
    using j2 by (auto intro: rtranclp_trans)
qed

section \<open>The machine\<close>

text \<open>The attempt tokens an operation may issue and the operation it may send again.\<close>

fun issued_permits :: "journal_op \<Rightarrow> permit set" where
  "issued_permits (ClaimNext now t) = {Token t}"
| "issued_permits (ClaimVerification i t) = {Token t}"
| "issued_permits (ClaimNextVerification now t) = {Token t}"
| "issued_permits (ClaimMutation now t) = {Token t}"
| "issued_permits (RetryVerifiedUncommitted i) = {Replay i}"
| "issued_permits (KeepBoth copy now i parent name) = {Settle}"
| "issued_permits (DeferPreparation now i t d) = {Replay i}"
| "issued_permits (RetryUncommittedMutation i t) = {Replay i}"
| "issued_permits _ = {}"

lemma enqueue_steps: "journal_ok h j \<Longrightarrow> jsteps h T j (snd (enqueue h i now s intent chunks j))"
  unfolding enqueue_def by (rule enqueue_generation_steps) auto

lemmas operation_steps = enqueue_steps enqueue_after_all_steps enqueue_mutation_steps
  enqueue_mutation_after_all_steps claim_next_steps claim_verification_steps claim_next_verification_steps
  claim_mutation_steps record_session_steps defer_attempt_steps retry_verified_uncommitted_steps request_retry_steps
  acknowledge_steps prune_steps record_prepared_steps acknowledge_mutation_steps defer_mutation_steps
  keep_both_steps defer_preparation_steps retry_uncommitted_steps request_mutation_retry_steps restart_steps

lemma journal_exec_steps:
  assumes "journal_ok h j"
  shows "jsteps h (issued_permits op) j (journal_exec h op j)"
  using assms by (cases op) (simp_all add: operation_steps)

end
