(* ===== verification/Journal_Facts.thy ===== *)
theory Journal_Facts
  imports Journal_Refinement
begin

text \<open>
  Facts about one record, one payload or one attempt token that survive every
  operation of the write journal: the interface \<open>journal_fact\<close> and its instances on the
  journal's steps, from which the guarantees follow.
\<close>

definition journal_run :: "host \<Rightarrow> journal_op list \<Rightarrow> journal \<Rightarrow> journal" where
  "journal_run h ops j = fold (journal_exec h) ops j"

interpretation jm: machine "journal_exec h" "journal_ok h" for h
  by unfold_locales (rule jsteps_ok [OF journal_exec_steps])

abbreviation reached :: "host \<Rightarrow> string \<Rightarrow> int \<Rightarrow> journal_op list \<Rightarrow> journal" where
  "reached h a q ops \<equiv> journal_run h ops (new_journal a q)"

lemma reached_ok: "journal_ok h (reached h a q ops)"
  unfolding journal_run_def by (rule jm.run_inv [OF journal_ok_new])

lemma run_ok: "journal_ok h j \<Longrightarrow> journal_ok h (journal_run h ops j)"
  unfolding journal_run_def by (rule jm.run_inv)

lemma upload_move_mono: "upload_move S r r' \<Longrightarrow> S \<subseteq> T \<Longrightarrow> upload_move T r r'"
  by (induction rule: upload_move.induct) (auto intro: upload_move.intros)

lemma mutation_move_mono: "mutation_move S r r' \<Longrightarrow> S \<subseteq> T \<Longrightarrow> mutation_move T r r'"
  by (induction rule: mutation_move.induct) (auto intro: mutation_move.intros)

lemma jstep_mono: "jstep h S j j' \<Longrightarrow> S \<subseteq> T \<Longrightarrow> jstep h T j j'"
  by (induction rule: jstep.induct) (auto intro: jstep.intros upload_move_mono mutation_move_mono)

section \<open>Facts that survive\<close>

text \<open>
  A fact that every step with the permits \<open>T\<close> keeps survives every run of operations
  that issue no other permit. The clients below are facts about one record, one
  payload, one attempt token.
\<close>

locale journal_fact =
  fixes h :: host and T :: "permit set" and fact :: "journal \<Rightarrow> bool"
  assumes kept: "journal_ok h j \<Longrightarrow> fact j \<Longrightarrow> jstep h T j j' \<Longrightarrow> fact j'"
begin

lemma steps_kept: "jsteps h T j j' \<Longrightarrow> journal_ok h j \<Longrightarrow> fact j \<Longrightarrow> fact j' \<and> journal_ok h j'"
  by (induction rule: rtranclp_induct) (auto intro: kept journal_ok_step)

lemma exec_kept:
  assumes "journal_ok h j" "fact j" "issued_permits op \<subseteq> T"
  shows "fact (journal_exec h op j)"
  using steps_kept [OF rtranclp_mono [THEN predicate2D, OF _ journal_exec_steps [OF assms(1)]] assms(1,2)] jstep_mono assms(3)
  by blast

lemma run_kept:
  assumes "journal_ok h j" "fact j" "\<Union> (issued_permits ` set ops) \<subseteq> T"
  shows "fact (journal_run h ops j)"
  using assms
proof (induction ops arbitrary: j)
  case (Cons op ops)
  then show ?case
    using exec_kept [of j op] jm.exec_inv [of h j op] by (simp add: journal_run_def)
qed (simp add: journal_run_def)

end

text \<open>A step changes at most one record, and only along its life cycle.\<close>

lemma jstep_upload:
  assumes "jstep h T j j'" "tables_ok j" "fmlookup (uploads j) i = Some r"
  obtains (same) "fmlookup (uploads j') i = Some r"
  | (moved) r' where "fmlookup (uploads j') i = Some r'" "upload_move T r r'"
  | (rebound) r' b intent where "fmlookup (uploads j') i = Some r'" "u_state r = PendingU \<or> u_state r = PreparingU"
      "u_base r = Some b" "r' = r\<lparr>u_intent := intent, u_base := Some (b\<lparr>resolved := True\<rparr>)\<rparr>"
  | (recovered) "fmlookup (uploads j') i = Some (restart_upload r)"
  using assms(1)
proof (cases rule: jstep.cases)
  case (Upload_saved k s s')
  then show thesis
    using assms(3) upload_rowD(1) [OF assms(2) Upload_saved(2)] upload_move_same [OF Upload_saved(3)] same moved
    by (cases "k = i") (auto simp: same_save_def)
next
  case (Upload_rebound k s b n intent s')
  then show thesis
    using assms(3) same rebound by (cases "k = i") auto
next
  case (Upload_admitted s ps bytes)
  then show thesis
    using assms(3) no_rowD(1) [OF assms(2), of "u_id s"] same by (cases "u_id s = i") (auto simp: admissible_def)
qed (use assms(3) same recovered in auto)

lemma jstep_mutation:
  assumes "jstep h T j j'" "tables_ok j" "fmlookup (mutations j) i = Some r"
  obtains (same) "fmlookup (mutations j') i = Some r"
  | (moved) r' where "fmlookup (mutations j') i = Some r'" "mutation_move T r r'"
  | (rebound) r' q b where "fmlookup (mutations j') i = Some r'" "m_state r = PendingM"
      "r' = r\<lparr>m_request := q, m_base := Some (b\<lparr>resolved := True\<rparr>)\<rparr>" "m_base r = Some b"
  | (recovered) "fmlookup (mutations j') i = Some (restart_mutation r)"
  using assms(1)
proof (cases rule: jstep.cases)
  case (Mutation_saved k s s')
  then show thesis
    using assms(3) mutation_rowD(1) [OF assms(2) Mutation_saved(2)] mutation_move_same [OF Mutation_saved(3)] same moved
    by (cases "k = i") (auto simp: same_change_def)
next
  case (Mutation_rebound k s b n q keys s')
  then show thesis
    using assms(3) same rebound by (cases "k = i") auto
next
  case (Mutation_admitted s ps keys)
  then show thesis
    using assms(3) no_rowD(2) [OF assms(2), of "m_id s"] same by (cases "m_id s = i") (auto simp: admissible_def)
qed (use assms(3) same recovered in auto)

lemma same_save_trans: "same_save r s \<Longrightarrow> same_save s t \<Longrightarrow> same_save r t"
  by (auto simp: same_save_def)

lemma same_save_restart: "same_save r (restart_upload r)"
  by (simp add: same_save_def restart_upload_def)

definition keeps_save :: "uuid \<Rightarrow> upload_record \<Rightarrow> string \<Rightarrow> journal \<Rightarrow> bool" where
  "keeps_save i r0 bytes j \<longleftrightarrow> (\<exists>r. fmlookup (uploads j) i = Some r \<and> same_save r0 r
     \<and> (u_state r = UploadedU \<or> fmlookup (objects j) i = Some bytes))"

lemma objects_step:
  assumes "jstep h T j j'" "tables_ok j" "fmlookup (objects j) i = Some bytes"
  shows "fmlookup (objects j') i = Some bytes \<or> (\<exists>r. fmlookup (uploads j') i = Some r \<and> u_state r = UploadedU)"
  using assms(1) by (cases rule: jstep.cases) (use assms(3) in auto)

lemma keeps_save_step:
  assumes "journal_ok h j" "keeps_save i r0 bytes j" "jstep h T j j'"
  shows "keeps_save i r0 bytes j'"
proof -
  have ok: "tables_ok j"
    using assms(1) by (simp add: journal_ok_def)
  obtain r where r: "fmlookup (uploads j) i = Some r" "same_save r0 r" "u_state r = UploadedU \<or> fmlookup (objects j) i = Some bytes"
    using assms(2) by (auto simp: keeps_save_def)
  have "\<exists>r'. fmlookup (uploads j') i = Some r' \<and> same_save r r' \<and> (u_state r = UploadedU \<longrightarrow> u_state r' = UploadedU)"
    using assms(3) ok r(1)
  proof (cases rule: jstep_upload)
    case (moved r')
    then show ?thesis
      using upload_move_same upload_move_final by blast
  qed (auto simp: same_save_def restart_upload_def)
  then show ?thesis
    using r(2,3) objects_step [OF assms(3) ok, of i bytes] same_save_trans unfolding keeps_save_def by (metis option.inject)
qed

interpretation ks: journal_fact h UNIV "keeps_save i r0 bytes" for h i r0 bytes
  by unfold_locales (rule keeps_save_step)

text \<open>Finished operations never change; a conflict ends only when the user keeps both copies.\<close>

definition final_upload :: "permit set \<Rightarrow> upload_record \<Rightarrow> bool" where
  "final_upload T r \<longleftrightarrow> u_state r \<in> {UploadedU, ResolvedU} \<or> u_state r = ConflictU \<and> Settle \<notin> T"

lemma final_upload_step:
  assumes "journal_ok h j" "fmlookup (uploads j) i = Some r \<and> final_upload T r" "jstep h T j j'"
  shows "fmlookup (uploads j') i = Some r \<and> final_upload T r"
proof -
  have ok: "tables_ok j" and r: "fmlookup (uploads j) i = Some r"
    using assms(1,2) by (simp_all add: journal_ok_def)
  show ?thesis
    using assms(3) ok r
  proof (cases rule: jstep_upload)
    case (moved r')
    then show ?thesis
      using upload_move_final [OF moved(2)] assms(2) by (auto simp: final_upload_def)
  qed (use assms(2) in \<open>auto simp: restart_upload_def final_upload_def\<close>)
qed

lemma final_mutation_step:
  assumes "journal_ok h j" "fmlookup (mutations j) i = Some r \<and> m_state r \<in> {AppliedM, ConflictM}" "jstep h T j j'"
  shows "fmlookup (mutations j') i = Some r \<and> m_state r \<in> {AppliedM, ConflictM}"
proof -
  have ok: "tables_ok j" and r: "fmlookup (mutations j) i = Some r"
    using assms(1,2) by (simp_all add: journal_ok_def)
  show ?thesis
    using assms(3) ok r
  proof (cases rule: jstep_mutation)
    case (moved r')
    then show ?thesis
      using mutation_move_final [OF moved(2)] assms(2) by auto
  qed (use assms(2) in \<open>auto simp: restart_mutation_def\<close>)
qed

interpretation fu: journal_fact h T "\<lambda>j. fmlookup (uploads j) i = Some r \<and> final_upload T r" for h T i r
  by unfold_locales (rule final_upload_step)

interpretation fc: journal_fact h UNIV "\<lambda>j. fmlookup (mutations j) i = Some r \<and> m_state r \<in> {AppliedM, ConflictM}" for h i r
  by unfold_locales (rule final_mutation_step)

text \<open>Attempt tokens.\<close>

definition active_tokens :: "journal \<Rightarrow> uuid list" where
  "active_tokens j = List.map_filter u_attempt (fm_values (uploads j)) @ List.map_filter m_attempt (fm_values (mutations j))"

lemma active_tokens_iff:
  "t \<in> set (active_tokens j) \<longleftrightarrow> (\<exists>i r. fmlookup (uploads j) i = Some r \<and> u_attempt r = Some t)
     \<or> (\<exists>i r. fmlookup (mutations j) i = Some r \<and> m_attempt r = Some t)"
  by (force simp: active_tokens_def List.map_filter_def set_fm_values)

lemma move_token:
  "upload_move T r r' \<Longrightarrow> u_attempt r' = Some t \<Longrightarrow> u_attempt r = Some t \<or> Token t \<in> T"
  "mutation_move T m m' \<Longrightarrow> m_attempt m' = Some t \<Longrightarrow> m_attempt m = Some t \<or> Token t \<in> T"
  by (auto simp: upload_move_iff mutation_move_iff)

lemma fenced_step:
  assumes "journal_ok h j" "t \<notin> set (active_tokens j)" "jstep h (- {Token t}) j j'"
  shows "t \<notin> set (active_tokens j')"
proof -
  have u: "u_attempt r \<noteq> Some t" if "fmlookup (uploads j) i = Some r" for i r
    using assms(2) that by (auto simp: active_tokens_iff)
  have m: "m_attempt r \<noteq> Some t" if "fmlookup (mutations j) i = Some r" for i r
    using assms(2) that by (auto simp: active_tokens_iff)
  show ?thesis
    using assms(3)
  proof (cases rule: jstep.cases)
    case (Upload_saved i r r')
    then show ?thesis
      using u m move_token(1) [OF Upload_saved(3), of t] by (auto simp: active_tokens_iff split: if_splits)
  next
    case (Mutation_saved i r r')
    then show ?thesis
      using u m move_token(2) [OF Mutation_saved(3), of t] by (auto simp: active_tokens_iff split: if_splits)
  qed (use u m in \<open>auto simp: active_tokens_iff restart_upload_def restart_mutation_def split: if_splits\<close>)
qed

interpretation ft: journal_fact h "- {Token t}" "\<lambda>j. t \<notin> set (active_tokens j)" for h t
  by unfold_locales (rule fenced_step)

lemma restart_no_tokens:
  assumes "journal_ok h j"
  shows "t \<notin> set (active_tokens (restart j))"
proof -
  have "u_attempt (restart_upload r) = None" if "upload_ok r" for r
    using that by (auto simp: upload_ok_def restart_upload_def upload_in_flight_def)
  moreover have "m_attempt (restart_mutation r) = None" if "mutation_ok r" for r
    using that by (auto simp: mutation_ok_def restart_mutation_def mutation_in_flight_def)
  ultimately show ?thesis
    using assms by (fastforce simp: active_tokens_iff journal_ok_def records_ok_def)
qed

text \<open>What a worker may call with an attempt token.\<close>

datatype attempt_call = CallSession uuid int | CallDefer int upload_state int | CallAcknowledge node
  | CallPrepared string | CallAnswer mutation_receipt "verified_mutation_content option"
  | CallDeferMutation int mutation_state int | CallDeferPreparation int int | CallRetry

fun attempt_exec :: "uuid \<Rightarrow> uuid \<Rightarrow> attempt_call \<Rightarrow> journal \<Rightarrow> (journal_error option) \<times> journal" where
  "attempt_exec i t (CallSession k n) j = (case record_session i t k n j of (v, j') \<Rightarrow> (case_sum Some (\<lambda>_. None) v, j'))"
| "attempt_exec i t (CallDefer now st d) j = (case defer_attempt now i t st d j of (v, j') \<Rightarrow> (case_sum Some (\<lambda>_. None) v, j'))"
| "attempt_exec i t (CallAcknowledge n) j = (case acknowledge i t n j of (v, j') \<Rightarrow> (case_sum Some (\<lambda>_. None) v, j'))"
| "attempt_exec i t (CallPrepared item) j = (case record_prepared_mutation i t item j of (v, j') \<Rightarrow> (case_sum Some (\<lambda>_. None) v, j'))"
| "attempt_exec i t (CallAnswer receipt proof) j =
     (case acknowledge_mutation_evidence i t receipt proof j of (v, j') \<Rightarrow> (case_sum Some (\<lambda>_. None) v, j'))"
| "attempt_exec i t (CallDeferMutation now st d) j = (case defer_mutation now i t st d j of (v, j') \<Rightarrow> (case_sum Some (\<lambda>_. None) v, j'))"
| "attempt_exec i t (CallDeferPreparation now d) j = (case defer_mutation_preparation now i t d j of (v, j') \<Rightarrow> (case_sum Some (\<lambda>_. None) v, j'))"
| "attempt_exec i t CallRetry j = (case retry_uncommitted_mutation i t j of (v, j') \<Rightarrow> (case_sum Some (\<lambda>_. None) v, j'))"

lemma fenced_attempt:
  assumes "t \<notin> set (active_tokens j)"
  shows "\<exists>e. active_attempt i t j = (Inl e, j)" "\<exists>e. mutation_attempt i t j = (Inl e, j)"
proof -
  show "\<exists>e. active_attempt i t j = (Inl e, j)"
    using attempt_eq(1,3) [of i t j] assms
    by (cases "active_attempt i t j"; cases "fst (active_attempt i t j)") (fastforce simp: active_tokens_iff)+
  show "\<exists>e. mutation_attempt i t j = (Inl e, j)"
    using attempt_eq(2,4) [of i t j] assms
    by (cases "mutation_attempt i t j"; cases "fst (mutation_attempt i t j)") (fastforce simp: active_tokens_iff)+
qed

lemma fenced_call:
  assumes "t \<notin> set (active_tokens j)"
  shows "\<exists>e. attempt_exec i t call j = (Some e, j)"
proof -
  obtain e e' where "active_attempt i t j = (Inl e, j)" "mutation_attempt i t j = (Inl e', j)"
    using fenced_attempt [OF assms] by blast
  then show ?thesis
    by (cases call) (simp_all add: record_session_def defer_attempt_def acknowledge_def record_prepared_mutation_def
        acknowledge_mutation_evidence_def defer_mutation_def defer_mutation_preparation_def retry_uncommitted_mutation_def fail_def)
qed

text \<open>An operation that left the pending state returns there only by an explicit replay.\<close>

lemma left_pending_step:
  assumes "journal_ok h j" "\<exists>r. fmlookup (uploads j) i = Some r \<and> u_state r \<noteq> PendingU" "jstep h (- {Replay i}) j j'"
  shows "\<exists>r. fmlookup (uploads j') i = Some r \<and> u_state r \<noteq> PendingU"
proof -
  obtain r where r: "fmlookup (uploads j) i = Some r" "u_state r \<noteq> PendingU"
    using assms(2) by blast
  have ok: "tables_ok j" and "u_id r = i"
    using assms(1) r(1) upload_rowD(1) by (auto simp: journal_ok_def)
  show ?thesis
    using assms(3) ok r(1)
  proof (cases rule: jstep_upload)
    case (moved r')
    then show ?thesis
      using r(2) \<open>u_id r = i\<close> by (auto simp: upload_move_iff)
  qed (use r(2) in \<open>auto simp: restart_upload_def\<close>)
qed

lemma left_pending_mutation_step:
  assumes "journal_ok h j" "\<exists>r. fmlookup (mutations j) i = Some r \<and> m_state r \<noteq> PendingM" "jstep h (- {Replay i}) j j'"
  shows "\<exists>r. fmlookup (mutations j') i = Some r \<and> m_state r \<noteq> PendingM"
proof -
  obtain r where r: "fmlookup (mutations j) i = Some r" "m_state r \<noteq> PendingM"
    using assms(2) by blast
  have ok: "tables_ok j" and "m_id r = i"
    using assms(1) r(1) mutation_rowD(1) by (auto simp: journal_ok_def)
  show ?thesis
    using assms(3) ok r(1)
  proof (cases rule: jstep_mutation)
    case (moved r')
    then show ?thesis
      using r(2) \<open>m_id r = i\<close> by (auto simp: mutation_move_iff)
  qed (use r(2) in \<open>auto simp: restart_mutation_def\<close>)
qed

interpretation lp: journal_fact h "- {Replay i}" "\<lambda>j. \<exists>r. fmlookup (uploads j) i = Some r \<and> u_state r \<noteq> PendingU" for h i
  by unfold_locales (rule left_pending_step)

interpretation lm: journal_fact h "- {Replay i}" "\<lambda>j. \<exists>r. fmlookup (mutations j) i = Some r \<and> m_state r \<noteq> PendingM" for h i
  by unfold_locales (rule left_pending_mutation_step)

text \<open>The spool.\<close>

definition spool_bounded :: "int \<Rightarrow> journal \<Rightarrow> bool" where
  "spool_bounded q j \<longleftrightarrow> j_quota j = q \<and> total_length (fm_values (objects j)) \<le> max 0 q \<and> length (fm_values (objects j)) \<le> 10000"

lemma total_length_sum:
  "total_length (fm_values t) = (\<Sum>k \<in> fset (fmdom t). int (length (the (fmlookup t k))))"
  by (simp add: total_length_def fm_values_eq comp_def sum_list_distinct_conv_sum_set sorted_list_of_fset.rep_eq)

lemma length_fm_values: "length (fm_values t) = fcard (fmdom t)"
  by (simp add: fm_values_eq sorted_list_of_fset.rep_eq fcard.rep_eq)

lemma total_length_upd:
  "fmlookup t i = None \<Longrightarrow> total_length (fm_values (fmupd i b t)) = total_length (fm_values t) + int (length b)"
  unfolding total_length_sum by (subst fmdom_fmupd) (auto simp: fmlookup_dom_iff intro!: sum.cong)

lemma total_length_drop: "total_length (fm_values (fmdrop i t)) \<le> total_length (fm_values t)"
  unfolding total_length_sum by (auto intro!: sum_mono2 intro: order_trans [OF eq_refl sum_mono2] simp: fmlookup_dom_iff)

lemma length_upd: "fmlookup t i = None \<Longrightarrow> length (fm_values (fmupd i b t)) = Suc (length (fm_values t))"
  by (simp add: length_fm_values fcard_finsert_disjoint fmlookup_dom_iff)

lemma length_drop_le: "length (fm_values (fmdrop i t)) \<le> length (fm_values t)"
  by (auto simp: length_fm_values intro!: fcard_mono)

lemma quota_step: "jstep h T j j' \<Longrightarrow> j_quota j' = j_quota j"
  by (induction rule: jstep.induct) (simp_all add: put_upload_def put_mutation_def admit_def add_resources_def restart_def)

lemma spool_step:
  assumes "journal_ok h j" "spool_bounded q j" "jstep h T j j'"
  shows "spool_bounded q j'"
proof -
  have q: "j_quota j' = q"
    using quota_step [OF assms(3)] assms(2) by (simp add: spool_bounded_def)
  show ?thesis
    using assms(3)
  proof (cases rule: jstep.cases)
    case (Published i bytes)
    then show ?thesis
      using assms(2) by (auto simp: spool_bounded_def spool_fits_def total_length_upd length_upd)
  next
    case (Pruned i r)
    then show ?thesis
      using assms(2) total_length_drop [of i "objects j"] length_drop_le [of i "objects j"]
      by (auto simp: spool_bounded_def)
  qed (use assms(2) q in \<open>auto simp: spool_bounded_def\<close>)
qed

interpretation sb: journal_fact h UNIV "spool_bounded q" for h q
  by unfold_locales (rule spool_step)

end
