(* ===== verification/Journal_Guarantees.thy ===== *)
theory Journal_Guarantees
  imports Journal_Facts
begin

text \<open>
  What callers of the write journal may rely on, for every sequence of operations on a
  journal that started empty: the journal stays well formed, an accepted save is
  never lost, an attempt that was fenced off is refused for ever, nothing is sent
  twice on a guess, and operations reach the provider in the order of the queue.
\<close>

section \<open>Guarantees\<close>

text \<open>C15: After every sequence of calls the journal is well formed: its tables agree, a queue row is complete
  exactly when its operation is confirmed, sequence numbers are unique, every prerequisite and every
  predecessor was queued earlier, an attempt token exists exactly while an operation is in flight, the
  payload of every save that is not uploaded is in the spool with its recorded size and digest, and a
  resolved save names the item and version its predecessor's receipt confirmed.\<close>

theorem journal_well_formed: "journal_ok h (reached h a q ops)"
  by (rule reached_ok)

text \<open>C14: Every call, whatever it returns, moves the journal only along the abstract steps: life-cycle moves
  of one save or one change, rebinding to a confirmed receipt, admission behind the queue, publication
  of a payload within the quota, pruning of an uploaded payload, and recovery. Attempt tokens come
  only from claims, and an operation is made pending again only by the calls that name it for a
  replay.\<close>

theorem journal_refines_spec:
  "(jstep h (issued_permits op))\<^sup>*\<^sup>* (reached h a q ops) (journal_exec h op (reached h a q ops))"
  by (rule journal_exec_steps [OF reached_ok])

lemma kept_payload:
  assumes "keeps_save i r0 bytes j" "u_size r0 = int (length bytes)" "u_sha256 r0 = sha256 h bytes" "length (sha256 h bytes) = 64"
    "journal_ok h j" "fmlookup (uploads j) i = Some r" "u_state r \<noteq> UploadedU"
  shows "payload h i j = (Inr bytes, j)"
proof -
  have "upload_ok r"
    using assms(5,6) by (auto simp: journal_ok_def records_ok_def)
  then show ?thesis
    using assms by (auto simp: keeps_save_def payload_def upload_get_def give_def same_save_def upload_ok_def)
qed

lemma copied_bytes:
  "copy_loop a (map Inr chunks) acc = Inr bytes \<Longrightarrow> [] \<notin> set chunks \<Longrightarrow> bytes = acc @ concat chunks"
  by (induction chunks arbitrary: acc) (fastforce simp: Let_def split: if_splits)+

lemma accepted_kept:
  assumes "enqueue h i now s intent (map Inr chunks) (reached h a q ops) = (Inr r, j)" "[] \<notin> set chunks"
  shows "journal_ok h j" "keeps_save i r (concat chunks) j" "u_size r = int (length (concat chunks))" "u_sha256 r = sha256 h (concat chunks)"
proof -
  obtain bytes kept where b: "copy_loop (max 0 (j_quota (reached h a q ops) - kept)) (map Inr chunks) [] = Inr bytes"
      "keeps_save i r bytes j" "u_size r = int (length bytes)" "u_sha256 r = sha256 h bytes"
    by (rule enqueue_generation_Inr [OF assms(1) [unfolded enqueue_def] reached_ok, where T = UNIV])
      (auto simp: keeps_save_def same_save_def)
  moreover have "bytes = concat chunks"
    using copied_bytes [OF b(1) assms(2)] by simp
  ultimately show "keeps_save i r (concat chunks) j" "u_size r = int (length (concat chunks))" "u_sha256 r = sha256 h (concat chunks)"
    by simp_all
  show "journal_ok h j"
    using jm.exec_inv [OF reached_ok, where op = "Enqueue i now s intent (map Inr chunks)"] assms(1)
    by (metis journal_exec.simps(1) snd_conv)
qed

text \<open>C4: Once a save was accepted it is never lost: after any later calls, restarts included, its record is
  still there with the same identity, place in the queue, size and digest, and until it is uploaded
  reading its payload returns exactly the bytes that were saved.\<close>

theorem accepted_save_survives:
  assumes "enqueue h i now s intent (map Inr chunks) (reached h a q ops) = (Inr r, j)" "[] \<notin> set chunks"
    "\<forall>x. length (sha256 h x) = 64"
  shows "\<exists>r'. fmlookup (uploads (journal_run h later j)) i = Some r' \<and> same_save r r'
    \<and> (u_state r' \<noteq> UploadedU \<longrightarrow> payload h i (journal_run h later j) = (Inr (concat chunks), journal_run h later j))"
proof -
  note saved = accepted_kept [OF assms(1,2)]
  have keep: "keeps_save i r (concat chunks) (journal_run h later j)"
    by (rule ks.run_kept [OF saved(1,2)]) simp
  then obtain r' where "fmlookup (uploads (journal_run h later j)) i = Some r'" "same_save r r'"
    by (auto simp: keeps_save_def)
  then show ?thesis
    using kept_payload [OF keep saved(3,4) _ run_ok [OF saved(1)]] assms(3) by auto
qed

text \<open>An uploaded save, a save the user resolved, and an applied or conflicting namespace change
  never change again, whatever is called later; a conflicting save stays as it is until the user keeps
  both copies.\<close>

theorem finished_operations_final:
  "(\<forall>r. fmlookup (uploads (reached h a q ops)) i = Some r \<longrightarrow>
      u_state r \<in> {UploadedU, ResolvedU} \<or> u_state r = ConflictU \<and> Settle \<notin> \<Union> (issued_permits ` set later)
      \<longrightarrow> fmlookup (uploads (reached h a q (ops @ later))) i = Some r)
   \<and> (\<forall>r. fmlookup (mutations (reached h a q ops)) i = Some r \<longrightarrow> m_state r \<in> {AppliedM, ConflictM}
      \<longrightarrow> fmlookup (mutations (reached h a q (ops @ later))) i = Some r)"
proof -
  have "reached h a q (ops @ later) = journal_run h later (reached h a q ops)"
    by (simp add: journal_run_def)
  then show ?thesis
    using fu.run_kept [OF reached_ok, where ops = later and T = "\<Union> (issued_permits ` set later)"]
      fc.run_kept [OF reached_ok, where ops = later] by (auto simp: final_upload_def)
qed

text \<open>C13: After a restart every attempt handed out before is void: as long as no later claim issues the same
  token, whatever a worker calls with it is refused and changes nothing.\<close>

theorem restart_fences_attempts:
  assumes "Token t \<notin> \<Union> (issued_permits ` set later)"
  shows "\<exists>e. attempt_exec i t call (journal_run h later (restart (reached h a q ops))) =
    (Some e, journal_run h later (restart (reached h a q ops)))"
proof -
  have "t \<notin> set (active_tokens (journal_run h later (restart (reached h a q ops))))"
    using ft.run_kept [OF jsteps_ok [OF restart_steps reached_ok] restart_no_tokens [OF reached_ok], where ops = later] assms
    by blast
  then show ?thesis
    by (rule fenced_call)
qed

text \<open>An operation that was claimed once, or failed, returns to the pending state, from which it would be
  sent again, only through a call that names it as proved uncommitted: neither restarts nor retries by
  the user nor other claims replay it.\<close>

theorem never_replayed_blindly:
  assumes "Replay i \<notin> \<Union> (issued_permits ` set later)"
  shows "(\<forall>r. fmlookup (uploads (reached h a q ops)) i = Some r \<longrightarrow> u_state r \<noteq> PendingU \<longrightarrow>
      (\<exists>r'. fmlookup (uploads (reached h a q (ops @ later))) i = Some r' \<and> u_state r' \<noteq> PendingU))
    \<and> (\<forall>r. fmlookup (mutations (reached h a q ops)) i = Some r \<longrightarrow> m_state r \<noteq> PendingM \<longrightarrow>
      (\<exists>r'. fmlookup (mutations (reached h a q (ops @ later))) i = Some r' \<and> m_state r' \<noteq> PendingM))"
proof -
  have run: "reached h a q (ops @ later) = journal_run h later (reached h a q ops)"
    by (simp add: journal_run_def)
  show ?thesis
    unfolding run using lp.run_kept [OF reached_ok, where ops = later and i = i] lm.run_kept [OF reached_ok, where ops = later and i = i] assms
    by blast
qed


lemma claim_next_Some:
  assumes "journal_ok h j" "claim_next h now t j = (Inr (Some r), j')"
  obtains j1 r1 bytes where "journal_ok h j1" "jsteps h {} j j1" "r1 \<in> set (claimable PendingU now j1)" "payload h (u_id r1) j1 = (Inr bytes, j1)"
    "r = r1\<lparr>u_state := UploadingU, u_attempt := Some t\<rparr>" "j' = put_upload r j1" "ready_rows j1 = []"
    "claimable PendingU now j1 \<noteq> []" "r1 = hd (claimable PendingU now j1)"
proof (rule resolve_ready_steps [OF assms(1), of "{}"])
  fix j1
  assume res: "resolve_ready_generations h j = (Inr (ready_rows j1 = []), j1)" "jsteps h {} j j1" "journal_ok h j1"
  show thesis
  proof (cases "ready_rows j1 = [] \<and> claimable PendingU now j1 \<noteq> []")
    case True
    then obtain r1 rs where c: "claimable PendingU now j1 = r1 # rs"
      by (cases "claimable PendingU now j1") auto
    then have r1: "fmlookup (uploads j1) (u_id r1) = Some r1"
      using claimable_iff [of j1 r1 PendingU now] res(3) by (simp add: journal_ok_def)
    let ?r = "r1\<lparr>u_state := UploadingU, u_attempt := Some t\<rparr>"
    have save: "upload_save ?r j1 = (Inr (), put_upload ?r j1)"
      using upload_save_eq [of j1 ?r r1] res(3) r1 by (simp add: journal_ok_def)
    show thesis
    proof (cases "fst (payload h (u_id r1) j1)")
      case (Inl e)
      then show thesis
        using assms(2) True c res(1) payload_snd [of h "u_id r1" j1]
        by (cases "payload h (u_id r1) j1") (auto simp: claim_next_def jbind_def fail_def split: sum.splits prod.splits)
    next
      case (Inr bytes)
      then have p: "payload h (u_id r1) j1 = (Inr bytes, j1)"
        using payload_snd [of h "u_id r1" j1] by (cases "payload h (u_id r1) j1") auto
      have "r = ?r" "j' = put_upload r j1"
        using assms(2) True c res(1) save p by (auto simp: claim_next_def Let_def)
      then show thesis
        using True c by (intro that [OF res(3,2) _ p]) simp_all
    qed
  qed (use assms(2) res(1) in \<open>auto simp: claim_next_def split: if_splits\<close>)
qed

lemma shared_target_blocks:
  assumes "bindings_ok h j" "fmlookup (uploads j) i = Some r" "fmlookup (uploads j) i' = Some r'"
    "set (upload_resources h (u_scope r) (u_intent r)) \<inter> set (upload_resources h (u_scope r') (u_intent r')) \<noteq> {}"
    "u_id r = i" "u_id r' = i'"
  shows "shares_resource j i i'"
proof -
  obtain k where "(i, k) |\<in>| write_resources j" "(i', k) |\<in>| write_resources j"
    using assms bindingsD(1) [OF assms(1)] unfolding bound_upload_def by fastforce
  then show ?thesis
    by (auto simp: shares_resource_def intro!: fBexI [of _ "(i, k)"])
qed

lemma shared_mutation_blocks:
  assumes "bindings_ok h j" "fmlookup (mutations j) i = Some m" "base_settled (m_base m)" "fmlookup (uploads j) i' = Some r'"
    "mutation_resources h (m_request m) = Inr keys" "set keys \<inter> set (upload_resources h (u_scope r') (u_intent r')) \<noteq> {}"
    "m_id m = i" "u_id r' = i'"
  shows "shares_resource j i i'"
proof -
  obtain k where "(i, k) |\<in>| write_resources j" "(i', k) |\<in>| write_resources j"
    using assms bindingsD [OF assms(1)] unfolding bound_upload_def bound_mutation_def by fastforce
  then show ?thesis
    by (auto simp: shares_resource_def intro!: fBexI [of _ "(i, k)"])
qed

lemma unblocked_complete:
  assumes "\<not> blocked_by_earlier j i sq" "fmlookup (write_queue j) p = Some q" "q_sequence q < sq" "shares_resource j p i"
  shows "q_complete q"
  using assms unfolding blocked_by_earlier_def
  by (metis (no_types, lifting) fBexI fmdomI option.simps(5))

text \<open>C12: A save that is handed out for upload is due: every earlier save and every earlier settled namespace
  change that touches the same item or name is finished (uploaded, applied, or resolved by the user), all its prerequisites are complete, and if
  it follows another operation it replaces exactly the item and version that operation's receipt
  confirmed.\<close>

theorem claimed_save_in_order:
  assumes "claim_next h now t (reached h a q ops) = (Inr (Some r), j)"
  shows "(\<forall>i r'. fmlookup (uploads j) i = Some r' \<longrightarrow> u_sequence r' < u_sequence r \<longrightarrow>
        set (upload_resources h (u_scope r') (u_intent r')) \<inter> set (upload_resources h (u_scope r) (u_intent r)) \<noteq> {}
        \<longrightarrow> u_state r' \<in> {UploadedU, ResolvedU})
    \<and> (\<forall>i m keys. fmlookup (mutations j) i = Some m \<longrightarrow> m_sequence m < u_sequence r \<longrightarrow> base_settled (m_base m) \<longrightarrow>
        mutation_resources h (m_request m) = Inr keys \<longrightarrow>
        set keys \<inter> set (upload_resources h (u_scope r) (u_intent r)) \<noteq> {} \<longrightarrow> m_state m = AppliedM)
    \<and> (\<forall>p. (u_id r, p) |\<in>| write_prerequisites j \<longrightarrow> complete_of j p)
    \<and> (\<forall>b. u_base r = Some b \<longrightarrow> (\<exists>n tag. confirmed j (predecessor b) = Some n \<and> etag n = Some tag
        \<and> u_intent r = Replace (node_id n) tag))"
proof (rule claim_next_Some [OF reached_ok assms])
  fix j1 r1 bytes
  assume c: "journal_ok h j1" "jsteps h {} (reached h a q ops) j1" "r1 \<in> set (claimable PendingU now j1)" "payload h (u_id r1) j1 = (Inr bytes, j1)"
    "r = r1\<lparr>u_state := UploadingU, u_attempt := Some t\<rparr>" "j = put_upload r j1"
  have ok: "tables_ok j1" "bindings_ok h j1"
    using c(1) by (simp_all add: journal_ok_def)
  have r1: "fmlookup (uploads j1) (u_id r1) = Some r1" "u_state r1 = PendingU" and e: "eligible j1 now (u_id r1) (u_sequence r1) (u_base r1) (u_retry_at r1)"
    using c(3) claimable_iff [OF ok(1)] by simp_all
  have free: "\<not> blocked_by_earlier j1 (u_id r1) (u_sequence r1)" "barriers_satisfied j1 (u_id r1)" "base_settled (u_base r1)"
    using e by (simp_all add: eligible_def)
  have id: "u_id r = u_id r1" and [simp]: "u_sequence r = u_sequence r1" "u_scope r = u_scope r1" "u_intent r = u_intent r1" "u_base r = u_base r1"
    using c(5) by simp_all
  have complete: "complete_of j p = complete_of j1 p" for p
    using complete_put(1) [OF ok(1), of r r1 p] r1 c(5,6) by (simp add: upload_done_def)
  show ?thesis
  proof (intro conjI allI impI)
    fix i r'
    assume a: "fmlookup (uploads j) i = Some r'" "u_sequence r' < u_sequence r"
      "set (upload_resources h (u_scope r') (u_intent r')) \<inter> set (upload_resources h (u_scope r) (u_intent r)) \<noteq> {}"
    then have r': "fmlookup (uploads j1) i = Some r'"
      using c(5,6) id by (auto split: if_splits)
    then show "u_state r' \<in> {UploadedU, ResolvedU}"
      using unblocked_complete [OF free(1) upload_rowD(2) [OF ok(1) r']] shared_target_blocks [OF ok(2) r' r1(1)] a(2,3)
        upload_rowD(1) [OF ok(1) r'] by (simp add: upload_done_def)
  next
    fix i m keys
    assume a: "fmlookup (mutations j) i = Some m" "m_sequence m < u_sequence r" "base_settled (m_base m)"
      "mutation_resources h (m_request m) = Inr keys" "set keys \<inter> set (upload_resources h (u_scope r) (u_intent r)) \<noteq> {}"
    then have m: "fmlookup (mutations j1) i = Some m"
      using c(6) by simp
    then show "m_state m = AppliedM"
      using unblocked_complete [OF free(1) mutation_rowD(2) [OF ok(1) m]] shared_mutation_blocks [OF ok(2) m a(3) r1(1) a(4)] a(2,5)
        mutation_rowD(1) [OF ok(1) m] by simp
  next
    fix p
    assume "(u_id r, p) |\<in>| write_prerequisites j"
    then show "complete_of j p"
      using free(2) c(6) id unfolding complete by (auto simp: barriers_satisfied_def)
  next
    fix b
    assume b: "u_base r = Some b"
    then have "\<exists>n tag. confirmed j1 (predecessor b) = Some n \<and> etag n = Some tag \<and> u_intent r1 = Replace (node_id n) tag"
      using bindingsD(1) [OF ok(2) r1(1)] free(3) by (auto simp: bound_upload_def base_settled_def)
    moreover have "jstep h {Token t} j1 j"
      using upload_save_steps(2) [OF c(1) r1(1) upload_move.Claimed [OF r1(2) free(3), of t]] c(5,6) by simp
    ultimately show "\<exists>n tag. confirmed j (predecessor b) = Some n \<and> etag n = Some tag \<and> u_intent r = Replace (node_id n) tag"
      using confirmed_step [OF _ ok(1)] by auto
  qed
qed

lemma first_of_sorted:
  assumes "x \<in> set (sort_key f xs)"
  shows "\<exists>y ys. sort_key f xs = y # ys \<and> f y \<le> f x"
  using assms sorted_sort_key [of f xs] by (cases "sort_key f xs") auto

lemma payload_of_ok:
  assumes "journal_ok h j" "fmlookup (uploads j) i = Some r" "u_state r \<noteq> UploadedU" "\<forall>x. length (sha256 h x) = 64"
  shows "\<exists>bytes. payload h i j = (Inr bytes, j)"
  using assms recordsD(1,2) [of h j i r] upload_rowD(1) [of j i r]
  by (auto simp: journal_ok_def payload_def upload_get_def upload_ok_def payload_ok_def give_def)

lemma claimable_claimed:
  assumes "journal_ok h j" "ready_rows j = []" "r \<in> set (claimable PendingU now j)" "\<forall>x. length (sha256 h x) = 64"
  shows "\<exists>r' j'. claim_next h now t j = (Inr (Some r'), j') \<and> u_sequence r' \<le> u_sequence r"
proof -
  obtain r1 rs where c: "claimable PendingU now j = r1 # rs" "u_sequence r1 \<le> u_sequence r"
    using first_of_sorted [of r] assms(3) unfolding claimable_def by blast
  have ok: "tables_ok j"
    using assms(1) by (simp add: journal_ok_def)
  have r1: "fmlookup (uploads j) (u_id r1) = Some r1" "u_state r1 = PendingU" "base_settled (u_base r1)"
    using claimable_iff [OF ok, of r1 PendingU now] c(1) by (simp_all add: eligible_def)
  obtain bytes where "payload h (u_id r1) j = (Inr bytes, j)"
    using payload_of_ok [OF assms(1) r1(1) _ assms(4)] r1(2) by auto
  moreover have "upload_save (r1\<lparr>u_state := UploadingU, u_attempt := Some t\<rparr>) j =
      (Inr (), put_upload (r1\<lparr>u_state := UploadingU, u_attempt := Some t\<rparr>) j)"
    using upload_save_steps(1) [OF assms(1) r1(1) upload_move.Claimed [OF r1(2,3), of t UNIV]] by simp
  moreover have "resolve_ready_generations h j = (Inr True, j)"
    using assms(2) by (simp add: resolve_ready_generations_def give_def)
  ultimately show ?thesis
    using c assms(2) by (simp add: claim_next_def Let_def give_def)
qed


lemma ready_rows_card:
  assumes "tables_ok j"
  shows "length (ready_rows j) = card {i. \<exists>up. row_waits j up i}"
proof -
  have "set (map (snd \<circ> snd) (ready_rows j)) = {i. \<exists>up. row_waits j up i}"
    using ready_rows_iff [OF assms] by (auto simp: image_iff) force
  then show ?thesis
    using distinct_card [OF ready_rows_distinct [OF assms]] by simp
qed

text \<open>C18: Resolving generations always succeeds and makes progress: one pass settles 256 of the rows whose
  predecessor is complete and starts none, so that finitely many passes let the workers claim.\<close>

theorem resolution_settles:
  "\<exists>j. resolve_ready_generations h (reached h a q ops) = (Inr (length (ready_rows (reached h a q ops)) \<le> 256), j)
     \<and> length (ready_rows j) = length (ready_rows (reached h a q ops)) - 256"
proof (rule resolve_ready_steps [OF reached_ok, where T = UNIV])
  let ?j = "reached h a q ops"
  let ?ids = "(snd \<circ> snd) ` set (take 256 (ready_rows ?j))"
  fix j
  assume j: "resolve_ready_generations h ?j = (Inr (ready_rows j = []), j)" "journal_ok h j"
    "\<And>up k. row_waits j up k \<longleftrightarrow> row_waits ?j up k \<and> k \<notin> ?ids"
  have ok: "tables_ok ?j" "tables_ok j"
    using reached_ok [where h = h and ops = ops] j(2) by (simp_all add: journal_ok_def)
  have sub: "?ids \<subseteq> {i. \<exists>up. row_waits ?j up i}"
    using ready_rows_iff [OF ok(1)] by (auto dest!: in_set_takeD)
  have "card ?ids = min 256 (length (ready_rows ?j))"
    using distinct_card [OF distinct_take [OF ready_rows_distinct [OF ok(1)], of 256]] by (simp add: take_map min.commute)
  moreover have "{i. \<exists>up. row_waits j up i} = {i. \<exists>up. row_waits ?j up i} - ?ids"
    using j(3) by blast
  ultimately have "length (ready_rows j) = length (ready_rows ?j) - min 256 (length (ready_rows ?j))"
    unfolding ready_rows_card [OF ok(1)] ready_rows_card [OF ok(2)] using sub by (simp add: card_Diff_subset)
  then show ?thesis
    using j(1) by (intro exI [of _ j]) (auto simp: min_def split: if_splits)
qed

text \<open>A save that is refused, for whatever reason, enqueues nothing: the journal is unchanged but for a
  payload that may remain in the spool, which counts towards the quota.\<close>

theorem refused_save_adds_no_row:
  assumes "enqueue h i now s intent chunks j = (Inl e, j')"
  shows "j' = j \<or> (\<exists>bytes. fmlookup (objects j) i = None \<and> j' = j\<lparr>objects := fmupd i bytes (objects j)\<rparr>)"
proof (cases rule: enqueue_generation_cases [of h i now s intent no_order None chunks j])
  case (published bytes kept files)
  then show ?thesis
    using assms enqueue_commit_Inl unfolding enqueue_def by metis
qed (use assms in \<open>simp add: enqueue_def\<close>)


lemma keep_both_Inr:
  assumes "keep_both h copy now i parent name j = (Inr c, j')" "journal_ok h j"
  obtains cm bytes j1 where "journal_ok h j1" "rescuable cm j1" "u_id (rc_original cm) = i" "successor_chain j1 (map u_id (rc_saves cm))"
    "payload h (u_id (rc_latest cm)) j1 = (Inr bytes, j1)" "journal_ok h j'" "fmlookup (objects j1) copy = None"
    "objects j' = fmupd copy bytes (objects j1)" "write_successors j' = write_successors j1" "fmlookup (uploads j') copy = Some c"
    "u_intent c = Create parent name" "u_state c = PendingU" "u_sha256 c = sha256 h bytes" "u_size c = int (length bytes)"
    "\<forall>s \<in> set (rc_saves cm). fmlookup (uploads j') (u_id s) = Some (s\<lparr>u_state := ResolvedU\<rparr>)"
proof -
  obtain j1 where j1: "resolve_ready_generations h j = (Inr (ready_rows j1 = []), j1)" "journal_ok h j1"
    by (rule resolve_ready_steps [OF assms(2)])
  obtain cm j2 bytes j3 where c: "prepare_saved i parent name j1 = (Inr cm, j2)" "payload h (u_id (rc_latest cm)) j2 = (Inr bytes, j3)"
      "enqueue_generation h copy now (u_scope (rc_original cm)) (Create parent name) no_order (Some cm) [Inr bytes] j3 = (Inr c, j')"
    using assms(1) j1(1) by (auto simp: keep_both_def jbind_Inr split: if_splits)
  have "tables_ok j1"
    using j1(2) by (simp add: journal_ok_def)
  note p = prepare_saved_Inr [OF c(1) this]
  have j: "j2 = j1" "j3 = j1"
    using p(1) payload_Inr_snd [OF c(2)] by simp_all
  have w: "\<And>cm'. Some cm = Some cm' \<Longrightarrow> rescuable cm' j1 \<and> Settle \<in> UNIV"
    using p(2) by simp
  obtain copied kept files where e: "copy_loop (max 0 (j_quota j1 - kept)) [Inr bytes] [] = Inr copied" "jsteps h UNIV j1 j'"
      "c = (new_upload h copy now (u_scope (rc_original cm)) (Create parent name) (wo_base no_order) copied)\<lparr>u_sequence := last_sequence j1 + 1\<rparr>"
      "fmlookup (uploads j') copy = Some c" "objects j' = fmupd copy copied (objects j1)" "fmlookup (objects j1) copy = None"
      "wo_base no_order = None \<Longrightarrow> write_successors j' = write_successors j1"
      "\<forall>s \<in> set (rc_saves cm). fmlookup (uploads j') (u_id s) = Some (s\<lparr>u_state := ResolvedU\<rparr>)"
    by (rule enqueue_generation_Inr [OF c(3) [unfolded j] j1(2) w]) auto
  have "copied = bytes"
    using e(1) by (auto simp: Let_def split: if_splits)
  then show thesis
    using e p c(2) j jsteps_ok [OF e(2) j1(2)] by (intro that [OF j1(2)]) (simp_all add: no_order_def)
qed

text \<open>C16: Keeping both copies loses nothing: the new save holds the bytes of the newest save queued behind
  the refused one, in the place the user chose; the refused save and every save queued behind it are
  resolved, and the payload of each of them can still be read.\<close>

theorem keep_both_rescues_newest:
  assumes "keep_both h copy now i parent name (reached h a q ops) = (Inr c, j)" "\<forall>x. length (sha256 h x) = 64"
  shows "\<exists>ids bytes. successor_chain j (i # ids)
    \<and> (\<forall>k \<in> set (i # ids). \<exists>r b. fmlookup (uploads j) k = Some r \<and> u_state r = ResolvedU \<and> payload h k j = (Inr b, j))
    \<and> payload h (last (i # ids)) j = (Inr bytes, j) \<and> payload h copy j = (Inr bytes, j)
    \<and> fmlookup (uploads j) copy = Some c \<and> u_intent c = Create parent name \<and> u_state c = PendingU"
proof -
  obtain cm bytes j1 where k: "journal_ok h j1" "rescuable cm j1" "u_id (rc_original cm) = i" "successor_chain j1 (map u_id (rc_saves cm))"
      "payload h (u_id (rc_latest cm)) j1 = (Inr bytes, j1)" "journal_ok h j" "fmlookup (objects j1) copy = None"
      "objects j = fmupd copy bytes (objects j1)" "write_successors j = write_successors j1" "fmlookup (uploads j) copy = Some c"
      "u_intent c = Create parent name" "u_state c = PendingU" "u_sha256 c = sha256 h bytes" "u_size c = int (length bytes)"
      "\<forall>s \<in> set (rc_saves cm). fmlookup (uploads j) (u_id s) = Some (s\<lparr>u_state := ResolvedU\<rparr>)"
    by (rule keep_both_Inr [OF assms(1) reached_ok])
  let ?ids = "map u_id (rc_successors cm)"
  have ids: "map u_id (rc_saves cm) = i # ?ids" "set (i # ?ids) = u_id ` set (rc_saves cm)"
    using k(3) by (simp_all add: rc_saves_def)
  have chain: "successor_chain j' xs = successor_chain j1 xs" if "write_successors j' = write_successors j1" for j' xs
    using that by (induction j1 xs rule: successor_chain.induct) auto
  have "\<exists>r b. fmlookup (uploads j) n = Some r \<and> u_state r = ResolvedU \<and> payload h n j = (Inr b, j)" if "n \<in> set (i # ?ids)" for n
    using that k(15) payload_of_ok [OF k(6) _ _ assms(2)] unfolding ids(2) by fastforce
  moreover have latest: "rc_latest cm \<in> set (rc_saves cm)" "last (i # ?ids) = u_id (rc_latest cm)"
    using k(3) by (simp_all add: rc_latest_def rc_saves_def last_map)
  moreover have "payload h (u_id (rc_latest cm)) j = (Inr bytes, j)"
    using k(5,7,8,15) latest(1) k(2)
    by (auto simp: payload_def upload_get_def give_def rescuable_def split: if_splits option.splits)
  moreover have "payload h copy j = (Inr bytes, j)"
    using k(8,10,12-14) assms(2) by (simp add: payload_def upload_get_def give_def)
  ultimately show ?thesis
    using k(4,10-12) chain [OF k(9)] ids(1) by (intro exI [of _ ?ids] exI [of _ bytes]) auto
qed

section \<open>Sample runs\<close>

definition demo_host :: host where
  "demo_host = \<lparr>sha256 = (\<lambda>_. replicate 64 CHR ''0''), lower = to_ascii_lowercase\<rparr>"

definition demo_account_scope :: scope where
  "demo_account_scope = \<lparr>account = ''a'', provider = ''p'', collection = ''c''\<rparr>"

definition demo_receipt :: node where
  "demo_receipt = \<lparr>node_id = ''item'', parent_id = Some ''root'', node_name = ''f'', node_kind = File, node_size = 2,
     modified_unix = 0, etag = Some ''e'', content_version = None, node_target = None, package = False\<rparr>"

definition demo_save :: "uuid \<Rightarrow> journal_op" where
  "demo_save i = Enqueue i 5 demo_account_scope (Create ''root'' ''f'') [Inr ''ab'']"

definition demo_uploading :: "journal_op list" where
  "demo_uploading = [demo_save ''u'', ClaimNext 10 ''t'']"

definition demo_uploaded :: "journal_op list" where
  "demo_uploaded = [demo_save ''u'', ClaimNext 10 ''t'', Acknowledge ''u'' ''t'' demo_receipt]"

lemma demo_host_digest: "\<forall>x. length (sha256 demo_host x) = 64"
  by (simp add: demo_host_def)

lemma demo_states:
  "map_option u_state (fmlookup (uploads (reached demo_host ''a'' 100 [demo_save ''u''])) ''u'') = Some PendingU"
  "map_option u_state (fmlookup (uploads (reached demo_host ''a'' 100 demo_uploading)) ''u'') = Some UploadingU"
  "map_option u_state (fmlookup (uploads (reached demo_host ''a'' 100 demo_uploaded)) ''u'') = Some UploadedU"
  by code_simp+

lemma ok_outcome: "\<not> isl (fst out) \<Longrightarrow> \<exists>x j. out = (Inr x, j)"
  by (cases out; cases "fst out") auto

theorem accepted_save_survives_witness:
  "\<exists>r j r'. enqueue demo_host ''u'' 5 demo_account_scope (Create ''root'' ''f'') (map Inr [''ab'', ''c'']) (reached demo_host ''a'' 100 []) = (Inr r, j)
     \<and> fmlookup (uploads (journal_run demo_host [ClaimNext 10 ''t'', Restart] j)) ''u'' = Some r' \<and> same_save r r'"
proof -
  have "\<not> isl (fst (enqueue demo_host ''u'' 5 demo_account_scope (Create ''root'' ''f'') (map Inr [''ab'', ''c'']) (reached demo_host ''a'' 100 [])))"
    by code_simp
  from ok_outcome [OF this] obtain r j
    where e: "enqueue demo_host ''u'' 5 demo_account_scope (Create ''root'' ''f'') (map Inr [''ab'', ''c'']) (reached demo_host ''a'' 100 []) = (Inr r, j)"
    by blast
  then show ?thesis
    using accepted_save_survives [OF e _ demo_host_digest, of "[ClaimNext 10 ''t'', Restart]"] by auto
qed

theorem finished_operations_final_witness:
  "\<exists>r. u_state r = UploadedU
     \<and> fmlookup (uploads (reached demo_host ''a'' 100 (demo_uploaded @ [Restart, RequestRetry ''u'']))) ''u'' = Some r"
proof -
  obtain r where "fmlookup (uploads (reached demo_host ''a'' 100 demo_uploaded)) ''u'' = Some r" "u_state r = UploadedU"
    using demo_states(3) by (auto simp: map_option_case split: option.splits)
  then show ?thesis
    using finished_operations_final [of demo_host demo_uploaded "''a''" 100 "''u''" "[Restart, RequestRetry ''u'']"] by auto
qed

theorem restart_fences_attempts_witness:
  "\<exists>e. attempt_exec ''u'' ''t'' (CallAcknowledge demo_receipt)
      (journal_run demo_host [ClaimNextVerification 20 ''t2''] (restart (reached demo_host ''a'' 100 demo_uploading))) =
    (Some e, journal_run demo_host [ClaimNextVerification 20 ''t2''] (restart (reached demo_host ''a'' 100 demo_uploading)))"
  by (rule restart_fences_attempts) simp

theorem never_replayed_blindly_witness:
  "\<exists>r'. fmlookup (uploads (reached demo_host ''a'' 100 (demo_uploading @ [Restart, ClaimNext 30 ''t3'']))) ''u'' = Some r'
     \<and> u_state r' \<noteq> PendingU"
proof -
  obtain r where "fmlookup (uploads (reached demo_host ''a'' 100 demo_uploading)) ''u'' = Some r" "u_state r \<noteq> PendingU"
    using demo_states(2) by (auto simp: map_option_case split: option.splits)
  then show ?thesis
    using never_replayed_blindly [of "''u''" "[Restart, ClaimNext 30 ''t3'']" demo_host demo_uploading "''a''" 100] by auto
qed

text \<open>A second save of the same file is queued behind the first; once that is uploaded it is
  claimed against the item and version of the receipt.\<close>

definition demo_chain :: "journal_op list" where
  "demo_chain = [demo_save ''u'', EnqueueAfter ''v'' 6 ''u'' [] [Inr ''cd''], ClaimNext 10 ''t'', Acknowledge ''u'' ''t'' demo_receipt]"

theorem claimed_save_in_order_witness:
  "\<exists>r j. claim_next demo_host 20 ''t2'' (reached demo_host ''a'' 100 demo_chain) = (Inr (Some r), j)
     \<and> (\<exists>n tag. confirmed j ''u'' = Some n \<and> etag n = Some tag \<and> u_intent r = Replace (node_id n) tag)"
proof -
  define out where "out = claim_next demo_host 20 ''t2'' (reached demo_host ''a'' 100 demo_chain)"
  have "case fst out of Inr (Some r) \<Rightarrow> map_option predecessor (u_base r) = Some ''u'' | _ \<Rightarrow> False"
    unfolding out_def by code_simp
  then obtain r j b where r: "out = (Inr (Some r), j)" "u_base r = Some b" "predecessor b = ''u''"
    by (cases out) (auto split: sum.splits option.splits)
  then show ?thesis
    using claimed_save_in_order [OF r(1) [unfolded out_def]] unfolding out_def by metis
qed


theorem refused_save_adds_no_row_witness:
  "\<exists>e j'. enqueue demo_host ''u'' 5 demo_account_scope (Create ''root'' ''f'') [Inr ''abcd''] (new_journal ''a'' 3) = (Inl e, j')
     \<and> (j' = new_journal ''a'' 3 \<or> (\<exists>bytes. fmlookup (objects (new_journal ''a'' 3)) ''u'' = None
          \<and> j' = (new_journal ''a'' 3)\<lparr>objects := fmupd ''u'' bytes (objects (new_journal ''a'' 3))\<rparr>))"
proof -
  define out where "out = enqueue demo_host ''u'' 5 demo_account_scope (Create ''root'' ''f'') [Inr ''abcd''] (new_journal ''a'' 3)"
  have "isl (fst out)"
    unfolding out_def by code_simp
  then obtain e j' where "out = (Inl e, j')"
    by (cases out) (auto simp: isl_def)
  then show ?thesis
    using refused_save_adds_no_row [of demo_host "''u''" 5 demo_account_scope "Create ''root'' ''f''" "[Inr ''abcd'']" "new_journal ''a'' 3" e j']
    unfolding out_def by blast
qed


definition demo_conflict :: "journal_op list" where
  "demo_conflict = [demo_save ''u'', EnqueueAfter ''v'' 6 ''u'' [] [Inr ''cde''], ClaimNext 10 ''t'', DeferAttempt 11 ''u'' ''t'' ConflictU 0]"

theorem keep_both_rescues_newest_witness:
  "\<exists>c j bytes. keep_both demo_host ''w'' 30 ''u'' ''root'' ''g'' (reached demo_host ''a'' 100 demo_conflict) = (Inr c, j)
     \<and> payload demo_host ''w'' j = (Inr bytes, j) \<and> fmlookup (uploads j) ''w'' = Some c \<and> u_state c = PendingU"
proof -
  have "\<not> isl (fst (keep_both demo_host ''w'' 30 ''u'' ''root'' ''g'' (reached demo_host ''a'' 100 demo_conflict)))"
    by code_simp
  from ok_outcome [OF this] obtain c j
    where "keep_both demo_host ''w'' 30 ''u'' ''root'' ''g'' (reached demo_host ''a'' 100 demo_conflict) = (Inr c, j)"
    by blast
  then show ?thesis
    using keep_both_rescues_newest [OF _ demo_host_digest] by blast
qed

end
