(* ===== verification/Worker_Transfers.thy ===== *)
theory Worker_Transfers
  imports Journal_Guarantees
begin

text \<open>
  The worker that sends saves to a provider, \<open>cirrove-service/src/transfers.rs\<close>. It claims a
  save from the journal, asks the provider for the next step, and records every
  checkpoint in the credential vault and in the journal before the request that uses
  it. The worker takes the journal's lock only for single calls, so between two of
  them anything else may run on the journal, a restart included.

  What the worker does not decide is an environment: whether it is cancelled, what the
  clock and the random identifiers are, which other calls reach the journal first,
  whether a lock, a thread, the vault or a file fails, and what the provider answers. Each
  is asked at the tick of the world, which every question advances; a provider call that
  times out is answered with uncertainty. A crash is an environment that cancels
  everything from some tick on. The world keeps a log of what happened, newest first.
\<close>

section \<open>Provider, environment and world\<close>

datatype transfer_error = TJournal journal_error | TProvider upload_error | TVault | TWorker

record transfer_result =
  tr_id :: uuid
  tr_state :: upload_state
  tr_issue :: "transfer_error option"

datatype recovery_location = SiblingLocation string | TrashLocation string string

text \<open>The hooks of a provider that compute without a request.\<close>

record upload_provider =
  requires_begin_payload :: "upload_request \<Rightarrow> bool"
  begin_is_mutation_free_until_checkpoint :: "upload_request \<Rightarrow> bool"
  staged_recovery_location :: "uuid \<Rightarrow> upload_request \<Rightarrow> recovery_location option"

text \<open>The requests that return a step; the payload of a save goes with those that read it.\<close>

datatype upload_call = BeginUpload "string option" | AllocateUpload string | InspectUpload string
  | UploadPart string "64 word" string | UploadStream string string | CommitUpload string

datatype local_fault = LockPoisoned | ThreadLost

datatype vault_outcome = VaultDone | VaultRefused | VaultInterrupted

record transfer_env =
  e_cancelled :: "nat \<Rightarrow> bool"
  e_now :: "nat \<Rightarrow> int"
  e_token :: "nat \<Rightarrow> uuid"
  e_others :: "nat \<Rightarrow> journal_op list"
  e_fault :: "nat \<Rightarrow> local_fault option"
  e_vault :: "nat \<Rightarrow> vault_outcome"
  e_stored :: "nat \<Rightarrow> string option"
  e_read_fails :: "nat \<Rightarrow> bool"
  e_step :: "nat \<Rightarrow> uuid \<Rightarrow> upload_request \<Rightarrow> upload_call \<Rightarrow> upload_error + upload_step"
  e_reconcile :: "nat \<Rightarrow> uuid \<Rightarrow> upload_request \<Rightarrow> string option \<Rightarrow> upload_error + reconciliation"

text \<open>\<open>Ran\<close> says whether the call of the journal succeeded.\<close>

datatype transfer_event =
    Others "journal_op list"
  | Ran journal_op bool
  | Claimed upload_record
  | ReadPayload uuid string
  | Saved uuid string
  | Loaded uuid "string option"
  | Removed uuid
  | Sent uuid upload_call "upload_error + upload_step"
  | Reconciled uuid "string option" "upload_error + reconciliation"

record transfer_world =
  w_journal :: journal
  w_tick :: nat
  w_log :: "transfer_event list"

type_synonym 'a transfer = "(transfer_error + 'a) \<times> transfer_world"

definition step_tick :: "transfer_world \<Rightarrow> transfer_world" where
  "step_tick w = w\<lparr>w_tick := Suc (w_tick w)\<rparr>"

definition logged :: "transfer_event \<Rightarrow> transfer_world \<Rightarrow> transfer_world" where
  "logged e w = w\<lparr>w_log := e # w_log w\<rparr>"

section \<open>The journal, the provider and the vault\<close>

text \<open>A call of the journal while its lock is held.\<close>

definition journal_call :: "journal_op \<Rightarrow> (journal \<Rightarrow> 'a journal_result) \<Rightarrow> transfer_world \<Rightarrow> (journal_error + 'a) \<times> transfer_world" where
  "journal_call op f w =
     (case f (w_journal w) of (v, j) \<Rightarrow> (v, logged (Ran op (\<not> isl v)) (step_tick (w\<lparr>w_journal := j\<rparr>))))"

text \<open>\<open>local\<close>: other calls come first, then the lock is taken and the action runs.\<close>

definition interfere :: "transfer_env \<Rightarrow> host \<Rightarrow> transfer_world \<Rightarrow> transfer_world" where
  "interfere E h w = (let ops = e_others E (w_tick w)
     in logged (Others ops) (step_tick (w\<lparr>w_journal := journal_run h ops (w_journal w)\<rparr>)))"

definition worker_local :: "transfer_env \<Rightarrow> host \<Rightarrow> (transfer_world \<Rightarrow> (journal_error + 'a) \<times> transfer_world) \<Rightarrow> transfer_world \<Rightarrow> 'a transfer" where
  "worker_local E h action w =
     (case e_fault E (w_tick w) of
        Some LockPoisoned \<Rightarrow> (Inl (TJournal JStorage), interfere E h w)
      | Some ThreadLost \<Rightarrow> (Inl TWorker, interfere E h w)
      | None \<Rightarrow> (case action (interfere E h w) of (v, w) \<Rightarrow> (map_sum TJournal id v, w)))"

definition payload_call :: "host \<Rightarrow> uuid \<Rightarrow> transfer_world \<Rightarrow> (journal_error + string) \<times> transfer_world" where
  "payload_call h i w = (case payload h i (w_journal w) of
       (Inl e, _) \<Rightarrow> fail e w
     | (Inr bytes, _) \<Rightarrow> give bytes (logged (ReadPayload i bytes) w))"

text \<open>\<open>remote\<close>: a cancelled worker does not send; otherwise the request goes out and is answered,
  with uncertainty when the deadline passes or the worker is cancelled meanwhile.\<close>

definition remote_step :: "transfer_env \<Rightarrow> uuid \<Rightarrow> upload_request \<Rightarrow> upload_call \<Rightarrow> transfer_world \<Rightarrow> upload_step transfer" where
  "remote_step E i rq c w =
     (let n = w_tick w; w = step_tick w in
      if e_cancelled E n then fail (TProvider UUncertain) w
      else let v = e_step E n i rq c in (map_sum TProvider id v, logged (Sent i c v) w))"

definition remote_reconcile :: "transfer_env \<Rightarrow> uuid \<Rightarrow> upload_request \<Rightarrow> string option \<Rightarrow> transfer_world \<Rightarrow> reconciliation transfer" where
  "remote_reconcile E i rq saved w =
     (let n = w_tick w; w = step_tick w in
      if e_cancelled E n then fail (TProvider UUncertain) w
      else let v = e_reconcile E n i rq saved in (map_sum TProvider id v, logged (Reconciled i saved v) w))"

text \<open>\<open>credential\<close>: the vault answers bounded_by its deadline, refuses or is late, or the worker is
  cancelled. The entry of an operation is named by its identifier.\<close>

definition credential :: "transfer_env \<Rightarrow> transfer_event \<Rightarrow> 'a \<Rightarrow> transfer_world \<Rightarrow> 'a transfer" where
  "credential E event x w =
     (let n = w_tick w; w = step_tick w in
      if e_cancelled E n then fail (TProvider UUncertain) w
      else case e_vault E n of
        VaultDone \<Rightarrow> give x (logged event w)
      | VaultRefused \<Rightarrow> fail TVault w
      | VaultInterrupted \<Rightarrow> fail (TProvider UUncertain) w)"

definition load_checkpoint :: "transfer_env \<Rightarrow> uuid \<Rightarrow> transfer_world \<Rightarrow> string option transfer" where
  "load_checkpoint E k w = (let c = e_stored E (w_tick w) in credential E (Loaded k c) c w)"

definition save_checkpoint :: "transfer_env \<Rightarrow> host \<Rightarrow> uuid \<Rightarrow> uuid \<Rightarrow> string \<Rightarrow> int \<Rightarrow> transfer_world \<Rightarrow> unit transfer" where
  "save_checkpoint E h i t c offset w =
     jbind (credential E (Saved i c) () w) (\<lambda>_.
       worker_local E h (journal_call (RecordSession i t i offset) (record_session i t i offset)))"

definition clean_checkpoint :: "transfer_env \<Rightarrow> uuid \<Rightarrow> transfer_world \<Rightarrow> transfer_world" where
  "clean_checkpoint E i w =
     (let n = w_tick w; w = step_tick w in
      if e_cancelled E n then w else snd (credential E (Removed i) () w))"

section \<open>Receipts the modelled saves cannot take\<close>

text \<open>The journal modelled here holds file saves that own no object of the local namespace.
  For them the receipts of packages and of identity handoffs are refused after the
  attempt was found active, and a recovery location cannot be reserved.\<close>

definition reserve_identity_handoff :: "uuid \<Rightarrow> uuid \<Rightarrow> recovery_location \<Rightarrow> journal \<Rightarrow> unit journal_result" where
  "reserve_identity_handoff i t location j =
     jbind (active_attempt i t j) (\<lambda>r. case u_intent r of Create parent name \<Rightarrow> fail JIntent | Replace item tag \<Rightarrow> fail JStale)"

definition acknowledge_package :: "uuid \<Rightarrow> uuid \<Rightarrow> package_upload_receipt \<Rightarrow> journal \<Rightarrow> unit journal_result" where
  "acknowledge_package i t receipt j = jbind (active_attempt i t j) (\<lambda>_. fail JIntent)"

definition acknowledge_handoff_inner ::
    "uuid \<Rightarrow> uuid \<Rightarrow> node \<Rightarrow> node \<Rightarrow> (node \<times> package_semantic_identity \<times> package_semantic_identity) option \<Rightarrow> journal \<Rightarrow> unit journal_result" where
  "acknowledge_handoff_inner i t current backup proof j =
     jbind (active_attempt i t j) (\<lambda>_. if proof = None then fail JStale else fail JIntent)"

definition acknowledge_identity_handoff :: "uuid \<Rightarrow> uuid \<Rightarrow> node \<Rightarrow> node \<Rightarrow> journal \<Rightarrow> unit journal_result" where
  "acknowledge_identity_handoff i t current backup = acknowledge_handoff_inner i t current backup None"

definition acknowledge_package_handoff :: "uuid \<Rightarrow> uuid \<Rightarrow> package_handoff_receipt \<Rightarrow> journal \<Rightarrow> unit journal_result" where
  "acknowledge_package_handoff i t receipt =
     acknowledge_handoff_inner i t (pur_remote (phr_current receipt)) (pur_remote (phr_backup receipt))
       (Some (phr_original receipt, pur_semantic (phr_current receipt), pur_semantic (phr_backup receipt)))"

text \<open>Such a refusal changes nothing.\<close>

definition refused_call :: "(journal \<Rightarrow> unit journal_result) \<Rightarrow> transfer_world \<Rightarrow> (journal_error + unit) \<times> transfer_world" where
  "refused_call f w = (fst (f (w_journal w)), w)"

section \<open>Opening a transfer\<close>

definition request_of :: "upload_record \<Rightarrow> upload_request" where
  "request_of r = \<lparr>ur_representation = u_representation r, ur_scope = u_scope r, ur_intent = u_intent r,
     ur_size = word_of_int (u_size r), ur_sha256 = u_sha256 r\<rparr>"

text \<open>The save is proved uncommitted: forget its checkpoint while the attempt still owns it, then
  make it pending again.\<close>

definition return_uncommitted :: "transfer_env \<Rightarrow> host \<Rightarrow> uuid \<Rightarrow> uuid \<Rightarrow> transfer_world \<Rightarrow> unit transfer" where
  "return_uncommitted E h i t w =
     worker_local E h (\<lambda>w. let now = e_now E (w_tick w) in
       jbind (journal_call (DeferAttempt now i t VerifyRequiredU 0) (stop_attempt now i t VerifyRequiredU) w)
         (\<lambda>_. journal_call (RetryVerifiedUncommitted i) (retry_verified_uncommitted h i)))
       (clean_checkpoint E i w)"

datatype opened_transfer = Returned upload_state | Opened upload_step bool | Unknown "string option"

text \<open>A claim to verify inspects the saved session; a fresh claim begins one.\<close>

definition inspect_saved :: "transfer_env \<Rightarrow> uuid \<Rightarrow> upload_request \<Rightarrow> string \<Rightarrow> transfer_world \<Rightarrow> opened_transfer transfer" where
  "inspect_saved E i rq c w =
     (case remote_step E i rq (InspectUpload c) w of
        (Inr step, w) \<Rightarrow> give (Opened step False) w
      | (Inl e, w) \<Rightarrow>
          if e \<in> {TProvider USessionGone, TProvider UCheckpointInvalid, TProvider UUncertain}
          then give (Unknown (Some c)) w else fail e w)"

definition open_verifying :: "upload_provider \<Rightarrow> transfer_env \<Rightarrow> host \<Rightarrow> upload_record \<Rightarrow> uuid \<Rightarrow> transfer_world \<Rightarrow> opened_transfer transfer" where
  "open_verifying P E h r t w =
     (let i = u_id r; rq = request_of r in
      jbind (load_checkpoint E (case u_session_key r of None \<Rightarrow> i | Some k \<Rightarrow> k) w) (\<lambda>saved w.
      case saved of
        Some c \<Rightarrow> inspect_saved E i rq c w
      | None \<Rightarrow>
          if u_session_key r = None \<and> begin_is_mutation_free_until_checkpoint P rq
          then jbind (return_uncommitted E h i t w) (\<lambda>_. give (Returned PendingU))
          else give (Unknown None) w))"

definition is_allocate :: "upload_step \<Rightarrow> bool" where
  "is_allocate s = (case s of StepAllocate c \<Rightarrow> True | _ \<Rightarrow> False)"

definition open_fresh :: "upload_provider \<Rightarrow> transfer_env \<Rightarrow> host \<Rightarrow> upload_record \<Rightarrow> transfer_world \<Rightarrow> opened_transfer transfer" where
  "open_fresh P E h r w =
     (let i = u_id r; rq = request_of r in
      jbind (if requires_begin_payload P rq
             then jbind (worker_local E h (payload_call h i) w) (\<lambda>bytes. remote_step E i rq (BeginUpload (Some bytes)))
             else remote_step E i rq (BeginUpload None) w)
        (\<lambda>step. give (Opened step (is_allocate step))))"

definition reconcile_unknown :: "transfer_env \<Rightarrow> host \<Rightarrow> upload_record \<Rightarrow> uuid \<Rightarrow> string option \<Rightarrow> transfer_world \<Rightarrow> opened_transfer transfer" where
  "reconcile_unknown E h r t saved w =
     (let i = u_id r in
      jbind (remote_reconcile E i (request_of r) saved w) (\<lambda>v w.
      case v of
        RecPackageHandoffCommitted receipt \<Rightarrow> give (Opened (StepPackageHandoffComplete receipt) False) w
      | RecPackageCommitted receipt \<Rightarrow> give (Opened (StepPackageComplete receipt) False) w
      | RecCommitted n \<Rightarrow> give (Opened (StepComplete n) False) w
      | RecHandoffCommitted current backup \<Rightarrow> give (Opened (StepHandoffComplete current backup) False) w
      | RecConflict \<Rightarrow> fail (TProvider UConflict) w
      | RecUncommitted \<Rightarrow> jbind (return_uncommitted E h i t w) (\<lambda>_. give (Returned PendingU))))"

definition open_transfer :: "upload_provider \<Rightarrow> transfer_env \<Rightarrow> host \<Rightarrow> upload_record \<Rightarrow> uuid \<Rightarrow> transfer_world \<Rightarrow> opened_transfer transfer" where
  "open_transfer P E h r t w =
     jbind (if u_state r = VerifyingU then open_verifying P E h r t w else open_fresh P E h r w) (\<lambda>opened w.
     case opened of Unknown saved \<Rightarrow> reconcile_unknown E h r t saved w | _ \<Rightarrow> give opened w)"

section \<open>Driving a transfer\<close>

text \<open>What the loop keeps between turns.\<close>

record loop_state =
  allocation_allowed :: bool
  prepared_allowed :: bool
  commit_steps :: nat
  loop_payload :: "string option"

text \<open>A turn ends the transfer or hands the next step to the next turn.\<close>

type_synonym turn = "(upload_state + loop_state \<times> upload_step) transfer"

definition turn_end :: "transfer_env \<Rightarrow> uuid \<Rightarrow> unit transfer \<Rightarrow> turn" where
  "turn_end E i v = jbind v (\<lambda>_ w. give (Inl UploadedU) (clean_checkpoint E i w))"

definition turn_on :: "loop_state \<Rightarrow> (upload_step \<Rightarrow> transfer_error option) \<Rightarrow> upload_step transfer \<Rightarrow> turn" where
  "turn_on ls refuse v = jbind v (\<lambda>step. case refuse step of Some e \<Rightarrow> fail e | None \<Rightarrow> give (Inr (ls, step)))"

definition is_receipt :: "upload_step \<Rightarrow> bool" where
  "is_receipt s = (case s of StepComplete n \<Rightarrow> True | StepPackageComplete p \<Rightarrow> True
     | StepPackageHandoffComplete p \<Rightarrow> True | StepHandoffComplete c b \<Rightarrow> True | _ \<Rightarrow> False)"

definition is_commit :: "upload_step \<Rightarrow> bool" where
  "is_commit s = (case s of StepCommit c \<Rightarrow> True | _ \<Rightarrow> False)"

definition is_handoff :: "upload_step \<Rightarrow> bool" where
  "is_handoff s = (case s of StepHandoffComplete c b \<Rightarrow> True | _ \<Rightarrow> False)"

definition is_prepared :: "upload_step \<Rightarrow> bool" where
  "is_prepared s = (case s of StepPrepared c \<Rightarrow> True | _ \<Rightarrow> False)"

definition uncertain_if :: "bool \<Rightarrow> transfer_error option" where
  "uncertain_if b = (if b then Some (TProvider UUncertain) else None)"

definition turn_allocate :: "transfer_env \<Rightarrow> host \<Rightarrow> upload_record \<Rightarrow> uuid \<Rightarrow> loop_state \<Rightarrow> string \<Rightarrow> transfer_world \<Rightarrow> turn" where
  "turn_allocate E h r t ls c w =
     (if \<not> allocation_allowed ls then fail (TProvider UUncertain) w
      else jbind (save_checkpoint E h (u_id r) t c 0 w) (\<lambda>_ w.
        let n = w_tick w; w = step_tick w in
        if e_cancelled E n then fail (TProvider UUncertain) w
        else turn_on (ls\<lparr>allocation_allowed := False, prepared_allowed := False\<rparr>)
          (\<lambda>next. uncertain_if (is_allocate next \<or> is_prepared next))
          (remote_step E (u_id r) (request_of r) (AllocateUpload c) w)))"

definition turn_prepared :: "transfer_env \<Rightarrow> host \<Rightarrow> upload_record \<Rightarrow> uuid \<Rightarrow> loop_state \<Rightarrow> string \<Rightarrow> transfer_world \<Rightarrow> turn" where
  "turn_prepared E h r t ls c w =
     (if \<not> prepared_allowed ls then fail (TProvider UInvalid) w
      else turn_on (ls\<lparr>prepared_allowed := False\<rparr>) (\<lambda>_. None)
        (jbind (save_checkpoint E h (u_id r) t c 0 w) (\<lambda>_. remote_step E (u_id r) (request_of r) (InspectUpload c))))"

definition turn_commit :: "transfer_env \<Rightarrow> host \<Rightarrow> upload_record \<Rightarrow> uuid \<Rightarrow> loop_state \<Rightarrow> string \<Rightarrow> transfer_world \<Rightarrow> turn" where
  "turn_commit E h r t ls c w =
     (let steps = min (commit_steps ls + 1) 255 in
      if steps > 4 then fail (TProvider UInvalid) w
      else turn_on (ls\<lparr>prepared_allowed := False, commit_steps := steps\<rparr>)
        (\<lambda>next. uncertain_if (\<not> (is_commit next \<or> is_receipt next)))
        (jbind (save_checkpoint E h (u_id r) t c (uint (ur_size (request_of r))) w)
          (\<lambda>_. remote_step E (u_id r) (request_of r) (CommitUpload c))))"

definition turn_stream :: "transfer_env \<Rightarrow> host \<Rightarrow> upload_record \<Rightarrow> uuid \<Rightarrow> loop_state \<Rightarrow> string \<Rightarrow> transfer_world \<Rightarrow> turn" where
  "turn_stream E h r t ls c w =
     turn_on (ls\<lparr>prepared_allowed := False\<rparr>)
       (\<lambda>next. uncertain_if (\<not> (is_commit next \<or> is_receipt next \<and> \<not> is_handoff next)))
       (jbind (save_checkpoint E h (u_id r) t c 0 w) (\<lambda>_ w.
        jbind (worker_local E h (payload_call h (u_id r)) w) (\<lambda>bytes.
          remote_step E (u_id r) (request_of r) (UploadStream c bytes))))"

text \<open>The range the provider asked for is checked against the size before anything is read.\<close>

definition range_valid :: "upload_progress \<Rightarrow> 64 word \<Rightarrow> bool" where
  "range_valid p sz \<longleftrightarrow> up_length p \<noteq> 0 \<and> up_length p \<le> 16 * 1024 * 1024 \<and> up_offset p < sz
     \<and> ucast (up_length p) \<le> sz - up_offset p"

definition loaded_payload :: "transfer_env \<Rightarrow> host \<Rightarrow> uuid \<Rightarrow> loop_state \<Rightarrow> transfer_world \<Rightarrow> string transfer" where
  "loaded_payload E h i ls w = (case loop_payload ls of
       Some bytes \<Rightarrow> give bytes w
     | None \<Rightarrow> worker_local E h (payload_call h i) w)"

definition read_range :: "transfer_env \<Rightarrow> string \<Rightarrow> upload_progress \<Rightarrow> transfer_world \<Rightarrow> string transfer" where
  "read_range E bytes p w =
     (let n = w_tick w; w = step_tick w; part = take (unat (up_length p)) (drop (unat (up_offset p)) bytes) in
      if e_read_fails E n \<or> length part < unat (up_length p) then fail TWorker w else give part w)"

definition stays_behind :: "upload_progress \<Rightarrow> upload_step \<Rightarrow> bool" where
  "stays_behind p s = (case s of StepContinue q \<Rightarrow> up_offset q < up_offset p + ucast (up_length p) | _ \<Rightarrow> False)"

definition turn_continue :: "transfer_env \<Rightarrow> host \<Rightarrow> upload_record \<Rightarrow> uuid \<Rightarrow> loop_state \<Rightarrow> upload_progress \<Rightarrow> transfer_world \<Rightarrow> turn" where
  "turn_continue E h r t ls p w =
     (if \<not> range_valid p (ur_size (request_of r)) then fail (TProvider UInvalid) w
      else jbind (save_checkpoint E h (u_id r) t (up_checkpoint p) (uint (up_offset p)) w) (\<lambda>_ w.
        jbind (loaded_payload E h (u_id r) ls w) (\<lambda>bytes w.
        jbind (read_range E bytes p w) (\<lambda>part w.
          turn_on (ls\<lparr>prepared_allowed := False, loop_payload := Some bytes\<rparr>) (\<lambda>next. uncertain_if (stays_behind p next))
            (remote_step E (u_id r) (request_of r) (UploadPart (up_checkpoint p) (up_offset p) part) w)))))"

definition acknowledged :: "transfer_env \<Rightarrow> host \<Rightarrow> uuid \<Rightarrow> (transfer_world \<Rightarrow> (journal_error + unit) \<times> transfer_world) \<Rightarrow> transfer_world \<Rightarrow> turn" where
  "acknowledged E h i receipt w = turn_end E i (worker_local E h receipt w)"

definition turn_of :: "transfer_env \<Rightarrow> host \<Rightarrow> upload_record \<Rightarrow> uuid \<Rightarrow> loop_state \<Rightarrow> upload_step \<Rightarrow> transfer_world \<Rightarrow> turn" where
  "turn_of E h r t ls step w =
     (let n = w_tick w; w = step_tick w; i = u_id r in
      if e_cancelled E n then fail (TProvider UUncertain) w
      else case step of
        StepAllocate c \<Rightarrow> turn_allocate E h r t ls c w
      | StepPrepared c \<Rightarrow> turn_prepared E h r t ls c w
      | StepPackageHandoffComplete receipt \<Rightarrow> acknowledged E h i (refused_call (acknowledge_package_handoff i t receipt)) w
      | StepPackageComplete receipt \<Rightarrow> acknowledged E h i (refused_call (acknowledge_package i t receipt)) w
      | StepComplete n \<Rightarrow> acknowledged E h i (journal_call (Acknowledge i t n) (acknowledge i t n)) w
      | StepHandoffComplete current backup \<Rightarrow> acknowledged E h i (refused_call (acknowledge_identity_handoff i t current backup)) w
      | StepCommit c \<Rightarrow> turn_commit E h r t ls c w
      | StepContinue p \<Rightarrow> turn_continue E h r t ls p w
      | StepStream c \<Rightarrow> turn_stream E h r t ls c w)"

text \<open>The loop ends: each turn that hands on a step uses up a permission, a commit, or part of
  the range.\<close>

definition permissions :: "loop_state \<Rightarrow> nat" where
  "permissions ls = of_bool (allocation_allowed ls) + of_bool (prepared_allowed ls)"

definition remaining :: "64 word \<Rightarrow> loop_state \<Rightarrow> upload_step \<Rightarrow> nat" where
  "remaining sz ls s = (case s of
       StepContinue p \<Rightarrow> 7 + (unat sz - unat (up_offset p))
     | StepStream c \<Rightarrow> 6
     | StepCommit c \<Rightarrow> 5 - commit_steps ls
     | _ \<Rightarrow> 0)"

lemma turn_on_Inr: "turn_on ls refuse v = (Inr (Inr (ls', s)), w) \<Longrightarrow> ls' = ls \<and> refuse s = None"
  by (auto simp: turn_on_def jbind_Inr split: option.splits)

lemma turn_end_Inr: "turn_end E i v \<noteq> (Inr (Inr x), w)"
  by (auto simp: turn_end_def jbind_Inr)

lemma range_advances:
  assumes "range_valid p sz" "\<not> up_offset q < up_offset p + ucast (up_length p)"
  shows "unat sz - unat (up_offset q) < unat sz - unat (up_offset p)"
proof -
  have len: "unat (ucast (up_length p) :: 64 word) = unat (up_length p)" "0 < unat (up_length p)"
    using assms(1) unsigned_less [of "up_length p", where ?'a = nat]
    by (simp_all add: range_valid_def unsigned_ucast_eq unat_gt_0 take_bit_nat_eq_self)
  have "unat (up_offset p) < unat sz" "unat (up_length p) \<le> unat sz - unat (up_offset p)"
    using assms(1) len(1) by (auto simp: range_valid_def word_less_nat_alt word_le_nat_alt unat_sub)
  then have "unat (up_offset p + ucast (up_length p)) = unat (up_offset p) + unat (up_length p)"
    using unsigned_less [of sz, where ?'a = nat] len(1) by (simp add: unat_word_ariths)
  then show ?thesis
    using assms(2) len(2) \<open>unat (up_offset p) < unat sz\<close> by (auto simp: word_less_nat_alt not_less)
qed

lemma turn_decreases:
  assumes "turn_of E h r t ls s w = (Inr (Inr (ls', s')), w')"
  shows "permissions ls' < permissions ls
    \<or> permissions ls' = permissions ls \<and> remaining (ur_size (request_of r)) ls' s' < remaining (ur_size (request_of r)) ls s"
  using assms
  by (auto simp: turn_of_def Let_def acknowledged_def turn_end_Inr turn_allocate_def turn_prepared_def turn_commit_def
      turn_stream_def turn_continue_def jbind_Inr permissions_def remaining_def uncertain_if_def
      is_commit_def is_receipt_def is_handoff_def is_prepared_def is_allocate_def stays_behind_def
      dest!: turn_on_Inr split: if_splits upload_step.splits intro: range_advances)

function drive :: "transfer_env \<Rightarrow> host \<Rightarrow> upload_record \<Rightarrow> uuid \<Rightarrow> loop_state \<Rightarrow> upload_step \<Rightarrow> transfer_world \<Rightarrow> upload_state transfer" where
  "drive E h r t ls s w =
     jbind (turn_of E h r t ls s w) (\<lambda>v w. case v of
         Inl state \<Rightarrow> give state w
       | Inr (ls, s) \<Rightarrow> drive E h r t ls s w)"
  by pat_completeness auto
termination
  by (relation "measures [\<lambda>(E, h, r, t, ls, s, w). permissions ls,
        \<lambda>(E, h, r, t, ls, s, w). remaining (ur_size (request_of r)) ls s]")
    (auto dest: turn_decreases)

declare drive.simps [simp del]

section \<open>One run of the worker\<close>

definition execute :: "upload_provider \<Rightarrow> transfer_env \<Rightarrow> host \<Rightarrow> upload_record \<Rightarrow> transfer_world \<Rightarrow> upload_state transfer" where
  "execute P E h r w =
     (case u_attempt r of
        None \<Rightarrow> fail TWorker w
      | Some t \<Rightarrow>
          jbind (case staged_recovery_location P (u_id r) (request_of r) of
                   None \<Rightarrow> give () w
                 | Some location \<Rightarrow> worker_local E h (refused_call (reserve_identity_handoff (u_id r) t location)) w) (\<lambda>_ w.
          jbind (open_transfer P E h r t w) (\<lambda>v w. case v of
              Returned state \<Rightarrow> give state w
            | Opened s allocate \<Rightarrow>
                drive E h r t \<lparr>allocation_allowed = allocate, prepared_allowed = True, commit_steps = 0, loop_payload = None\<rparr> s w
            | Unknown _ \<Rightarrow> fail TWorker w)))"

definition error_state :: "transfer_error \<Rightarrow> upload_state" where
  "error_state e = (case e of
       TProvider UConflict \<Rightarrow> ConflictU
     | TProvider UInvalid \<Rightarrow> FailedU
     | TProvider (UUnsupported m) \<Rightarrow> FailedU
     | TProvider UQuota \<Rightarrow> FailedU
     | TProvider UInsufficientStorage \<Rightarrow> FailedU
     | TProvider (UProvider Permission) \<Rightarrow> FailedU
     | TProvider (UProvider NotFound) \<Rightarrow> FailedU
     | TProvider (UProvider Authentication) \<Rightarrow> FailedU
     | TJournal JCorrupt \<Rightarrow> FailedU
     | _ \<Rightarrow> VerifyRequiredU)"

text \<open>Delays in whole seconds, as the journal reads them; a throttled provider names its own in
  nanoseconds.\<close>

definition backoff :: "int \<Rightarrow> int" where
  "backoff failed = 2 ^ nat (min failed 6 + 1)"

definition throttled_delay :: "nat \<Rightarrow> int" where
  "throttled_delay d = min (int d div 1000000000 + 1) u64_max"

definition transfer_delay :: "transfer_error \<Rightarrow> int \<Rightarrow> int" where
  "transfer_delay e failed = (case e of
       TProvider (UProvider (Throttled d)) \<Rightarrow> throttled_delay d
     | _ \<Rightarrow> backoff failed)"

definition claim_work :: "transfer_env \<Rightarrow> host \<Rightarrow> transfer_world \<Rightarrow> (journal_error + upload_record option) \<times> transfer_world" where
  "claim_work E h w =
     (let now = e_now E (w_tick w); t = e_token E (w_tick w) in
      jbind (journal_call (ClaimNextVerification now t) (claim_next_verification h now t) w) (\<lambda>r w.
      case r of
        Some r \<Rightarrow> give (Some r) w
      | None \<Rightarrow> let now = e_now E (w_tick w); t = e_token E (w_tick w)
                in journal_call (ClaimNext now t) (claim_next h now t) w))"

definition settle_error :: "transfer_env \<Rightarrow> host \<Rightarrow> upload_record \<Rightarrow> transfer_error \<Rightarrow> transfer_world \<Rightarrow> transfer_result option transfer" where
  "settle_error E h r e w =
     (case u_attempt r of
        None \<Rightarrow> fail TWorker w
      | Some t \<Rightarrow>
          let st = error_state e; delay = transfer_delay e (u_failed_attempts r) in
          jbind (worker_local E h (\<lambda>w. let now = e_now E (w_tick w) in
                   journal_call (DeferAttempt now (u_id r) t st delay) (defer_attempt now (u_id r) t st delay) w) w)
            (\<lambda>_. give (Some \<lparr>tr_id = u_id r, tr_state = st, tr_issue = Some e\<rparr>)))"

definition run_once :: "upload_provider \<Rightarrow> transfer_env \<Rightarrow> host \<Rightarrow> transfer_world \<Rightarrow> transfer_result option transfer" where
  "run_once P E h w =
     (let n = w_tick w; w = step_tick w in
      if e_cancelled E n then give None w
      else jbind (worker_local E h (claim_work E h) w) (\<lambda>claimed w.
        case claimed of
          None \<Rightarrow> give None w
        | Some r \<Rightarrow>
            (case execute P E h r (logged (Claimed r) w) of
               (Inr state, w) \<Rightarrow> give (Some \<lparr>tr_id = u_id r, tr_state = state, tr_issue = None\<rparr>) w
             | (Inl e, w) \<Rightarrow> settle_error E h r e w)))"

definition new_transfer_world :: "journal \<Rightarrow> transfer_world" where
  "new_transfer_world j = \<lparr>w_journal = j, w_tick = 0, w_log = []\<rparr>"

text \<open>The worker's task runs it again and again.\<close>

definition transfer_runs :: "upload_provider \<Rightarrow> host \<Rightarrow> transfer_env list \<Rightarrow> transfer_world \<Rightarrow> transfer_world" where
  "transfer_runs P h Es w = fold (\<lambda>E w. snd (run_once P E h w)) Es w"

end
