(* ===== verification/Worker_Protocol.thy ===== *)
theory Worker_Protocol
  imports Worker_Transfers
begin

text \<open>
  What the transfer worker promises about the order of what it does, as a protocol: a step
  relation on the journal and the log that says what each event needs before it. The
  worker of \<open>Worker_Transfers\<close> refines the protocol, and the guarantees about its requests
  follow from the protocol.
\<close>

section \<open>Reading a log\<close>

text \<open>The last thing known about a save is that the provider has nothing of it: a reconciliation
  said so, or a claim found no checkpoint anywhere and the provider's begin sends nothing
  before its first checkpoint.\<close>

fun unrecorded :: "upload_provider \<Rightarrow> uuid \<Rightarrow> transfer_event list \<Rightarrow> bool" where
  "unrecorded P i (Claimed r # es) =
     (if u_id r = i then u_session_key r = None \<and> begin_is_mutation_free_until_checkpoint P (request_of r)
      else unrecorded P i es)"
| "unrecorded P i (Sent k c v # es) = (k \<noteq> i \<and> unrecorded P i es)"
| "unrecorded P i (_ # es) = unrecorded P i es"
| "unrecorded P i [] = False"

fun proved_uncommitted :: "upload_provider \<Rightarrow> uuid \<Rightarrow> transfer_event list \<Rightarrow> bool" where
  "proved_uncommitted P i (Reconciled k c v # es) = (if k = i then v = Inr RecUncommitted else proved_uncommitted P i es)"
| "proved_uncommitted P i (Loaded k c # es) = (if k = i then c = None \<and> unrecorded P i es else proved_uncommitted P i es)"
| "proved_uncommitted P i (Claimed r # es) = (u_id r \<noteq> i \<and> proved_uncommitted P i es)"
| "proved_uncommitted P i (Sent k c v # es) = (k \<noteq> i \<and> proved_uncommitted P i es)"
| "proved_uncommitted P i (_ # es) = proved_uncommitted P i es"
| "proved_uncommitted P i [] = False"

fun returned :: "uuid \<Rightarrow> transfer_event \<Rightarrow> bool" where
  "returned i (Ran (RetryVerifiedUncommitted k) ok) = (k = i)"
| "returned i _ = False"

fun begins :: "uuid \<Rightarrow> transfer_event \<Rightarrow> bool" where
  "begins i (Sent k (BeginUpload b) v) = (k = i)"
| "begins i _ = False"

text \<open>The requests that change something at the provider, with the checkpoint they use.\<close>

fun checkpoint_of :: "upload_call \<Rightarrow> string option" where
  "checkpoint_of (AllocateUpload c) = Some c"
| "checkpoint_of (UploadPart c offset bytes) = Some c"
| "checkpoint_of (UploadStream c bytes) = Some c"
| "checkpoint_of (CommitUpload c) = Some c"
| "checkpoint_of _ = None"

fun carries :: "uuid \<Rightarrow> transfer_event \<Rightarrow> bool" where
  "carries i (Sent k c v) = (k = i \<and> checkpoint_of c \<noteq> None)"
| "carries i _ = False"

text \<open>Since the save was last returned to the queue: a transfer began, and a request carried
  something. A fresh claim has not begun yet.\<close>

fun begun :: "uuid \<Rightarrow> transfer_event list \<Rightarrow> bool" where
  "begun i [] = False"
| "begun i (e # es) = (begins i e \<or> \<not> returned i e \<and> begun i es)"

fun carried :: "uuid \<Rightarrow> transfer_event list \<Rightarrow> bool" where
  "carried i [] = False"
| "carried i (e # es) = (carries i e \<or> \<not> returned i e \<and> carried i es)"

fun fresh :: "uuid \<Rightarrow> transfer_event list \<Rightarrow> bool" where
  "fresh i (Claimed r # es) = (if u_id r = i then u_state r = UploadingU else fresh i es)"
| "fresh i (e # es) = (\<not> begins i e \<and> \<not> returned i e \<and> fresh i es)"
| "fresh i [] = False"

text \<open>A checkpoint was saved in the vault and then recorded in the journal, and nothing was sent since.\<close>

fun saved_last :: "uuid \<Rightarrow> string \<Rightarrow> transfer_event list \<Rightarrow> bool" where
  "saved_last i c (Saved k c' # es) = (k = i \<and> c' = c)"
| "saved_last i c (Others ops # es) = saved_last i c es"
| "saved_last i c _ = False"

fun armed :: "uuid \<Rightarrow> string \<Rightarrow> transfer_event list \<Rightarrow> bool" where
  "armed i c (Ran (RecordSession k t s n) ok # es) = (k = i \<and> s = i \<and> ok \<and> saved_last i c es)"
| "armed i c (Others ops # es) = armed i c es"
| "armed i c (ReadPayload k bytes # es) = armed i c es"
| "armed i c _ = False"

text \<open>The bytes a request sends are those of a verified payload read before.\<close>

fun carries_payload :: "uuid \<Rightarrow> upload_call \<Rightarrow> transfer_event list \<Rightarrow> bool" where
  "carries_payload i (UploadPart c offset part) es \<longleftrightarrow>
     (\<exists>bytes. ReadPayload i bytes \<in> set es \<and> part = take (length part) (drop (unat offset) bytes))"
| "carries_payload i (UploadStream c bytes) es \<longleftrightarrow> ReadPayload i bytes \<in> set es"
| "carries_payload i (BeginUpload (Some bytes)) es \<longleftrightarrow> ReadPayload i bytes \<in> set es"
| "carries_payload i _ es \<longleftrightarrow> True"

section \<open>The protocol\<close>

definition may_send :: "uuid \<Rightarrow> upload_call \<Rightarrow> transfer_event list \<Rightarrow> bool" where
  "may_send i c es \<longleftrightarrow> carries_payload i c es
     \<and> (case checkpoint_of c of Some k \<Rightarrow> armed i k es | None \<Rightarrow> True)
     \<and> (case c of BeginUpload b \<Rightarrow> fresh i es | _ \<Rightarrow> True)"

text \<open>The calls the worker makes with its attempt, besides returning a save to the queue.\<close>

fun attempt_op :: "journal_op \<Rightarrow> bool" where
  "attempt_op (RecordSession i t k n) = True"
| "attempt_op (DeferAttempt now i t st d) = True"
| "attempt_op (Acknowledge i t n) = True"
| "attempt_op (ClaimNext now t) = True"
| "attempt_op (ClaimNextVerification now t) = True"
| "attempt_op _ = False"

definition left_pending :: "journal \<Rightarrow> uuid \<Rightarrow> bool" where
  "left_pending j i \<longleftrightarrow> (\<exists>r. fmlookup (uploads j) i = Some r \<and> u_state r \<noteq> PendingU)"

definition has_session :: "journal \<Rightarrow> uuid \<Rightarrow> bool" where
  "has_session j i \<longleftrightarrow> (\<exists>r. fmlookup (uploads j) i = Some r \<and> u_session_key r \<noteq> None \<and> u_state r \<noteq> PendingU)"

inductive protocol ::
    "upload_provider \<Rightarrow> host \<Rightarrow> (journal_op \<Rightarrow> bool) \<Rightarrow> journal \<times> transfer_event list \<Rightarrow> journal \<times> transfer_event list \<Rightarrow> bool"
  for P h A where
  Interfered: "list_all A ops \<Longrightarrow> protocol P h A (j, es) (journal_run h ops j, Others ops # es)"
| Called: "attempt_op op \<Longrightarrow> (case op of RecordSession i t k n \<Rightarrow> ok \<longrightarrow> has_session (journal_exec h op j) i | _ \<Rightarrow> True)
    \<Longrightarrow> protocol P h A (j, es) (journal_exec h op j, Ran op ok # es)"
| Claims: "op = ClaimNext now t \<or> op = ClaimNextVerification now t \<Longrightarrow> j' = journal_exec h op j
    \<Longrightarrow> fmlookup (uploads j') (u_id r) = Some r \<Longrightarrow> u_state r \<in> {UploadingU, VerifyingU}
    \<Longrightarrow> u_state r = UploadingU \<longrightarrow> \<not> left_pending j (u_id r)
    \<Longrightarrow> protocol P h A (j, es) (j', Claimed r # Ran op ok # es)"
| Returns: "proved_uncommitted P i es
    \<Longrightarrow> protocol P h A (j, es) (journal_exec h (RetryVerifiedUncommitted i) j, Ran (RetryVerifiedUncommitted i) ok # es)"
| Reads: "payload h i j = (Inr bytes, j) \<Longrightarrow> protocol P h A (j, es) (j, ReadPayload i bytes # es)"
| Saves: "protocol P h A (j, es) (j, Saved i c # es)"
| Loads: "protocol P h A (j, es) (j, Loaded i c' # es)"
| Removes: "protocol P h A (j, es) (j, Removed i # es)"
| Sends: "may_send i c es \<Longrightarrow> protocol P h A (j, es) (j, Sent i c v # es)"
| Reconciles: "protocol P h A (j, es) (j, Reconciled i c' v' # es)"

end
