(* ===== verification/Worker_Refinement.thy ===== *)
theory Worker_Refinement
  imports Worker_Protocol
begin

text \<open>
  The transfer worker follows the protocol: one lemma per function of \<open>Worker_Transfers\<close>, with what
  the log holds when the function returns a value.
\<close>

section \<open>Following the protocol\<close>

definition view :: "transfer_world \<Rightarrow> journal \<times> transfer_event list" where
  "view w = (w_journal w, w_log w)"

interpretation tw: stepwise "protocol P h A" view for P h A .

abbreviation follows :: "upload_provider \<Rightarrow> host \<Rightarrow> (journal_op \<Rightarrow> bool) \<Rightarrow> transfer_world \<Rightarrow> transfer_world \<Rightarrow> bool" where
  "follows P h A \<equiv> stepwise.leads (protocol P h A) view"

lemmas follows_refl [simp] = tw.leads_refl and follows_view = tw.leads_seen and follows_step = tw.leads_step
  and follows_trans = tw.leads_trans and follows_jbind = tw.leads_jbind

text \<open>An environment whose other calls of the journal are all of the kind allowed.\<close>

definition tame :: "(journal_op \<Rightarrow> bool) \<Rightarrow> transfer_env \<Rightarrow> bool" where
  "tame A E \<longleftrightarrow> (\<forall>n. list_all A (e_others E n))"

lemma world_simps [simp]:
  "w_journal (step_tick w) = w_journal w" "w_log (step_tick w) = w_log w" "view (step_tick w) = view w"
  "w_journal (logged e w) = w_journal w" "w_log (logged e w) = e # w_log w"
  "w_tick (step_tick w) = Suc (w_tick w)" "w_tick (logged e w) = w_tick w"
  "w_log (interfere E h w) = Others (e_others E (w_tick w)) # w_log w"
  "w_journal (interfere E h w) = journal_run h (e_others E (w_tick w)) (w_journal w)"
  by (simp_all add: step_tick_def logged_def view_def interfere_def Let_def)

lemma view_logged [simp]: "view (logged e w) = (w_journal w, e # w_log w)"
  by (simp add: view_def)

lemma follows_tick [simp]: "follows P h A (step_tick w) w' = follows P h A w w'" "follows P h A w (step_tick w') = follows P h A w w'"
  by (simp_all add: tw.leads_def)

lemma protocol_ok: "protocol P h A s s' \<Longrightarrow> journal_ok h (fst s) \<Longrightarrow> journal_ok h (fst s')"
  by (induction rule: protocol.induct) (auto intro: run_ok jm.exec_inv simp del: journal_exec.simps)

lemma follows_ok: "follows P h A w w' \<Longrightarrow> journal_ok h (w_journal w) \<Longrightarrow> journal_ok h (w_journal w')"
  using tw.leads_keeps [where kept = "\<lambda>s. journal_ok h (fst s)", of P h A w w', OF protocol_ok] by (simp add: view_def)

lemma protocol_log: "protocol P h A s s' \<Longrightarrow> suffix es (snd s) \<Longrightarrow> suffix es (snd s')"
  by (induction rule: protocol.induct) (auto simp: suffix_def)

lemma follows_log: "follows P h A w w' \<Longrightarrow> \<exists>xs. w_log w' = xs @ w_log w"
  using tw.leads_keeps [where kept = "\<lambda>s. suffix (w_log w) (snd s)", of P h A w w', OF protocol_log] by (simp add: view_def suffix_def)

section \<open>The primitives\<close>

lemma interfere_follows: "tame A E \<Longrightarrow> follows P h A w (interfere E h w)"
  by (rule follows_step) (simp add: view_def protocol.Interfered tame_def)

lemma worker_local_Inr [simp]:
  "worker_local E h action w = (Inr x, w') \<longleftrightarrow> e_fault E (w_tick w) = None \<and> action (interfere E h w) = (Inr x, w')"
  by (cases "action (interfere E h w)"; cases "fst (action (interfere E h w))")
    (auto simp: worker_local_def split: option.splits local_fault.splits)

lemma worker_local_follows:
  assumes "tame A E" "journal_ok h (w_journal w)"
    and "\<And>w1. journal_ok h (w_journal w1) \<Longrightarrow> w1 = interfere E h w \<Longrightarrow> follows P h A w1 (snd (action w1))"
  shows "follows P h A w (snd (worker_local E h action w))"
  using interfere_follows [OF assms(1), of P h w] assms(3) [OF _ refl] follows_ok [OF interfere_follows [OF assms(1)] assms(2)]
  by (auto simp: worker_local_def intro: follows_trans split: option.splits local_fault.splits prod.splits)

lemma journal_call_Inr [simp]:
  "journal_call op f w = (Inr x, w') \<longleftrightarrow>
     (\<exists>j. f (w_journal w) = (Inr x, j) \<and> w' = logged (Ran op True) (step_tick (w\<lparr>w_journal := j\<rparr>)))"
  by (auto simp: journal_call_def split: prod.splits)

lemma journal_call_view:
  "view (snd (journal_call op f w)) = (snd (f (w_journal w)), Ran op (\<not> isl (fst (f (w_journal w)))) # w_log w)"
  by (auto simp: journal_call_def view_def step_tick_def logged_def split: prod.splits)

lemma record_session_recorded:
  assumes "journal_ok h j" "record_session i t k n j = (Inr u, j')"
  shows "has_session j' i"
proof -
  obtain r where r: "fmlookup (uploads j) i = Some r" "upload_save (r\<lparr>u_session_key := Some k, u_transferred := n, u_state := UploadingU\<rparr>) j = (Inr u, j')"
    using assms(2) by (auto simp: record_session_def jbind_Inr attempt_eq split: if_splits)
  moreover have "tables_ok j" "u_id r = i"
    using assms(1) r(1) upload_rowD(1) by (auto simp: journal_ok_def)
  ultimately show ?thesis
    using upload_save_eq [of j "r\<lparr>u_session_key := Some k, u_transferred := n, u_state := UploadingU\<rparr>" r]
    by (auto simp: put_upload_def has_session_def)
qed

lemma attempt_call_follows:
  assumes "journal_ok h (w_journal w)" "attempt_op op" "snd (f (w_journal w)) = journal_exec h op (w_journal w)"
    and "\<And>i t k n j. op = RecordSession i t k n \<Longrightarrow> isl (fst (f j)) = isl (fst (record_session i t k n j))"
  shows "follows P h A w (snd (journal_call op f w))"
proof (rule follows_step)
  have "case op of RecordSession i t k n \<Rightarrow> \<not> isl (fst (f (w_journal w))) \<longrightarrow> has_session (journal_exec h op (w_journal w)) i
    | _ \<Rightarrow> True"
  proof (cases op)
    case (RecordSession i t k n)
    then show ?thesis
      using record_session_recorded [OF assms(1), of i t k n] assms(4) [OF RecordSession]
      by (cases "record_session i t k n (w_journal w)"; cases "fst (record_session i t k n (w_journal w))") auto
  qed auto
  then show "protocol P h A (view w) (view (snd (journal_call op f w)))"
    unfolding journal_call_view assms(3) unfolding view_def by (rule protocol.Called [OF assms(2)])
qed

lemma refused_follows [simp]: "follows P h A w (snd (refused_call f w))"
  by (simp add: refused_call_def)

lemma payload_call_follows: "follows P h A w (snd (payload_call h i w))"
proof (cases "payload h i (w_journal w)")
  case (Pair v j)
  then have "j = w_journal w"
    by (rule payload_Inr_snd)
  then show ?thesis
    using Pair by (cases v) (auto simp: payload_call_def give_def fail_def intro!: follows_step protocol.Reads simp: view_def)
qed

lemma payload_call_Inr: "payload_call h i w = (Inr bytes, w') \<Longrightarrow> w' = logged (ReadPayload i bytes) w"
  by (auto simp: payload_call_def split: prod.splits sum.splits)

lemma remote_step_follows:
  "may_send i c (w_log w) \<Longrightarrow> follows P h A w (snd (remote_step E i rq c w))"
  by (auto simp: remote_step_def Let_def intro!: follows_step protocol.Sends simp: view_def)

lemma remote_step_tick:
  "may_send i c (w_log w) \<Longrightarrow> follows P h A w (snd (remote_step E i rq c (step_tick w)))"
  using remote_step_follows [of i c "step_tick w"] by simp

lemma remote_reconcile_follows: "follows P h A w (snd (remote_reconcile E i rq c w))"
  by (auto simp: remote_reconcile_def Let_def intro!: follows_step protocol.Reconciles simp: view_def)

lemma remote_reconcile_Inr:
  "remote_reconcile E i rq c w = (Inr v, w') \<Longrightarrow> w' = logged (Reconciled i c (Inr v)) (step_tick w)"
  by (auto simp: remote_reconcile_def Let_def split: if_splits) (metis map_sum_sel(2) sum.collapse(2) sum.disc(2) isl_map_sum sum.sel(2) id_apply)

lemma credential_follows:
  "protocol P h A (view w) (w_journal w, e # w_log w) \<Longrightarrow> follows P h A w (snd (credential E e x w))"
  by (auto simp: credential_def Let_def intro!: follows_step split: vault_outcome.splits)

lemma credential_Inr: "credential E e x w = (Inr y, w') \<Longrightarrow> y = x \<and> w' = logged e (step_tick w)"
  by (auto simp: credential_def Let_def split: if_splits vault_outcome.splits)

section \<open>Checkpoints\<close>

lemma save_checkpoint_follows:
  assumes "tame A E" "journal_ok h (w_journal w)"
  shows "follows P h A w (snd (save_checkpoint E h i t c offset w))"
  unfolding save_checkpoint_def
proof (rule follows_jbind)
  show first: "follows P h A w (snd (credential E (Saved i c) () w))"
    by (rule credential_follows) (simp add: view_def protocol.Saves)
  fix x w1
  assume "credential E (Saved i c) () w = (Inr x, w1)"
  then have "journal_ok h (w_journal w1)"
    using follows_ok [OF first assms(2)] by simp
  then show "follows P h A w1 (snd (worker_local E h (journal_call (RecordSession i t i offset) (record_session i t i offset)) w1))"
    using assms(1) by (intro worker_local_follows) (auto intro!: attempt_call_follows)
qed

lemma save_checkpoint_armed:
  "save_checkpoint E h i t c offset w = (Inr u, w') \<Longrightarrow> armed i c (w_log w')"
  by (auto simp: save_checkpoint_def jbind_Inr dest!: credential_Inr)

lemma save_checkpoint_reads:
  "save_checkpoint E h i t c offset w = (Inr u, w') \<Longrightarrow> set (w_log w) \<subseteq> set (w_log w')"
  by (auto simp: save_checkpoint_def jbind_Inr dest!: credential_Inr)

lemma clean_checkpoint_follows: "follows P h A w (clean_checkpoint E i w)"
  by (auto simp: clean_checkpoint_def Let_def intro!: credential_follows protocol.Removes simp: view_def
      intro: follows_tick(1) [THEN iffD1])

lemma clean_checkpoint_log: "w_log (clean_checkpoint E i w) \<in> {w_log w, Removed i # w_log w}"
  by (auto simp: clean_checkpoint_def Let_def credential_def split: vault_outcome.splits)

section \<open>Opening a transfer\<close>

lemma return_uncommitted_follows:
  assumes "tame A E" "journal_ok h (w_journal w)" "proved_uncommitted P i (w_log w)"
  shows "follows P h A w (snd (return_uncommitted E h i t w))"
proof -
  let ?w = "clean_checkpoint E i w"
  have clean: "follows P h A w ?w" "journal_ok h (w_journal ?w)"
    using clean_checkpoint_follows follows_ok [OF clean_checkpoint_follows assms(2)] by blast+
  have proved: "proved_uncommitted P i (w_log ?w)"
    using clean_checkpoint_log [of E i w] assms(3) by auto
  show ?thesis
    unfolding return_uncommitted_def
  proof (rule follows_trans [OF clean(1)], rule worker_local_follows [OF assms(1) clean(2)], unfold Let_def, rule follows_jbind)
    fix w1 assume w1: "journal_ok h (w_journal w1)" "w1 = interfere E h ?w"
    let ?now = "e_now E (w_tick w1)"
    show "follows P h A w1 (snd (journal_call (DeferAttempt ?now i t VerifyRequiredU 0) (stop_attempt ?now i t VerifyRequiredU) w1))"
      using w1(1) by (auto intro!: attempt_call_follows simp: stop_attempt_def)
    fix x w2 assume "journal_call (DeferAttempt ?now i t VerifyRequiredU 0) (stop_attempt ?now i t VerifyRequiredU) w1 = (Inr x, w2)"
    then have "proved_uncommitted P i (w_log w2)"
      using proved w1(2) by auto
    then show "follows P h A w2 (snd (journal_call (RetryVerifiedUncommitted i) (retry_verified_uncommitted h i) w2))"
      using protocol.Returns [of P i "w_log w2" h A "w_journal w2"]
      by (intro follows_step) (simp add: journal_call_view view_def [of w2])
  qed
qed

lemma fresh_cases: "fresh i (Others ops # es) = fresh i es" "fresh i (ReadPayload k b # es) = fresh i es"
  by simp_all

lemma open_fresh_follows:
  assumes "tame A E" "journal_ok h (w_journal w)" "fresh (u_id r) (w_log w)"
  shows "follows P h A w (snd (open_fresh P E h r w))"
proof -
  have payload: "follows P h A w (snd (worker_local E h (payload_call h (u_id r)) w))"
    using assms(1,2) by (intro worker_local_follows) (auto intro: payload_call_follows)
  show ?thesis
    unfolding open_fresh_def Let_def
  proof (rule follows_jbind)
    show "follows P h A w (snd (if requires_begin_payload P (request_of r)
        then jbind (worker_local E h (payload_call h (u_id r)) w) (\<lambda>bytes. remote_step E (u_id r) (request_of r) (BeginUpload (Some bytes)))
        else remote_step E (u_id r) (request_of r) (BeginUpload None) w))"
      using assms(3) payload
      by (auto intro!: follows_jbind remote_step_follows dest!: payload_call_Inr simp: may_send_def)
  qed simp
qed

lemma inspect_saved_follows: "follows P h A w (snd (inspect_saved E i rq c w))"
  using remote_step_follows [of i "InspectUpload c" w P h A E rq]
  by (auto simp: inspect_saved_def may_send_def split: prod.splits sum.splits)

lemma load_checkpoint_follows: "follows P h A w (snd (load_checkpoint E k w))"
  by (auto simp: load_checkpoint_def Let_def view_def intro!: credential_follows protocol.Loads)

lemma open_verifying_follows:
  assumes "tame A E" "journal_ok h (w_journal w)" "w_log w = xs @ Claimed r # es" "list_all (\<lambda>e. case e of Others ops \<Rightarrow> True | _ \<Rightarrow> False) xs"
  shows "follows P h A w (snd (open_verifying P E h r t w))"
  unfolding open_verifying_def Let_def
proof (rule follows_jbind)
  let ?k = "case u_session_key r of None \<Rightarrow> u_id r | Some k \<Rightarrow> k"
  show first: "follows P h A w (snd (load_checkpoint E ?k w))"
    by (rule load_checkpoint_follows)
  fix c w1 assume load: "load_checkpoint E ?k w = (Inr c, w1)"
  have "unrecorded P i (xs @ Claimed r # es) = unrecorded P i (Claimed r # es)" for i
    using assms(4) by (induction xs) (auto split: transfer_event.splits)
  then have "proved_uncommitted P (u_id r) (w_log w1)" if "c = None" "u_session_key r = None" "begin_is_mutation_free_until_checkpoint P (request_of r)"
    using load that assms(3) by (auto simp: load_checkpoint_def Let_def dest!: credential_Inr)
  then show "follows P h A w1 (snd (case c of
        Some c \<Rightarrow> inspect_saved E (u_id r) (request_of r) c w1
      | None \<Rightarrow> if u_session_key r = None \<and> begin_is_mutation_free_until_checkpoint P (request_of r)
          then jbind (return_uncommitted E h (u_id r) t w1) (\<lambda>_. give (Returned PendingU))
          else give (Unknown None) w1))"
    using assms(1) follows_ok [OF first assms(2)] load
    by (auto intro!: follows_jbind return_uncommitted_follows inspect_saved_follows split: option.splits)
qed

lemma reconcile_unknown_follows:
  assumes "tame A E" "journal_ok h (w_journal w)"
  shows "follows P h A w (snd (reconcile_unknown E h r t c w))"
  unfolding reconcile_unknown_def Let_def
proof (rule follows_jbind)
  show first: "follows P h A w (snd (remote_reconcile E (u_id r) (request_of r) c w))"
    by (rule remote_reconcile_follows)
  fix v w1 assume "remote_reconcile E (u_id r) (request_of r) c w = (Inr v, w1)"
  then show "follows P h A w1 (snd (case v of
        RecPackageHandoffCommitted receipt \<Rightarrow> give (Opened (StepPackageHandoffComplete receipt) False) w1
      | RecPackageCommitted receipt \<Rightarrow> give (Opened (StepPackageComplete receipt) False) w1
      | RecCommitted n \<Rightarrow> give (Opened (StepComplete n) False) w1
      | RecHandoffCommitted current backup \<Rightarrow> give (Opened (StepHandoffComplete current backup) False) w1
      | RecConflict \<Rightarrow> fail (TProvider UConflict) w1
      | RecUncommitted \<Rightarrow> jbind (return_uncommitted E h (u_id r) t w1) (\<lambda>_. give (Returned PendingU))))"
    using assms by (auto intro!: follows_jbind return_uncommitted_follows dest!: remote_reconcile_Inr split: reconciliation.splits)
qed

lemma open_transfer_follows:
  assumes "tame A E" "journal_ok h (w_journal w)" "w_log w = xs @ Claimed r # es" "list_all (\<lambda>e. case e of Others ops \<Rightarrow> True | _ \<Rightarrow> False) xs"
    and "u_state r \<in> {UploadingU, VerifyingU}"
  shows "follows P h A w (snd (open_transfer P E h r t w))"
  unfolding open_transfer_def
proof (rule follows_jbind)
  have "fresh i (xs @ Claimed r # es) = fresh i (Claimed r # es)" for i
    using assms(4) by (induction xs) (auto split: transfer_event.splits)
  then have "fresh (u_id r) (w_log w)" if "u_state r \<noteq> VerifyingU"
    using that assms(3,5) by simp
  then show first: "follows P h A w (snd (if u_state r = VerifyingU then open_verifying P E h r t w else open_fresh P E h r w))"
    using open_fresh_follows [OF assms(1,2)] open_verifying_follows [OF assms(1-4)] by simp
  fix v w1 assume "(if u_state r = VerifyingU then open_verifying P E h r t w else open_fresh P E h r w) = (Inr v, w1)"
  then have "journal_ok h (w_journal w1)"
    using follows_ok [OF first assms(2)] by simp
  then show "follows P h A w1 (snd (case v of Unknown saved \<Rightarrow> reconcile_unknown E h r t saved w1 | _ \<Rightarrow> give v w1))"
    using assms(1) by (auto intro: reconcile_unknown_follows split: opened_transfer.splits)
qed

section \<open>Driving a transfer\<close>

text \<open>The payload the loop keeps was read before.\<close>

definition payload_read :: "uuid \<Rightarrow> loop_state \<Rightarrow> transfer_world \<Rightarrow> bool" where
  "payload_read i ls w \<longleftrightarrow> (\<forall>bytes. loop_payload ls = Some bytes \<longrightarrow> ReadPayload i bytes \<in> set (w_log w))"

lemma turn_on_follows: "follows P h A w (snd m) \<Longrightarrow> follows P h A w (snd (turn_on ls refuse m))"
  unfolding turn_on_def by (rule follows_jbind) (auto split: option.splits)

lemma checkpointed_send_follows:
  assumes "tame A E" "journal_ok h (w_journal w)" "\<And>es. armed i c es \<Longrightarrow> set (w_log w) \<subseteq> set es \<Longrightarrow> may_send i call es"
  shows "follows P h A w (snd (jbind (save_checkpoint E h i t c offset w) (\<lambda>_. remote_step E i rq call)))"
proof (rule follows_jbind)
  show "follows P h A w (snd (save_checkpoint E h i t c offset w))"
    by (rule save_checkpoint_follows [OF assms(1,2)])
qed (auto intro!: remote_step_follows assms(3) dest: save_checkpoint_armed save_checkpoint_reads)

lemma turn_allocate_follows:
  assumes "tame A E" "journal_ok h (w_journal w)"
  shows "follows P h A w (snd (turn_allocate E h r t ls c w))"
  using save_checkpoint_follows [OF assms, of P "u_id r" t c 0]
  by (auto simp: turn_allocate_def Let_def may_send_def dest!: save_checkpoint_armed intro!: follows_jbind turn_on_follows remote_step_tick)

lemma turn_prepared_follows:
  "tame A E \<Longrightarrow> journal_ok h (w_journal w) \<Longrightarrow> follows P h A w (snd (turn_prepared E h r t ls c w))"
  by (auto simp: turn_prepared_def may_send_def intro!: turn_on_follows checkpointed_send_follows)

lemma turn_commit_follows:
  "tame A E \<Longrightarrow> journal_ok h (w_journal w) \<Longrightarrow> follows P h A w (snd (turn_commit E h r t ls c w))"
  by (auto simp: turn_commit_def Let_def may_send_def intro!: turn_on_follows checkpointed_send_follows)

lemma turn_stream_follows:
  assumes "tame A E" "journal_ok h (w_journal w)"
  shows "follows P h A w (snd (turn_stream E h r t ls c w))"
  unfolding turn_stream_def
proof (rule turn_on_follows, rule follows_jbind)
  show first: "follows P h A w (snd (save_checkpoint E h (u_id r) t c 0 w))"
    by (rule save_checkpoint_follows [OF assms])
  fix x w1 assume save: "save_checkpoint E h (u_id r) t c 0 w = (Inr x, w1)"
  then have "journal_ok h (w_journal w1)" "armed (u_id r) c (w_log w1)"
    using follows_ok [OF first assms(2)] save_checkpoint_armed by auto
  then show "follows P h A w1 (snd (jbind (worker_local E h (payload_call h (u_id r)) w1)
      (\<lambda>bytes. remote_step E (u_id r) (request_of r) (UploadStream c bytes))))"
    using assms(1)
    by (auto intro!: follows_jbind worker_local_follows payload_call_follows remote_step_follows dest!: payload_call_Inr simp: may_send_def)
qed

lemma loaded_payload_Inr:
  assumes "loaded_payload E h i ls w = (Inr bytes, w')" "payload_read i ls w" "armed i c (w_log w)"
  shows "ReadPayload i bytes \<in> set (w_log w') \<and> armed i c (w_log w') \<and> set (w_log w) \<subseteq> set (w_log w')"
  using assms by (auto simp: loaded_payload_def payload_read_def dest!: payload_call_Inr split: option.splits)

lemma loaded_payload_follows:
  "tame A E \<Longrightarrow> journal_ok h (w_journal w) \<Longrightarrow> follows P h A w (snd (loaded_payload E h i ls w))"
  by (auto simp: loaded_payload_def intro!: worker_local_follows payload_call_follows split: option.splits)

lemma read_range_Inr:
  "read_range E bytes p w = (Inr part, w') \<Longrightarrow>
     part = take (length part) (drop (unat (up_offset p)) bytes) \<and> w_log w' = w_log w"
  by (auto simp: read_range_def Let_def split: if_splits)

lemma read_range_follows: "follows P h A w (snd (read_range E bytes p w))"
  by (simp add: read_range_def Let_def follows_view)

lemma turn_continue_follows:
  assumes "tame A E" "journal_ok h (w_journal w)" "payload_read (u_id r) ls w"
  shows "follows P h A w (snd (turn_continue E h r t ls p w))"
proof (cases "range_valid p (ur_size (request_of r))")
  case True
  let ?i = "u_id r" and ?c = "up_checkpoint p"
  have save: "follows P h A w (snd (save_checkpoint E h ?i t ?c (uint (up_offset p)) w))"
    by (rule save_checkpoint_follows [OF assms(1,2)])
  have sends: "follows P h A w3 (snd (turn_on ls' refuse (remote_step E ?i (request_of r) (UploadPart ?c (up_offset p) part) w3)))"
    if "read_range E bytes p w2 = (Inr part, w3)" "ReadPayload ?i bytes \<in> set (w_log w2)" "armed ?i ?c (w_log w2)" for ls' refuse bytes part w2 w3
    using that read_range_Inr [OF that(1)] by (auto intro!: turn_on_follows remote_step_follows simp: may_send_def)
  have reads: "follows P h A w2 (snd (jbind (read_range E bytes p w2) (\<lambda>part w.
      turn_on ls' refuse (remote_step E ?i (request_of r) (UploadPart ?c (up_offset p) part) w))))"
    if "ReadPayload ?i bytes \<in> set (w_log w2)" "armed ?i ?c (w_log w2)" for ls' refuse bytes w2
    by (rule follows_jbind [OF read_range_follows]) (rule sends [OF _ that])
  have "follows P h A w1 (snd (jbind (loaded_payload E h ?i ls w1) (\<lambda>bytes w. jbind (read_range E bytes p w) (\<lambda>part w.
      turn_on (ls\<lparr>prepared_allowed := False, loop_payload := Some bytes\<rparr>) (\<lambda>next. uncertain_if (stays_behind p next))
        (remote_step E ?i (request_of r) (UploadPart ?c (up_offset p) part) w)))))"
    if w1: "save_checkpoint E h ?i t ?c (uint (up_offset p)) w = (Inr x, w1)" for x w1
  proof (rule follows_jbind)
    have ok: "journal_ok h (w_journal w1)" "armed ?i ?c (w_log w1)" "payload_read ?i ls w1"
      using follows_ok [OF save assms(2)] save_checkpoint_armed [OF w1] save_checkpoint_reads [OF w1] w1 assms(3)
      by (auto simp: payload_read_def)
    show "follows P h A w1 (snd (loaded_payload E h ?i ls w1))"
      by (rule loaded_payload_follows [OF assms(1) ok(1)])
  qed (use reads loaded_payload_Inr save_checkpoint_armed [OF w1] save_checkpoint_reads [OF w1] assms(3) in
      \<open>fastforce simp: payload_read_def\<close>)
  from follows_jbind [OF save this] show ?thesis
    using True by (simp add: turn_continue_def)
qed (simp add: turn_continue_def)

lemma acknowledged_follows:
  assumes "tame A E" "journal_ok h (w_journal w)" "\<And>w1. journal_ok h (w_journal w1) \<Longrightarrow> follows P h A w1 (snd (receipt w1))"
  shows "follows P h A w (snd (acknowledged E h i receipt w))"
  unfolding acknowledged_def turn_end_def
  by (rule follows_jbind) (auto intro!: worker_local_follows assms clean_checkpoint_follows)

lemmas turn_follows = turn_allocate_follows turn_prepared_follows turn_commit_follows turn_stream_follows
  turn_continue_follows acknowledged_follows attempt_call_follows

lemma turn_of_follows:
  assumes "tame A E" "journal_ok h (w_journal w)" "payload_read (u_id r) ls w"
  shows "follows P h A w (snd (turn_of E h r t ls s w))"
proof -
  let ?w = "step_tick w"
  have w: "journal_ok h (w_journal ?w)" "payload_read (u_id r) ls ?w"
    using assms(2,3) by (simp_all add: payload_read_def)
  have "follows P h A ?w (snd (turn_of E h r t ls s w))"
    using assms(1) w by (auto simp: turn_of_def Let_def intro!: turn_follows simp del: follows_tick split: upload_step.splits)
  then show ?thesis
    by simp
qed

lemma remote_step_Inr: "remote_step E i rq c w = (Inr s, w') \<Longrightarrow> w' = logged (Sent i c (Inr s)) (step_tick w)"
  by (cases "e_step E (w_tick w) i rq c") (auto simp: remote_step_def Let_def split: if_splits)

lemma turn_on_remote: "turn_on ls refuse m = (Inr x, w') \<Longrightarrow> \<exists>s. m = (Inr s, w')"
  by (auto simp: turn_on_def jbind_Inr split: option.splits)

lemma turn_continue_payload:
  assumes "turn_continue E h r t ls p w = (Inr (Inr (ls', s')), w')" "payload_read (u_id r) ls w"
  shows "payload_read (u_id r) ls' w'"
proof -
  obtain w1 w2 bytes w3 part where steps: "save_checkpoint E h (u_id r) t (up_checkpoint p) (uint (up_offset p)) w = (Inr (), w1)"
      "loaded_payload E h (u_id r) ls w1 = (Inr bytes, w2)" "read_range E bytes p w2 = (Inr part, w3)"
      "turn_on (ls\<lparr>prepared_allowed := False, loop_payload := Some bytes\<rparr>) (\<lambda>next. uncertain_if (stays_behind p next))
        (remote_step E (u_id r) (request_of r) (UploadPart (up_checkpoint p) (up_offset p) part) w3) = (Inr (Inr (ls', s')), w')"
    using assms(1) by (auto simp: turn_continue_def jbind_Inr split: if_splits)
  have "payload_read (u_id r) ls w1"
    using save_checkpoint_reads [OF steps(1)] assms(2) by (auto simp: payload_read_def)
  then show ?thesis
    using loaded_payload_Inr [OF steps(2) _ save_checkpoint_armed [OF steps(1)]] read_range_Inr [OF steps(3)]
      turn_on_Inr [OF steps(4)] turn_on_remote [OF steps(4)]
    by (auto simp: payload_read_def dest!: remote_step_Inr)
qed

lemma turn_of_payload:
  assumes "turn_of E h r t ls s w = (Inr (Inr (ls', s')), w')" "payload_read (u_id r) ls w" "tame A E" "journal_ok h (w_journal w)"
  shows "payload_read (u_id r) ls' w'"
proof (cases "\<exists>p. s = StepContinue p")
  case True
  then obtain p where "turn_continue E h r t ls p (step_tick w) = (Inr (Inr (ls', s')), w')"
    using assms(1) by (auto simp: turn_of_def Let_def split: if_splits)
  then show ?thesis
    using turn_continue_payload assms(2) by (auto simp: payload_read_def)
next
  case False
  obtain xs where log: "w_log w' = xs @ w_log w"
    using follows_log [OF turn_of_follows [OF assms(3,4,2)], of t s] assms(1) by auto
  have "loop_payload ls' = loop_payload ls"
    using assms(1) False
    by (auto simp: turn_of_def Let_def acknowledged_def turn_end_Inr turn_allocate_def turn_prepared_def turn_commit_def
        turn_stream_def jbind_Inr dest!: turn_on_Inr split: if_splits upload_step.splits)
  then show ?thesis
    using assms(2) log by (auto simp: payload_read_def)
qed

lemma drive_follows:
  assumes "tame A E" "journal_ok h (w_journal w)" "payload_read (u_id r) ls w"
  shows "follows P h A w (snd (drive E h r t ls s w))"
  using assms
proof (induction E h r t ls s w rule: drive.induct)
  case (1 E h r t ls s w)
  show ?case
    unfolding drive.simps [of E h r t ls s w]
  proof (rule follows_jbind)
    show first: "follows P h A w (snd (turn_of E h r t ls s w))"
      by (rule turn_of_follows [OF "1.prems"])
    fix v w1 assume v: "turn_of E h r t ls s w = (Inr v, w1)"
    then have "journal_ok h (w_journal w1)"
      using follows_ok [OF first "1.prems"(2)] by simp
    then show "follows P h A w1 (snd (case v of Inl state \<Rightarrow> give state w1 | Inr (ls, s) \<Rightarrow> drive E h r t ls s w1))"
      using "1.IH" [OF v _ refl] "1.prems"(1) turn_of_payload [OF _ "1.prems"(3,1,2)] v
      by (auto split: sum.splits)
  qed
qed

section \<open>A run\<close>

lemma claimed_from_pending:
  assumes "journal_ok h j" "claim_next h now t j = (Inr (Some r), j')"
  shows "fmlookup (uploads j') (u_id r) = Some r \<and> u_state r = UploadingU \<and> u_attempt r = Some t \<and> \<not> left_pending j (u_id r)"
proof -
  obtain j1 r1 where c: "journal_ok h j1" "jsteps h {} j j1" "r1 \<in> set (claimable PendingU now j1)"
      "r = r1\<lparr>u_state := UploadingU, u_attempt := Some t\<rparr>" "j' = put_upload r j1"
    by (rule claim_next_Some [OF assms])
  then have r1: "fmlookup (uploads j1) (u_id r) = Some r1" "u_state r1 = PendingU"
    using claimable_iff [of j1 r1 PendingU now] by (auto simp: journal_ok_def)
  have "\<not> left_pending j (u_id r)"
  proof
    assume "left_pending j (u_id r)"
    moreover have "jsteps h (- {Replay (u_id r)}) j j1"
      using c(2) rtranclp_mono [of "jstep h {}" "jstep h (- {Replay (u_id r)})"] jstep_mono by blast
    ultimately have "left_pending j1 (u_id r)"
      using lp.steps_kept [of h "u_id r" j j1] assms(1) by (simp add: left_pending_def)
    then show False
      using r1 by (simp add: left_pending_def)
  qed
  then show ?thesis
    using c(4,5) by (simp add: put_upload_def)
qed

lemma claimed_to_verify:
  assumes "journal_ok h j" "claim_next_verification h now t j = (Inr (Some r), j')"
  shows "fmlookup (uploads j') (u_id r) = Some r \<and> u_state r = VerifyingU \<and> u_attempt r = Some t"
proof (rule resolve_ready_steps [OF assms(1), of UNIV])
  fix j1
  assume j1: "resolve_ready_generations h j = (Inr (ready_rows j1 = []), j1)" "journal_ok h j1"
  then obtain i where "claim_verification i t j1 = (Inr r, j')"
    using assms(2) by (auto simp: claim_next_verification_def jbind_Inr split: if_splits list.splits)
  then obtain r1 where r1: "fmlookup (uploads j1) i = Some r1" "r = r1\<lparr>u_state := VerifyingU, u_attempt := Some t\<rparr>"
      "upload_save r j1 = (Inr (), j')"
    by (auto simp: claim_verification_def jbind_Inr Let_def split: if_splits)
  moreover have "tables_ok j1" "u_id r1 = i"
    using j1(2) upload_rowD(1) [OF _ r1(1)] by (auto simp: journal_ok_def)
  ultimately show ?thesis
    using upload_save_eq [of j1 r r1] by (auto simp: put_upload_def)
qed

text \<open>A claim with the event that says what it returned.\<close>

definition noted :: "(journal_error + upload_record option) \<times> transfer_world \<Rightarrow> transfer_world" where
  "noted m = (case fst m of Inr (Some r) \<Rightarrow> logged (Claimed r) (snd m) | _ \<Rightarrow> snd m)"

lemma claim_call_follows:
  assumes "journal_ok h (w_journal w)" "op = ClaimNext now t \<or> op = ClaimNextVerification now t"
    and "snd (f (w_journal w)) = journal_exec h op (w_journal w)"
    and "\<And>r j'. f (w_journal w) = (Inr (Some r), j') \<Longrightarrow> fmlookup (uploads j') (u_id r) = Some r
      \<and> u_state r \<in> {UploadingU, VerifyingU} \<and> (u_state r = UploadingU \<longrightarrow> \<not> left_pending (w_journal w) (u_id r))"
  shows "follows P h A w (noted (journal_call op f w))"
proof (cases "\<exists>r. fst (f (w_journal w)) = Inr (Some r)")
  case True
  then obtain r j' where c: "f (w_journal w) = (Inr (Some r), j')"
    by (metis prod.collapse)
  have "view (noted (journal_call op f w)) = (j', Claimed r # Ran op True # w_log w)"
    by (simp add: noted_def journal_call_def view_def c)
  then show ?thesis
    using protocol.Claims [OF assms(2), of j' h "w_journal w" r P A "w_log w" True] assms(3) assms(4) [OF c] c
    by (intro follows_step) (simp add: view_def [of w])
next
  case False
  have "noted (journal_call op f w) = snd (journal_call op f w)"
    using False by (auto simp: noted_def journal_call_def split: sum.splits option.splits prod.splits)
  then show ?thesis
    using attempt_call_follows [of h w op f P A] assms(1-3) by fastforce
qed

lemma claim_work_cases:
  obtains (verify) now t where "claim_work E h w = journal_call (ClaimNextVerification now t) (claim_next_verification h now t) w"
  | (start) now t w1 now' t' where "journal_call (ClaimNextVerification now t) (claim_next_verification h now t) w = (Inr None, w1)"
      "claim_work E h w = journal_call (ClaimNext now' t') (claim_next h now' t') w1"
proof -
  let ?now = "e_now E (w_tick w)" and ?t = "e_token E (w_tick w)"
  define m where "m = journal_call (ClaimNextVerification ?now ?t) (claim_next_verification h ?now ?t) w"
  have work: "claim_work E h w = jbind m (\<lambda>r w. case r of
      Some r \<Rightarrow> give (Some r) w
    | None \<Rightarrow> let now = e_now E (w_tick w); t = e_token E (w_tick w) in journal_call (ClaimNext now t) (claim_next h now t) w)"
    by (simp add: claim_work_def m_def Let_def)
  show thesis
  proof (cases "fst m = Inr None")
    case True
    then obtain w1 where w1: "m = (Inr None, w1)"
      by (metis prod.collapse)
    then have "claim_work E h w = journal_call (ClaimNext (e_now E (w_tick w1)) (e_token E (w_tick w1)))
        (claim_next h (e_now E (w_tick w1)) (e_token E (w_tick w1))) w1"
      by (simp add: work Let_def)
    then show thesis
      by (rule start [OF w1 [unfolded m_def]])
  next
    case False
    then have "claim_work E h w = m"
      unfolding work by (cases m; cases "fst m") (auto simp: give_def split: option.splits)
    then show thesis
      using verify m_def by simp
  qed
qed

lemma claim_work_follows:
  assumes "journal_ok h (w_journal w)"
  shows "follows P h A w (noted (claim_work E h w))"
proof (cases rule: claim_work_cases [of E h w])
  case (verify now t)
  then show ?thesis
    using assms claimed_to_verify [OF assms] by (auto intro!: claim_call_follows)
next
  case (start now t w1 now' t')
  have "follows P h A w (noted (journal_call (ClaimNextVerification now t) (claim_next_verification h now t) w))"
    using assms claimed_to_verify [OF assms] by (intro claim_call_follows) auto
  then have first: "follows P h A w w1"
    by (simp add: noted_def start(1))
  have ok: "journal_ok h (w_journal w1)"
    by (rule follows_ok [OF first assms])
  have "follows P h A w1 (noted (claim_work E h w))"
    unfolding start(2) using ok claimed_from_pending [OF ok] by (intro claim_call_follows) auto
  then show ?thesis
    by (rule follows_trans [OF first])
qed

lemma claim_work_Some:
  assumes "journal_ok h (w_journal w)" "claim_work E h w = (Inr (Some r), w')"
  shows "fmlookup (uploads (w_journal w')) (u_id r) = Some r \<and> u_state r \<in> {UploadingU, VerifyingU} \<and> u_attempt r \<noteq> None"
proof (cases rule: claim_work_cases [of E h w])
  case (verify now t)
  have "journal_call (ClaimNextVerification now t) (claim_next_verification h now t) w = (Inr (Some r), w')"
    using assms(2) verify by simp
  then show ?thesis
    using claimed_to_verify [OF assms(1), of now t r] by auto
next
  case (start now t w1 now' t')
  have "w_journal w1 = journal_exec h (ClaimNextVerification now t) (w_journal w)"
    using start(1) by auto
  then have ok: "journal_ok h (w_journal w1)"
    using jm.exec_inv [OF assms(1)] by metis
  have "journal_call (ClaimNext now' t') (claim_next h now' t') w1 = (Inr (Some r), w')"
    using assms(2) start(2) by simp
  then show ?thesis
    using claimed_from_pending [OF ok, of now' t' r] by auto
qed

lemma settle_error_follows:
  assumes "tame A E" "journal_ok h (w_journal w)"
  shows "follows P h A w (snd (settle_error E h r e w))"
  using assms by (auto simp: settle_error_def Let_def intro!: follows_jbind worker_local_follows attempt_call_follows split: option.splits)

lemma execute_follows:
  assumes "tame A E" "journal_ok h (w_journal w)" "w_log w = Claimed r # es" "u_state r \<in> {UploadingU, VerifyingU}"
  shows "follows P h A w (snd (execute P E h r w))"
proof (cases "u_attempt r")
  case (Some t)
  let ?m = "case staged_recovery_location P (u_id r) (request_of r) of
       None \<Rightarrow> give () w
     | Some location \<Rightarrow> worker_local E h (refused_call (reserve_identity_handoff (u_id r) t location)) w"
  have first: "follows P h A w (snd ?m)"
    using assms(1,2) by (auto intro!: worker_local_follows split: option.splits)
  have "follows P h A w1 (snd (jbind (open_transfer P E h r t w1) (\<lambda>v w. case v of
      Returned state \<Rightarrow> give state w
    | Opened s allocate \<Rightarrow>
        drive E h r t \<lparr>allocation_allowed = allocate, prepared_allowed = True, commit_steps = 0, loop_payload = None\<rparr> s w
    | Unknown _ \<Rightarrow> fail TWorker w)))" if m: "?m = (Inr u, w1)" for u w1
  proof (rule follows_jbind)
    have ok: "journal_ok h (w_journal w1)"
      using follows_ok [OF first assms(2)] m by simp
    have "\<exists>xs. w_log w1 = xs @ Claimed r # es \<and> list_all (\<lambda>e. case e of Others ops \<Rightarrow> True | _ \<Rightarrow> False) xs"
      using m assms(3) by (auto simp: refused_call_def split: option.splits intro: exI [of _ "[]"] exI [of _ "[Others ops]" for ops])
    then show opened: "follows P h A w1 (snd (open_transfer P E h r t w1))"
      using open_transfer_follows [OF assms(1) ok _ _ assms(4)] by blast
    fix v w2 assume "open_transfer P E h r t w1 = (Inr v, w2)"
    then show "follows P h A w2 (snd (case v of
        Returned state \<Rightarrow> give state w2
      | Opened s allocate \<Rightarrow>
          drive E h r t \<lparr>allocation_allowed = allocate, prepared_allowed = True, commit_steps = 0, loop_payload = None\<rparr> s w2
      | Unknown _ \<Rightarrow> fail TWorker w2))"
      using follows_ok [OF opened ok] assms(1) by (auto intro!: drive_follows simp: payload_read_def split: opened_transfer.splits)
  qed
  from follows_jbind [OF first this] show ?thesis
    using Some by (simp add: execute_def)
qed (simp add: execute_def)

lemma run_once_follows:
  assumes "tame A E" "journal_ok h (w_journal w)"
  shows "follows P h A w (snd (run_once P E h w)) \<and> journal_ok h (w_journal (snd (run_once P E h w)))"
proof -
  let ?w = "interfere E h (step_tick w)"
  have inter: "follows P h A w ?w" "journal_ok h (w_journal ?w)"
    using interfere_follows [OF assms(1), of P h "step_tick w"] follows_ok [OF interfere_follows [OF assms(1)], of h "step_tick w"] assms(2)
    by simp_all
  have work: "follows P h A w (noted (claim_work E h ?w))"
    using follows_trans [OF inter(1) claim_work_follows [OF inter(2)]] .
  have rest: "follows P h A w (snd (case execute P E h r w1 of
      (Inr state, w) \<Rightarrow> give (Some \<lparr>tr_id = u_id r, tr_state = state, tr_issue = None\<rparr>) w
    | (Inl e, w) \<Rightarrow> settle_error E h r e w))"
    if "claim_work E h ?w = (Inr (Some r), w0)" "w1 = logged (Claimed r) w0" for r w0 w1
  proof -
    have w1: "follows P h A w w1"
      using work that by (simp add: noted_def)
    then have ok: "journal_ok h (w_journal w1)"
      using follows_ok assms(2) by blast
    have run: "follows P h A w1 (snd (execute P E h r w1))"
      using execute_follows [OF assms(1) ok] claim_work_Some [OF inter(2) that(1)] that(2) by simp
    then have "follows P h A w1 (snd (settle_error E h r e (snd (execute P E h r w1))))" for e
      using follows_trans settle_error_follows [OF assms(1) follows_ok [OF run ok]] by blast
    then show ?thesis
      using follows_trans [OF w1] run by (cases "execute P E h r w1"; cases "fst (execute P E h r w1)") auto
  qed
  have "follows P h A w (snd (run_once P E h w))"
  proof (cases "e_cancelled E (w_tick w) \<or> e_fault E (Suc (w_tick w)) \<noteq> None")
    case True
    then show ?thesis
      using inter(1) by (auto simp: run_once_def Let_def worker_local_def split: local_fault.splits)
  next
    case False
    then show ?thesis
      using work rest
      by (cases "claim_work E h ?w"; cases "fst (claim_work E h ?w)")
        (auto simp: run_once_def Let_def worker_local_def noted_def split: option.splits)
  qed
  then show ?thesis
    using follows_ok assms(2) by blast
qed

lemma transfer_runs_follows:
  assumes "\<forall>E \<in> set Es. tame A E" "journal_ok h (w_journal w)"
  shows "follows P h A w (transfer_runs P h Es w) \<and> journal_ok h (w_journal (transfer_runs P h Es w))"
  using assms
proof (induction Es arbitrary: w)
  case (Cons E Es)
  then show ?case
    using run_once_follows [of A E h w P] follows_trans by (fastforce simp: transfer_runs_def)
qed (simp add: transfer_runs_def)

end
