(* ===== verification/Worker_Mutations.thy ===== *)
theory Worker_Mutations
  imports Worker_Refinement
begin

text \<open>
  The worker that sends namespace changes, \<open>cirrove-service/src/mutations.rs\<close>: it claims a change, lets
  the provider reserve an identity, sends the change or reconciles an uncertain one, and records
  the answer. As with transfers, other calls of the journal may run whenever the worker does not
  hold the lock, and everything the worker does not decide is an environment.
\<close>

section \<open>The worker\<close>

text \<open>What a person is told: one of four sentences, or the words of the provider's error.\<close>

datatype mutation_issue = ContentChanged | ContentUnverified | RemoteItemChanged | ResultUnknown | Reported mutation_error

record mutation_result =
  mres_id :: uuid
  mres_state :: mutation_state
  mres_issue :: "mutation_issue option"

datatype mutation_event =
    MClaimed mutation_record
  | Prepared uuid "mutation_error + string option"
  | MReturned uuid
  | Mutated uuid "string option" "mutation_error + mutation_receipt"
  | MReconciled uuid "string option" "mutation_error + mutation_reconciliation"

record mutation_env =
  me_cancelled :: "nat \<Rightarrow> bool"
  me_now :: "nat \<Rightarrow> int"
  me_token :: "nat \<Rightarrow> uuid"
  me_others :: "nat \<Rightarrow> journal_op list"
  me_fault :: "nat \<Rightarrow> bool"
  me_prepare :: "nat \<Rightarrow> uuid \<Rightarrow> mutation_request \<Rightarrow> mutation_error + string option"
  me_mutate :: "nat \<Rightarrow> uuid \<Rightarrow> mutation_request \<Rightarrow> string option \<Rightarrow> mutation_error + mutation_receipt"
  me_reconcile :: "nat \<Rightarrow> uuid \<Rightarrow> mutation_request \<Rightarrow> string option \<Rightarrow> mutation_error + mutation_reconciliation"

record mworld =
  mw_journal :: journal
  mw_tick :: nat
  mw_log :: "mutation_event list"

definition mtick :: "mworld \<Rightarrow> mworld" where
  "mtick w = w\<lparr>mw_tick := Suc (mw_tick w)\<rparr>"

definition mlogged :: "mutation_event \<Rightarrow> mworld \<Rightarrow> mworld" where
  "mlogged e w = w\<lparr>mw_log := e # mw_log w\<rparr>"

text \<open>\<open>local\<close>: a poisoned lock or a lost thread is a storage error, and nothing runs.\<close>

definition mutation_local :: "mutation_env \<Rightarrow> host \<Rightarrow> (journal \<Rightarrow> 'a journal_result) \<Rightarrow> mworld \<Rightarrow> (journal_error + 'a) \<times> mworld" where
  "mutation_local E h f w =
     (let n = mw_tick w; w = mtick (w\<lparr>mw_journal := journal_run h (me_others E n) (mw_journal w)\<rparr>) in
      if me_fault E n then fail JStorage w
      else case f (mw_journal w) of (v, j) \<Rightarrow> (v, w\<lparr>mw_journal := j\<rparr>))"

text \<open>\<open>remote\<close>: a cancelled worker does not send and is uncertain, as after a deadline.\<close>

definition mutation_remote ::
    "mutation_env \<Rightarrow> (nat \<Rightarrow> mutation_error + 'a) \<Rightarrow> (mutation_error + 'a \<Rightarrow> mutation_event) \<Rightarrow> mworld \<Rightarrow> (mutation_error + 'a) \<times> mworld" where
  "mutation_remote E call event w =
     (let n = mw_tick w; w = mtick w in
      if me_cancelled E n then (Inl MUncertain, w) else (call n, mlogged (event (call n)) w))"

definition terminal_error :: "mutation_error \<Rightarrow> bool" where
  "terminal_error e = (case e of
       MInvalid \<Rightarrow> True
     | MUnsupported m \<Rightarrow> True
     | MQuota \<Rightarrow> True
     | MInsufficientStorage \<Rightarrow> True
     | MProvider p \<Rightarrow> (case p of Permission \<Rightarrow> True | Authentication \<Rightarrow> True | NotFound \<Rightarrow> True | _ \<Rightarrow> False)
     | _ \<Rightarrow> False)"

definition mutation_delay :: "mutation_error \<Rightarrow> int \<Rightarrow> int" where
  "mutation_delay e failed = (case e of MProvider (Throttled d) \<Rightarrow> throttled_delay d | _ \<Rightarrow> backoff failed)"

definition mutation_error_state :: "mutation_error \<Rightarrow> mutation_state" where
  "mutation_error_state e = (if e = MConflict then ConflictM else if terminal_error e then FailedM else VerifyRequiredM)"

definition mutation_report :: "uuid \<Rightarrow> mutation_state \<Rightarrow> mutation_issue option \<Rightarrow> mworld \<Rightarrow> (journal_error + mutation_result option) \<times> mworld" where
  "mutation_report i st issue = give (Some \<lparr>mres_id = i, mres_state = st, mres_issue = issue\<rparr>)"

text \<open>A failed preparation sent nothing: it ends the change or returns it to the queue.\<close>

definition prepare_failed ::
    "mutation_env \<Rightarrow> host \<Rightarrow> mutation_record \<Rightarrow> uuid \<Rightarrow> mutation_error \<Rightarrow> mworld \<Rightarrow> (journal_error + mutation_result option) \<times> mworld" where
  "prepare_failed E h r t e w =
     (let i = m_id r; now = me_now E (mw_tick w); delay = mutation_delay e (m_failed_attempts r) in
      if terminal_error e
      then jbind (mutation_local E h (defer_mutation now i t FailedM delay) w) (\<lambda>_. mutation_report i FailedM (Some (Reported e)))
      else jbind (mutation_local E h (defer_mutation_preparation now i t delay) w) (\<lambda>_ w. mutation_report i PendingM (Some (Reported e)) (mlogged (MReturned i) w)))"

text \<open>The answer to the request, of whichever kind. A conflict or an indeterminate reconciliation
  stops the change for a person to look at.\<close>

definition mutation_answer ::
    "mutation_env \<Rightarrow> host \<Rightarrow> mutation_record \<Rightarrow> uuid \<Rightarrow> mutation_error + mutation_reconciliation \<Rightarrow> mworld
       \<Rightarrow> (journal_error + mutation_result option) \<times> mworld" where
  "mutation_answer E h r t v w =
     (let i = m_id r; now = me_now E (mw_tick w) in
      case v of
        Inr (AppliedWithVerifiedContent receipt proof) \<Rightarrow>
          jbind (mutation_local E h (acknowledge_mutation_evidence i t receipt (Some proof)) w) (\<lambda>st. mutation_report i st None)
      | Inr (Applied receipt) \<Rightarrow>
          jbind (mutation_local E h (acknowledge_mutation_evidence i t receipt None) w) (\<lambda>st.
            mutation_report i st (if st = ConflictM then Some ContentChanged else if st = NeedsReviewM then Some ContentUnverified else None))
      | Inr Uncommitted \<Rightarrow>
          jbind (mutation_local E h (retry_uncommitted_mutation i t) w) (\<lambda>_ w. mutation_report i PendingM None (mlogged (MReturned i) w))
      | Inr ReconcileConflict \<Rightarrow>
          jbind (mutation_local E h (defer_mutation now i t ConflictM 0) w) (\<lambda>_. mutation_report i ConflictM (Some RemoteItemChanged))
      | Inr Indeterminate \<Rightarrow>
          jbind (mutation_local E h (defer_mutation now i t NeedsReviewM 0) w) (\<lambda>_. mutation_report i NeedsReviewM (Some ResultUnknown))
      | Inl e \<Rightarrow>
          let st = mutation_error_state e in
          jbind (mutation_local E h (defer_mutation now i t st (mutation_delay e (m_failed_attempts r))) w)
            (\<lambda>_. mutation_report i st (Some (Reported e))))"

definition mutation_request_sent ::
    "mutation_env \<Rightarrow> mutation_record \<Rightarrow> string option \<Rightarrow> mworld \<Rightarrow> (mutation_error + mutation_reconciliation) \<times> mworld" where
  "mutation_request_sent E r item w =
     (let i = m_id r; rq = m_request r in
      if m_state r = VerifyingM
      then mutation_remote E (\<lambda>n. me_reconcile E n i rq item) (MReconciled i item) w
      else case mutation_remote E (\<lambda>n. me_mutate E n i rq item) (Mutated i item) w of (v, w) \<Rightarrow> (map_sum id Applied v, w))"

text \<open>The provider may reserve an identity for a fresh change, which the journal records first.\<close>

definition mutation_claimed :: "mutation_env \<Rightarrow> host \<Rightarrow> mutation_record \<Rightarrow> uuid \<Rightarrow> mworld \<Rightarrow> (journal_error + mutation_result option) \<times> mworld" where
  "mutation_claimed E h r t w =
     (let finish = (\<lambda>item w. case mutation_request_sent E r item w of (v, w) \<Rightarrow> mutation_answer E h r t v w) in
      if m_state r = ApplyingM \<and> m_prepared_item r = None
      then (case mutation_remote E (\<lambda>n. me_prepare E n (m_id r) (m_request r)) (Prepared (m_id r)) w of
              (Inl e, w) \<Rightarrow> prepare_failed E h r t e w
            | (Inr None, w) \<Rightarrow> finish None w
            | (Inr (Some item), w) \<Rightarrow>
                jbind (mutation_local E h (record_prepared_mutation (m_id r) t item) w) (\<lambda>_. finish (Some item)))
      else finish (m_prepared_item r) w)"

definition mutation_run_once :: "mutation_env \<Rightarrow> host \<Rightarrow> mworld \<Rightarrow> (journal_error + mutation_result option) \<times> mworld" where
  "mutation_run_once E h w =
     (let n = mw_tick w; w = mtick w in
      if me_cancelled E n then give None w
      else jbind (mutation_local E h (claim_mutation h (me_now E n) (me_token E n)) w) (\<lambda>claimed w.
      case claimed of
        None \<Rightarrow> give None w
      | Some r \<Rightarrow>
          (case m_attempt r of
             None \<Rightarrow> fail JStale w
           | Some t \<Rightarrow> mutation_claimed E h r t (mlogged (MClaimed r) w))))"

definition new_mworld :: "journal \<Rightarrow> mworld" where
  "new_mworld j = \<lparr>mw_journal = j, mw_tick = 0, mw_log = []\<rparr>"

definition mutation_runs :: "host \<Rightarrow> mutation_env list \<Rightarrow> mworld \<Rightarrow> mworld" where
  "mutation_runs h Es w = fold (\<lambda>E w. snd (mutation_run_once E h w)) Es w"

section \<open>Its protocol\<close>

text \<open>Since the last reconciliation that found nothing, the change was sent; and a claim to send it is
  still unused.\<close>

fun mutated :: "uuid \<Rightarrow> mutation_event list \<Rightarrow> bool" where
  "mutated i (Mutated k item v # es) = (k = i \<or> mutated i es)"
| "mutated i (MReconciled k item v # es) = (\<not> (k = i \<and> v = Inr Uncommitted) \<and> mutated i es)"
| "mutated i (_ # es) = mutated i es"
| "mutated i [] = False"

fun unsent :: "uuid \<Rightarrow> mutation_event list \<Rightarrow> bool" where
  "unsent i (MClaimed r # es) = (if m_id r = i then m_state r = ApplyingM else unsent i es)"
| "unsent i (Mutated k item v # es) = (k \<noteq> i \<and> unsent i es)"
| "unsent i (MReturned k # es) = (k \<noteq> i \<and> unsent i es)"
| "unsent i (_ # es) = unsent i es"
| "unsent i [] = False"

fun found_uncommitted :: "uuid \<Rightarrow> mutation_event list \<Rightarrow> bool" where
  "found_uncommitted i (MReconciled k item v # es) = (k = i \<and> v = Inr Uncommitted)"
| "found_uncommitted i _ = False"

definition mutation_left :: "journal \<Rightarrow> uuid \<Rightarrow> bool" where
  "mutation_left j i \<longleftrightarrow> (\<exists>r. fmlookup (mutations j) i = Some r \<and> m_state r \<noteq> PendingM)"

inductive mutation_protocol ::
    "host \<Rightarrow> (journal_op \<Rightarrow> bool) \<Rightarrow> journal \<times> mutation_event list \<Rightarrow> journal \<times> mutation_event list \<Rightarrow> bool" for h A where
  MInterfered: "list_all A ops \<Longrightarrow> mutation_protocol h A (j, es) (journal_run h ops j, es)"
| MCalled: "op = ClaimMutation now t \<or> op = RecordPrepared i t item \<or> op = AcknowledgeMutation i t receipt proof \<or> op = DeferMutation now i t st d
    \<Longrightarrow> mutation_protocol h A (j, es) (journal_exec h op j, es)"
| MClaims: "j' = journal_exec h (ClaimMutation now t) j \<Longrightarrow> fmlookup (mutations j') (m_id r) = Some r
    \<Longrightarrow> m_state r \<in> {ApplyingM, VerifyingM} \<Longrightarrow> m_state r = ApplyingM \<longrightarrow> \<not> mutation_left j (m_id r)
    \<Longrightarrow> mutation_protocol h A (j, es) (j', MClaimed r # es)"
| MReturns: "op = DeferPreparation now i t d \<and> unsent i es \<or> op = RetryUncommittedMutation i t \<and> found_uncommitted i es
    \<Longrightarrow> mutation_protocol h A (j, es) (journal_exec h op j, MReturned i # es)"
| MPrepares: "mutation_protocol h A (j, es) (j, Prepared i answer # es)"
| MSends: "unsent i es \<Longrightarrow> mutation_protocol h A (j, es) (j, Mutated i item v # es)"
| MReconciles: "mutation_protocol h A (j, es) (j, MReconciled i item v' # es)"

definition mview :: "mworld \<Rightarrow> journal \<times> mutation_event list" where
  "mview w = (mw_journal w, mw_log w)"

interpretation mw: stepwise "mutation_protocol h A" mview for h A .

abbreviation mfollows :: "host \<Rightarrow> (journal_op \<Rightarrow> bool) \<Rightarrow> mworld \<Rightarrow> mworld \<Rightarrow> bool" where
  "mfollows h A \<equiv> stepwise.leads (mutation_protocol h A) mview"

definition mtame :: "(journal_op \<Rightarrow> bool) \<Rightarrow> mutation_env \<Rightarrow> bool" where
  "mtame A E \<longleftrightarrow> (\<forall>n. list_all A (me_others E n))"

lemma mworld_simps [simp]:
  "mw_journal (mtick w) = mw_journal w" "mw_log (mtick w) = mw_log w" "mview (mtick w) = mview w"
  "mw_journal (mlogged e w) = mw_journal w" "mw_log (mlogged e w) = e # mw_log w" "mview (mlogged e w) = (mw_journal w, e # mw_log w)"
  by (simp_all add: mtick_def mlogged_def mview_def)

lemma mfollows_tick [simp]: "mfollows h A (mtick w) w' = mfollows h A w w'" "mfollows h A w (mtick w') = mfollows h A w w'"
  by (simp_all add: mw.leads_def)

lemma mutation_protocol_ok: "mutation_protocol h A s s' \<Longrightarrow> journal_ok h (fst s) \<Longrightarrow> journal_ok h (fst s')"
  by (induction rule: mutation_protocol.induct) (auto intro: run_ok jm.exec_inv simp del: journal_exec.simps)

lemma mfollows_ok: "mfollows h A w w' \<Longrightarrow> journal_ok h (mw_journal w) \<Longrightarrow> journal_ok h (mw_journal w')"
  using mw.leads_keeps [where kept = "\<lambda>s. journal_ok h (fst s)", of h A w w', OF mutation_protocol_ok] by (simp add: mview_def)

text \<open>A call of the journal: other calls, then its own step, if any.\<close>

definition minterfere :: "mutation_env \<Rightarrow> host \<Rightarrow> mworld \<Rightarrow> mworld" where
  "minterfere E h w = mtick (w\<lparr>mw_journal := journal_run h (me_others E (mw_tick w)) (mw_journal w)\<rparr>)"

lemma minterfere_simps [simp]:
  "mw_journal (minterfere E h w) = journal_run h (me_others E (mw_tick w)) (mw_journal w)" "mw_log (minterfere E h w) = mw_log w"
  by (simp_all add: minterfere_def)

lemma minterfere_follows: "mtame A E \<Longrightarrow> mfollows h A w (minterfere E h w)"
  by (rule mw.leads_step) (simp add: mview_def mutation_protocol.MInterfered mtame_def)

lemma mutation_local_cases:
  obtains (fault) "mutation_local E h f w = (Inl JStorage, minterfere E h w)"
  | (ran) "mutation_local E h f w = (fst (f (mw_journal (minterfere E h w))),
      (minterfere E h w)\<lparr>mw_journal := snd (f (mw_journal (minterfere E h w)))\<rparr>)"
  by (cases "f (mw_journal (minterfere E h w))"; cases "me_fault E (mw_tick w)")
    (auto simp: mutation_local_def minterfere_def Let_def fail_def)

lemma mutation_local_follows:
  assumes "mtame A E" "snd (f (mw_journal (minterfere E h w))) = journal_exec h op (mw_journal (minterfere E h w))"
    and "op = ClaimMutation now t \<or> op = RecordPrepared i t item \<or> op = AcknowledgeMutation i t receipt proof \<or> op = DeferMutation now i t st d"
  shows "mfollows h A w (snd (mutation_local E h f w))"
proof (cases rule: mutation_local_cases [of E h f w])
  case fault
  then show ?thesis
    using minterfere_follows [OF assms(1)] by simp
next
  case ran
  have "mfollows h A (minterfere E h w) (snd (mutation_local E h f w))"
    using mutation_protocol.MCalled [OF assms(3), of h A "mw_journal (minterfere E h w)" "mw_log w"] assms(2)
    by (intro mw.leads_step) (simp add: ran mview_def)
  then show ?thesis
    using mw.leads_trans minterfere_follows [OF assms(1)] by blast
qed

text \<open>A refused attempt changes nothing.\<close>

lemma save_mutation_Inl: "save_mutation r j = (Inl e, j') \<Longrightarrow> j' = j"
  unfolding save_mutation_def by (rule transaction_Inl)

lemma return_refused:
  "defer_mutation_preparation now i t d j = (Inl e, j') \<Longrightarrow> j' = j"
  "retry_uncommitted_mutation i t j = (Inl e, j') \<Longrightarrow> j' = j"
  using attempt_eq(4) [of i t j]
  by (auto simp: defer_mutation_preparation_def retry_uncommitted_mutation_def jbind_def split: prod.splits sum.splits if_splits
      dest: save_mutation_Inl)

lemma mutation_return_follows:
  assumes "mtame A E" "snd (f (mw_journal (minterfere E h w))) = journal_exec h op (mw_journal (minterfere E h w))"
    and "\<And>e j j'. f j = (Inl e, j') \<Longrightarrow> j' = j"
    and "op = DeferPreparation now i t d \<and> unsent i (mw_log w) \<or> op = RetryUncommittedMutation i t \<and> found_uncommitted i (mw_log w)"
  shows "mfollows h A w (snd (jbind (mutation_local E h f w) (\<lambda>_ w. mutation_report i PendingM issue (mlogged (MReturned i) w))))"
proof (cases rule: mutation_local_cases [of E h f w])
  case fault
  then show ?thesis
    using minterfere_follows [OF assms(1)] by simp
next
  case ran
  show ?thesis
  proof (cases "f (mw_journal (minterfere E h w))")
    case (Pair v j)
    have "mfollows h A (minterfere E h w) (snd (jbind (mutation_local E h f w) (\<lambda>_ w. mutation_report i PendingM issue (mlogged (MReturned i) w))))"
    proof (cases v)
      case (Inl e)
      then have "j = mw_journal (minterfere E h w)"
        using assms(3) Pair by blast
      then show ?thesis
        using ran Pair Inl by (simp add: mw.leads_seen mview_def)
    next
      case (Inr x)
      then show ?thesis
        using mutation_protocol.MReturns [OF assms(4), of h A "mw_journal (minterfere E h w)"] assms(2) ran Pair
        by (intro mw.leads_step) (simp add: mview_def mutation_report_def)
    qed
    then show ?thesis
      using mw.leads_trans minterfere_follows [OF assms(1)] by blast
  qed
qed

section \<open>The worker follows its protocol\<close>

lemma claim_mutation_Some:
  assumes "journal_ok h j" "claim_mutation h now t j = (Inr (Some r), j')"
  shows "fmlookup (mutations j') (m_id r) = Some r \<and> m_state r \<in> {ApplyingM, VerifyingM} \<and> m_attempt r = Some t
    \<and> (m_state r = ApplyingM \<longrightarrow> \<not> mutation_left j (m_id r))"
proof (rule resolve_ready_steps [OF assms(1), of "{}"])
  fix j1
  assume j1: "resolve_ready_generations h j = (Inr (ready_rows j1 = []), j1)" "jsteps h {} j j1" "journal_ok h j1"
  then obtain r0 rs where c: "claimable_mutations now j1 = r0 # rs"
      and r: "r = r0\<lparr>m_state := (if m_state r0 = PendingM then ApplyingM else VerifyingM), m_attempt := Some t\<rparr>"
      and save: "save_mutation r j1 = (Inr (), j')"
    using assms(2) by (auto simp: claim_mutation_def jbind_Inr Let_def split: if_splits list.splits)
  have "tables_ok j1"
    using j1(3) by (simp add: journal_ok_def)
  then have r0: "fmlookup (mutations j1) (m_id r0) = Some r0" "m_state r0 = PendingM \<or> m_state r0 = VerifyRequiredM"
    using claimable_mutations_iff [of j1 r0 now] c by auto
  have "j' = put_mutation r j1"
    using save_mutation_eq [OF \<open>tables_ok j1\<close>, of r r0] r0(1) r save by simp
  moreover have "\<not> mutation_left j (m_id r)" if "m_state r0 = PendingM"
  proof
    assume "mutation_left j (m_id r)"
    moreover have "jsteps h (- {Replay (m_id r)}) j j1"
      using j1(2) rtranclp_mono [of "jstep h {}" "jstep h (- {Replay (m_id r)})"] jstep_mono by blast
    ultimately have "mutation_left j1 (m_id r)"
      using lm.steps_kept [of h "m_id r" j j1] assms(1) by (simp add: mutation_left_def)
    then show False
      using r0(1) r that by (simp add: mutation_left_def)
  qed
  ultimately show ?thesis
    using r by (auto simp: put_mutation_def)
qed

lemma claim_mutation_follows:
  assumes "mtame A E" "journal_ok h (mw_journal w)"
  shows "mfollows h A w (snd (mutation_local E h (claim_mutation h now t) w))"
    and "mutation_local E h (claim_mutation h now t) w = (Inr (Some r), w') \<Longrightarrow> mfollows h A w (mlogged (MClaimed r) w')
      \<and> m_state r \<in> {ApplyingM, VerifyingM} \<and> m_attempt r = Some t"
proof -
  show "mfollows h A w (snd (mutation_local E h (claim_mutation h now t) w))"
    using assms(1) by (intro mutation_local_follows [where op = "ClaimMutation now t"]) auto
  assume m: "mutation_local E h (claim_mutation h now t) w = (Inr (Some r), w')"
  let ?w = "minterfere E h w"
  obtain j' where c: "claim_mutation h now t (mw_journal ?w) = (Inr (Some r), j')" and w': "w' = ?w\<lparr>mw_journal := j'\<rparr>"
    using m by (cases rule: mutation_local_cases [of E h "claim_mutation h now t" w]) (auto simp: prod_eq_iff)
  have ok: "journal_ok h (mw_journal ?w)"
    using run_ok [OF assms(2)] by simp
  have "mfollows h A ?w (mlogged (MClaimed r) w')"
    using mutation_protocol.MClaims [of j' h now t "mw_journal ?w" r A "mw_log ?w"] claim_mutation_Some [OF ok c] c w'
    by (intro mw.leads_step) (simp add: mview_def)
  then show "mfollows h A w (mlogged (MClaimed r) w') \<and> m_state r \<in> {ApplyingM, VerifyingM} \<and> m_attempt r = Some t"
    using mw.leads_trans minterfere_follows [OF assms(1)] claim_mutation_Some [OF ok c] by blast
qed

lemma mutation_remote_follows:
  assumes "\<And>v. mutation_protocol h A (mview w) (mw_journal w, event v # mw_log w)"
  shows "mfollows h A w (snd (mutation_remote E call event w))"
  using assms by (simp add: mutation_remote_def Let_def mw.leads_refl mw.leads_step)

lemma mutation_remote_result:
  "mutation_remote E call event w = (v, w') \<Longrightarrow> mw_journal w' = mw_journal w \<and> (mw_log w' = event v # mw_log w \<or> v = Inl MUncertain \<and> mw_log w' = mw_log w)"
  by (auto simp: mutation_remote_def Let_def split: if_splits)

lemma mutation_closing_follows:
  assumes "mtame A E" "mfollows h A w (snd (mutation_local E h f w))"
  shows "mfollows h A w (snd (jbind (mutation_local E h f w) (\<lambda>x. mutation_report (i x) (st x) (issue x))))"
  using assms(2) by (rule mw.leads_jbind) (simp add: mutation_report_def mw.leads_refl)

lemma prepare_failed_follows:
  assumes "mtame A E" "unsent (m_id r) (mw_log w)"
  shows "mfollows h A w (snd (prepare_failed E h r t e w))"
proof -
  have "mfollows h A w (snd (jbind (mutation_local E h (defer_mutation_preparation now (m_id r) t d) w)
      (\<lambda>_ w. mutation_report (m_id r) PendingM issue (mlogged (MReturned (m_id r)) w))))" for now d issue
    using assms by (intro mutation_return_follows [where op = "DeferPreparation now (m_id r) t d"]) (auto dest: return_refused)
  moreover have "mfollows h A w (snd (mutation_local E h (defer_mutation now (m_id r) t st d) w))" for now st d
    using assms(1) by (intro mutation_local_follows [where op = "DeferMutation now (m_id r) t st d"]) auto
  ultimately show ?thesis
    using assms(1) by (auto simp: prepare_failed_def Let_def intro!: mutation_closing_follows)
qed

lemma mutation_answer_follows:
  assumes "mtame A E" "v = Inr Uncommitted \<longrightarrow> found_uncommitted (m_id r) (mw_log w)"
  shows "mfollows h A w (snd (mutation_answer E h r t v w))"
proof -
  have requeue: "mfollows h A w (snd (jbind (mutation_local E h (retry_uncommitted_mutation (m_id r) t) w)
      (\<lambda>_ w. mutation_report (m_id r) PendingM None (mlogged (MReturned (m_id r)) w))))" if "v = Inr Uncommitted"
    using assms that by (intro mutation_return_follows [where op = "RetryUncommittedMutation (m_id r) t"]) (auto dest: return_refused)
  have "mfollows h A w (snd (mutation_local E h (defer_mutation now (m_id r) t st d) w))" for now st d
    using assms(1) by (intro mutation_local_follows [where op = "DeferMutation now (m_id r) t st d"]) auto
  moreover have "mfollows h A w (snd (mutation_local E h (acknowledge_mutation_evidence (m_id r) t receipt content) w))" for receipt content
    using assms(1) by (intro mutation_local_follows [where op = "AcknowledgeMutation (m_id r) t receipt content"]) auto
  ultimately show ?thesis
    using assms(1) requeue
    by (auto simp: mutation_answer_def Let_def intro!: mutation_closing_follows split: sum.splits mutation_reconciliation.splits)
qed

lemma mutation_finish_follows:
  assumes "mtame A E" "m_state r = VerifyingM \<or> unsent (m_id r) (mw_log w)"
  shows "mfollows h A w (snd (case mutation_request_sent E r item w of (v, w) \<Rightarrow> mutation_answer E h r t v w))"
proof (cases "m_state r = VerifyingM")
  case True
  let ?m = "mutation_remote E (\<lambda>n. me_reconcile E n (m_id r) (m_request r) item) (MReconciled (m_id r) item) w"
  obtain v w1 where m: "?m = (v, w1)"
    by fastforce
  have "mfollows h A w w1"
    using mutation_remote_follows [of h A w "MReconciled (m_id r) item"] m by (metis mview_def mutation_protocol.MReconciles snd_conv)
  moreover have "mfollows h A w1 (snd (mutation_answer E h r t v w1))"
    using mutation_remote_result [OF m] by (intro mutation_answer_follows [OF assms(1)]) auto
  ultimately show ?thesis
    using True m mw.leads_trans by (simp add: mutation_request_sent_def Let_def)
next
  case False
  let ?m = "mutation_remote E (\<lambda>n. me_mutate E n (m_id r) (m_request r) item) (Mutated (m_id r) item) w"
  obtain v w1 where m: "?m = (v, w1)"
    by fastforce
  have "mfollows h A w w1"
    using mutation_remote_follows [of h A w "Mutated (m_id r) item"] m False assms(2) by (metis mview_def mutation_protocol.MSends snd_conv)
  moreover have "mfollows h A w1 (snd (mutation_answer E h r t (map_sum id Applied v) w1))"
    by (intro mutation_answer_follows [OF assms(1)]) (cases v; simp)
  ultimately show ?thesis
    using False m mw.leads_trans by (simp add: mutation_request_sent_def Let_def)
qed

lemma mutation_local_Inr_log: "mutation_local E h f w = (Inr x, w') \<Longrightarrow> mw_log w' = mw_log w"
  by (cases rule: mutation_local_cases [of E h f w]) auto

lemma mutation_claimed_follows:
  assumes "mtame A E" "mw_log w = MClaimed r # es" "m_state r \<in> {ApplyingM, VerifyingM}"
  shows "mfollows h A w (snd (mutation_claimed E h r t w))"
proof (cases "m_state r = ApplyingM \<and> m_prepared_item r = None")
  case True
  let ?m = "mutation_remote E (\<lambda>n. me_prepare E n (m_id r) (m_request r)) (Prepared (m_id r)) w"
  obtain v w1 where m: "?m = (v, w1)"
    by fastforce
  have first: "mfollows h A w w1"
    using mutation_remote_follows [of h A w "Prepared (m_id r)"] m by (metis mview_def mutation_protocol.MPrepares snd_conv)
  have unsent: "unsent (m_id r) (mw_log w1)"
    using mutation_remote_result [OF m] assms(2) True by auto
  have recording: "mfollows h A w1 (snd (mutation_local E h (record_prepared_mutation (m_id r) t item) w1))" for item
    using assms(1) by (intro mutation_local_follows [where op = "RecordPrepared (m_id r) t item"]) auto
  have "mfollows h A w1 (snd (case v of
      Inl e \<Rightarrow> prepare_failed E h r t e w1
    | Inr None \<Rightarrow> (case mutation_request_sent E r None w1 of (v, w) \<Rightarrow> mutation_answer E h r t v w)
    | Inr (Some item) \<Rightarrow>
        jbind (mutation_local E h (record_prepared_mutation (m_id r) t item) w1) (\<lambda>_ w.
          case mutation_request_sent E r (Some item) w of (v, w) \<Rightarrow> mutation_answer E h r t v w)))"
    using unsent assms(1)
    by (auto intro!: prepare_failed_follows mutation_finish_follows mw.leads_jbind [OF recording] dest: mutation_local_Inr_log
        split: sum.splits option.splits)
  then show ?thesis
    using mw.leads_trans [OF first] True m by (auto simp: mutation_claimed_def Let_def split: sum.splits option.splits)
next
  case False
  then show ?thesis
    using mutation_finish_follows [OF assms(1)] assms(2,3) by (auto simp: mutation_claimed_def Let_def)
qed

lemma mutation_run_once_follows:
  assumes "mtame A E" "journal_ok h (mw_journal w)"
  shows "mfollows h A w (snd (mutation_run_once E h w)) \<and> journal_ok h (mw_journal (snd (mutation_run_once E h w)))"
proof -
  let ?m = "mutation_local E h (claim_mutation h (me_now E (mw_tick w)) (me_token E (mw_tick w))) (mtick w)"
  have claim: "mfollows h A w (snd ?m)"
    "\<And>r w'. ?m = (Inr (Some r), w') \<Longrightarrow> mfollows h A w (mlogged (MClaimed r) w') \<and> m_state r \<in> {ApplyingM, VerifyingM} \<and> m_attempt r = Some (me_token E (mw_tick w))"
    using claim_mutation_follows [OF assms(1), of h "mtick w"] assms(2) by simp_all
  have "mfollows h A w (snd (mutation_run_once E h w))"
  proof (cases "me_cancelled E (mw_tick w)")
    case True
    then show ?thesis
      by (simp add: mutation_run_once_def mw.leads_refl)
  next
    case False
    show ?thesis
    proof (cases "\<exists>r w'. ?m = (Inr (Some r), w')")
      case True
      then obtain r w' where m: "?m = (Inr (Some r), w')"
        by blast
      show ?thesis
        using mw.leads_trans [OF claim(2) [OF m, THEN conjunct1] mutation_claimed_follows [OF assms(1), of _ r "mw_log w'" h "me_token E (mw_tick w)"]]
          claim(2) [OF m] False m by (simp add: mutation_run_once_def Let_def)
    next
      case none: False
      have "mutation_run_once E h w = (case ?m of (Inl e, w) \<Rightarrow> (Inl e, w) | (Inr _, w) \<Rightarrow> (Inr None, w))"
        using none False by (cases ?m; cases "fst ?m") (auto simp: mutation_run_once_def give_def split: option.splits)
      then show ?thesis
        using claim(1) by (cases ?m; cases "fst ?m") auto
    qed
  qed
  then show ?thesis
    using mfollows_ok assms(2) by blast
qed

lemma mutation_runs_follows:
  assumes "\<forall>E \<in> set Es. mtame A E" "journal_ok h (mw_journal w)"
  shows "mfollows h A w (mutation_runs h Es w) \<and> journal_ok h (mw_journal (mutation_runs h Es w))"
  using assms
proof (induction Es arbitrary: w)
  case (Cons E Es)
  then show ?case
    using mutation_run_once_follows [of A E h w] mw.leads_trans by (fastforce simp: mutation_runs_def)
qed (simp add: mutation_runs_def mw.leads_refl)

end
