(* ===== verification/Worker_Traces.thy ===== *)
theory Worker_Traces
  imports Worker_Mutations
begin

text \<open>
  What the logs of the workers look like when they follow their protocols: the invariants that
  tie a log to the journal, and how evidence is read off a log that has a request twice.
\<close>

section \<open>The invariant of the protocol\<close>

lemma has_session_step:
  assumes "journal_ok h j" "has_session j i" "jstep h (- {Replay i}) j j'"
  shows "has_session j' i"
proof -
  obtain r where r: "fmlookup (uploads j) i = Some r" "u_session_key r \<noteq> None" "u_state r \<noteq> PendingU"
    using assms(2) by (auto simp: has_session_def)
  have ok: "tables_ok j" and "u_id r = i"
    using assms(1) r(1) upload_rowD(1) by (auto simp: journal_ok_def)
  show ?thesis
    unfolding has_session_def
    using assms(3) ok r(1)
  proof (cases rule: jstep_upload)
    case (moved r')
    then show "\<exists>r. fmlookup (uploads j') i = Some r \<and> u_session_key r \<noteq> None \<and> u_state r \<noteq> PendingU"
      using r(2,3) \<open>u_id r = i\<close> by (auto simp: upload_move_iff)
  qed (use r(2,3) in \<open>auto simp: restart_upload_def\<close>)
qed

interpretation hs: journal_fact h "- {Replay i}" "\<lambda>j. has_session j i" for h i
  by unfold_locales (rule has_session_step)

definition quiet :: "uuid \<Rightarrow> journal_op \<Rightarrow> bool" where
  "quiet i op \<longleftrightarrow> Replay i \<notin> issued_permits op"

text \<open>What the log of a save is known to look like.\<close>

fun trace_ok :: "upload_provider \<Rightarrow> uuid \<Rightarrow> transfer_event list \<Rightarrow> bool" where
  "trace_ok P i [] = True"
| "trace_ok P i (e # es) \<longleftrightarrow> trace_ok P i es \<and> (begins i e \<longrightarrow> \<not> begun i es) \<and> (returned i e \<longrightarrow> proved_uncommitted P i es)
     \<and> (case e of Claimed r \<Rightarrow> u_id r = i \<and> u_session_key r = None \<longrightarrow> \<not> carried i es | _ \<Rightarrow> True)"

definition transfer_inv :: "upload_provider \<Rightarrow> host \<Rightarrow> uuid \<Rightarrow> journal \<times> transfer_event list \<Rightarrow> bool" where
  "transfer_inv P h i s \<longleftrightarrow> (case s of (j, es) \<Rightarrow> journal_ok h j \<and> trace_ok P i es
     \<and> (begun i es \<longrightarrow> left_pending j i) \<and> (fresh i es \<longrightarrow> left_pending j i \<and> \<not> begun i es)
     \<and> (carried i es \<longrightarrow> has_session j i) \<and> ((\<exists>c. armed i c es) \<longrightarrow> has_session j i))"

lemma quiet_run_kept:
  assumes "journal_ok h j" "list_all (quiet i) ops"
  shows "left_pending j i \<Longrightarrow> left_pending (journal_run h ops j) i"
    and "has_session j i \<Longrightarrow> has_session (journal_run h ops j) i"
proof -
  have "\<Union> (issued_permits ` set ops) \<subseteq> - {Replay i}"
    using assms(2) by (auto simp: list_all_iff quiet_def)
  then show "left_pending j i \<Longrightarrow> left_pending (journal_run h ops j) i"
    and "has_session j i \<Longrightarrow> has_session (journal_run h ops j) i"
    using lp.run_kept [OF assms(1)] hs.run_kept [OF assms(1)] by (auto simp: left_pending_def)
qed

lemma quiet_exec_kept:
  assumes "journal_ok h j" "quiet i op"
  shows "left_pending j i \<Longrightarrow> left_pending (journal_exec h op j) i"
    and "has_session j i \<Longrightarrow> has_session (journal_exec h op j) i"
  using quiet_run_kept [OF assms(1), of i "[op]"] assms(2) by (simp_all add: journal_run_def)

lemma attempt_op_quiet: "attempt_op op \<Longrightarrow> quiet i op"
  by (cases op) (simp_all add: quiet_def)

lemma attempt_op_event: "attempt_op op \<Longrightarrow> \<not> returned i (Ran op ok)" "armed i c (Ran op ok # es) \<Longrightarrow> \<exists>t n. op = RecordSession i t i n \<and> ok"
  by (cases op; simp)+

lemma fresh_Ran: "attempt_op op \<Longrightarrow> fresh i (Ran op ok # es) = fresh i es"
  by (cases op) simp_all

lemma sent_armed: "may_send i c es \<Longrightarrow> carries i (Sent i c v) \<Longrightarrow> \<exists>k. armed i k es"
  by (auto simp: may_send_def split: option.splits)

lemma begins_fresh: "may_send k c es \<Longrightarrow> begins i (Sent k c v) \<Longrightarrow> fresh i es"
  by (cases c) (auto simp: may_send_def)

lemma transfer_inv_call:
  assumes "transfer_inv P h i (j, es)" "attempt_op op"
    and "case op of RecordSession k t s n \<Rightarrow> ok \<longrightarrow> has_session (journal_exec h op j) k | _ \<Rightarrow> True"
  shows "transfer_inv P h i (journal_exec h op j, Ran op ok # es)"
proof -
  have ok: "journal_ok h j" "journal_ok h (journal_exec h op j)"
    using assms(1) jm.exec_inv by (auto simp: transfer_inv_def)
  have kept: "left_pending j i \<Longrightarrow> left_pending (journal_exec h op j) i" "has_session j i \<Longrightarrow> has_session (journal_exec h op j) i"
    using quiet_exec_kept [OF ok(1) attempt_op_quiet [OF assms(2)]] by blast+
  have "has_session (journal_exec h op j) i" if "armed i c (Ran op ok # es)" for c
    using attempt_op_event(2) [OF that] assms(3) by auto
  then show ?thesis
    using assms(1) ok(2) kept attempt_op_event(1) [OF assms(2)] fresh_Ran [OF assms(2)] by (auto simp: transfer_inv_def simp del: journal_exec.simps)
qed

lemma transfer_inv_claim:
  assumes "transfer_inv P h i (j, es)" "op = ClaimNext now t \<or> op = ClaimNextVerification now t"
    and "fmlookup (uploads (journal_exec h op j)) (u_id r) = Some r" "u_state r \<in> {UploadingU, VerifyingU}"
    and "u_state r = UploadingU \<longrightarrow> \<not> left_pending j (u_id r)"
  shows "transfer_inv P h i (journal_exec h op j, Claimed r # Ran op ok # es)"
proof -
  have inv: "transfer_inv P h i (journal_exec h op j, Ran op ok # es)"
    using assms(1,2) by (intro transfer_inv_call) auto
  have "\<not> carried i es" if "u_id r = i" "u_session_key r = None"
    using inv assms(2,3) that by (auto simp: transfer_inv_def has_session_def simp del: journal_exec.simps)
  moreover have "left_pending (journal_exec h op j) i \<and> \<not> begun i es" if "u_id r = i" "u_state r = UploadingU"
    using assms(1,3,5) that by (auto simp: transfer_inv_def left_pending_def)
  ultimately show ?thesis
    using inv assms(2) by (auto simp: transfer_inv_def simp del: journal_exec.simps)
qed

lemma transfer_inv_return:
  assumes "transfer_inv P h i (j, es)" "proved_uncommitted P k es"
  shows "transfer_inv P h i (journal_exec h (RetryVerifiedUncommitted k) j, Ran (RetryVerifiedUncommitted k) ok # es)"
proof -
  have ok: "journal_ok h j" "journal_ok h (journal_exec h (RetryVerifiedUncommitted k) j)"
    using assms(1) jm.exec_inv by (auto simp: transfer_inv_def simp del: journal_exec.simps)
  have "k \<noteq> i \<Longrightarrow> quiet i (RetryVerifiedUncommitted k)"
    by (simp add: quiet_def)
  then show ?thesis
    using assms ok(2) quiet_exec_kept [OF ok(1), of i "RetryVerifiedUncommitted k"]
    by (cases "k = i") (auto simp: transfer_inv_def simp del: journal_exec.simps)
qed

lemma transfer_inv_send:
  assumes "transfer_inv P h i (j, es)" "may_send k c es"
  shows "transfer_inv P h i (j, Sent k c v # es)"
proof -
  have "carries i (Sent k c v) \<Longrightarrow> has_session j i"
    using sent_armed [OF assms(2)] assms(1) by (auto simp: transfer_inv_def)
  moreover have "begins i (Sent k c v) \<Longrightarrow> left_pending j i \<and> \<not> begun i es"
    using begins_fresh [OF assms(2)] assms(1) by (auto simp: transfer_inv_def)
  ultimately show ?thesis
    using assms(1) by (auto simp: transfer_inv_def)
qed

lemma transfer_inv_step:
  assumes "protocol P h (quiet i) s s'" "transfer_inv P h i s"
  shows "transfer_inv P h i s'"
  using assms
proof (induction rule: protocol.induct)
  case (Interfered ops j es)
  then show ?case
    using quiet_run_kept [of h j i ops] run_ok [of h j ops] by (auto simp: transfer_inv_def)
next
  case (Called op ok j es)
  then show ?case
    by (intro transfer_inv_call)
next
  case (Claims op now t j' j r es ok)
  then show ?case
    using transfer_inv_claim [of P h i j es op now t r ok] by simp
next
  case (Returns k es j ok)
  then show ?case
    by (intro transfer_inv_return)
next
  case (Sends k c es j v)
  then show ?case
    by (intro transfer_inv_send)
qed (auto simp: transfer_inv_def)

lemma transfer_inv_runs:
  assumes "\<forall>E \<in> set Es. tame (quiet i) E"
  shows "transfer_inv P h i (view (transfer_runs P h Es (new_transfer_world (reached h a q ops))))"
proof -
  let ?w = "new_transfer_world (reached h a q ops)"
  have start: "transfer_inv P h i (view ?w)"
    using reached_ok by (simp add: transfer_inv_def view_def new_transfer_world_def)
  have run: "follows P h (quiet i) ?w (transfer_runs P h Es ?w)"
    using transfer_runs_follows [OF assms, of h ?w P] reached_ok by (simp add: new_transfer_world_def)
  show ?thesis
    by (rule tw.leads_keeps [where kept = "transfer_inv P h i", OF _ run start]) (rule transfer_inv_step)
qed

section \<open>Reading a second begin\<close>

lemma trace_ok_append: "trace_ok P i (xs @ ys) \<Longrightarrow> trace_ok P i ys"
  by (induction xs) auto

lemma begun_append: "begins i e \<Longrightarrow> \<forall>x \<in> set ys. \<not> returned i x \<Longrightarrow> begun i (ys @ e # zs)"
  by (induction ys) auto

lemma carried_append: "\<not> carried i (ys @ zs) \<Longrightarrow> \<forall>x \<in> set ys. \<not> returned i x \<Longrightarrow> \<forall>x \<in> set ys. \<not> carries i x"
  by (induction ys) auto

abbreviation sends_for :: "uuid \<Rightarrow> transfer_event \<Rightarrow> bool" where
  "sends_for i e \<equiv> (\<exists>c v. e = Sent i c v)"

lemma unrecorded_split:
  "unrecorded P i (vs @ Sent i b v # zs) \<Longrightarrow> \<exists>us r ws. vs = us @ Claimed r # ws \<and> u_id r = i \<and> u_session_key r = None
     \<and> begin_is_mutation_free_until_checkpoint P (request_of r) \<and> (\<forall>e \<in> set us. \<not> sends_for i e)"
proof (induction vs)
  case (Cons e vs)
  show ?case
  proof (cases "\<exists>r. e = Claimed r \<and> u_id r = i")
    case True
    then show ?thesis
      using Cons.prems by (auto intro!: exI [of _ "[]"])
  next
    case False
    then have "unrecorded P i (vs @ Sent i b v # zs)" "\<not> sends_for i e"
      using Cons.prems by (cases e; auto split: if_splits)+
    then obtain us r ws where "vs = us @ Claimed r # ws" "u_id r = i" "u_session_key r = None"
        "begin_is_mutation_free_until_checkpoint P (request_of r)" "\<forall>e \<in> set us. \<not> sends_for i e"
      using Cons.IH by blast
    then show ?thesis
      using \<open>\<not> sends_for i e\<close> by (intro exI [of _ "e # us"] exI [of _ r] exI [of _ ws]) auto
  qed
qed simp

lemma proved_split:
  "proved_uncommitted P i (vs @ Sent i b v # zs) \<Longrightarrow> (\<exists>c. Reconciled i c (Inr RecUncommitted) \<in> set vs)
     \<or> (\<exists>us ws. vs = us @ Loaded i None # ws \<and> unrecorded P i (ws @ Sent i b v # zs) \<and> (\<forall>e \<in> set us. \<not> sends_for i e))"
proof (induction vs)
  case (Cons e vs)
  show ?case
  proof (cases "(\<exists>c. e = Loaded i c) \<or> (\<exists>c v. e = Reconciled i c v)")
    case True
    then have "e = Loaded i None \<and> unrecorded P i (vs @ Sent i b v # zs) \<or> (\<exists>c. e = Reconciled i c (Inr RecUncommitted))"
      using Cons.prems by auto
    then show ?thesis
    proof
      assume "e = Loaded i None \<and> unrecorded P i (vs @ Sent i b v # zs)"
      then show ?thesis
        by (intro disjI2 exI [of _ "[]"] exI [of _ vs]) simp
    qed auto
  next
    case False
    then have "proved_uncommitted P i (vs @ Sent i b v # zs)" "\<not> sends_for i e"
      using Cons.prems by (cases e; auto split: if_splits)+
    then show ?thesis
      using Cons.IH by (metis append_Cons list.set_intros(2) set_ConsD)
  qed
qed simp

definition uncommitted_evidence :: "upload_provider \<Rightarrow> uuid \<Rightarrow> transfer_event list \<Rightarrow> bool" where
  "uncommitted_evidence P i vs \<longleftrightarrow> (\<exists>c. Reconciled i c (Inr RecUncommitted) \<in> set vs)
     \<or> (Loaded i None \<in> set vs \<and> (\<exists>r. Claimed r \<in> set vs \<and> u_id r = i \<and> u_session_key r = None
          \<and> begin_is_mutation_free_until_checkpoint P (request_of r))
        \<and> (\<forall>c v. Sent i c v \<in> set vs \<longrightarrow> checkpoint_of c = None))"

lemma evidence_of_trace:
  assumes "trace_ok P i (vs @ Sent i b v # zs)" "proved_uncommitted P i (vs @ Sent i b v # zs)" "\<forall>x \<in> set vs. \<not> returned i x"
  shows "uncommitted_evidence P i vs"
  using proved_split [OF assms(2)]
proof
  assume "\<exists>us ws. vs = us @ Loaded i None # ws \<and> unrecorded P i (ws @ Sent i b v # zs) \<and> (\<forall>e \<in> set us. \<not> sends_for i e)"
  then obtain us ws where vs: "vs = us @ Loaded i None # ws" "unrecorded P i (ws @ Sent i b v # zs)" "\<forall>e \<in> set us. \<not> sends_for i e"
    by blast
  obtain us' r ws' where ws: "ws = us' @ Claimed r # ws'" "u_id r = i" "u_session_key r = None"
      "begin_is_mutation_free_until_checkpoint P (request_of r)" "\<forall>e \<in> set us'. \<not> sends_for i e"
    using unrecorded_split [OF vs(2)] by blast
  have "trace_ok P i (Claimed r # ws' @ Sent i b v # zs)"
    using trace_ok_append [of P i "us @ Loaded i None # us'" "Claimed r # ws' @ Sent i b v # zs"] assms(1) vs(1) ws(1) by simp
  then have "\<forall>x \<in> set ws'. \<not> carries i x"
    using ws(2,3) carried_append assms(3) vs(1) ws(1) by fastforce
  then show ?thesis
    using vs(1,3) ws unfolding uncommitted_evidence_def by fastforce
qed (simp add: uncommitted_evidence_def)

lemma tame_True: "tame (\<lambda>_. True) E"
  by (simp add: tame_def list_all_iff)

lemma saved_last_split: "saved_last i c es \<Longrightarrow> \<exists>us vs. es = us @ Saved i c # vs \<and> (\<forall>e \<in> set us. \<exists>ops. e = Others ops)"
proof (induction i c es rule: saved_last.induct)
  case (1 i c k c' es)
  then show ?case
    by (intro exI [of _ "[]"] exI [of _ es]) simp
next
  case (2 i c ops es)
  then obtain us vs where "es = us @ Saved i c # vs" "\<forall>e \<in> set us. \<exists>ops. e = Others ops"
    by auto
  then show ?case
    by (intro exI [of _ "Others ops # us"] exI [of _ vs]) simp
qed auto

lemma armed_split:
  "armed i c es \<Longrightarrow> \<exists>us t n vs zs. es = us @ Ran (RecordSession i t i n) True # vs @ Saved i c # zs
     \<and> (\<forall>e \<in> set (us @ vs). (\<exists>ops. e = Others ops) \<or> (\<exists>k bytes. e = ReadPayload k bytes))"
proof (induction i c es rule: armed.induct)
  case (1 i c k t s n ok es)
  then obtain us vs where "es = us @ Saved i c # vs" "\<forall>e \<in> set us. \<exists>ops. e = Others ops"
    using saved_last_split [of i c es] by auto
  then show ?case
    using 1 by (intro exI [of _ "[]"] exI [of _ t] exI [of _ n] exI [of _ us] exI [of _ vs]) auto
next
  case (2 i c ops es)
  then obtain us t n vs zs where "es = us @ Ran (RecordSession i t i n) True # vs @ Saved i c # zs"
     "\<forall>e \<in> set (us @ vs). (\<exists>ops. e = Others ops) \<or> (\<exists>k bytes. e = ReadPayload k bytes)"
    by auto
  then show ?case
    by (intro exI [of _ "Others ops # us"] exI [of _ t] exI [of _ n] exI [of _ vs] exI [of _ zs]) auto
next
  case (3 i c k bytes es)
  then obtain us t n vs zs where "es = us @ Ran (RecordSession i t i n) True # vs @ Saved i c # zs"
     "\<forall>e \<in> set (us @ vs). (\<exists>ops. e = Others ops) \<or> (\<exists>k bytes. e = ReadPayload k bytes)"
    by auto
  then show ?case
    by (intro exI [of _ "ReadPayload k bytes # us"] exI [of _ t] exI [of _ n] exI [of _ vs] exI [of _ zs]) auto
qed auto

text \<open>Every request in a log was allowed by what came before it.\<close>

fun sends_allowed :: "transfer_event list \<Rightarrow> bool" where
  "sends_allowed [] = True"
| "sends_allowed (Sent i c v # es) = (may_send i c es \<and> sends_allowed es)"
| "sends_allowed (_ # es) = sends_allowed es"

lemma sends_allowed_append: "sends_allowed (xs @ ys) \<Longrightarrow> sends_allowed ys"
  by (induction xs rule: sends_allowed.induct) auto

lemma protocol_allowed: "protocol P h A s s' \<Longrightarrow> sends_allowed (snd s) \<Longrightarrow> sends_allowed (snd s')"
  by (induction rule: protocol.induct) auto

lemma follows_allowed: "follows P h A w w' \<Longrightarrow> sends_allowed (w_log w) \<Longrightarrow> sends_allowed (w_log w')"
  using tw.leads_keeps [where kept = "\<lambda>s. sends_allowed (snd s)", of P h A w w', OF protocol_allowed] by (simp add: view_def)

lemma runs_allowed: "journal_ok h j \<Longrightarrow> sends_allowed (w_log (transfer_runs P h Es (new_transfer_world j)))"
  using transfer_runs_follows [of Es "\<lambda>_. True" h "new_transfer_world j" P] follows_allowed [of P h "\<lambda>_. True" "new_transfer_world j"]
  by (simp add: tame_True new_transfer_world_def)

section \<open>What is sent\<close>

lemma payload_Inr: "payload h i j = (Inr bytes, j') \<longleftrightarrow> j' = j \<and> (\<exists>r. fmlookup (uploads j) i = Some r \<and> u_state r \<noteq> PreparingU
    \<and> length (u_sha256 r) = 64 \<and> fmlookup (objects j) i = Some bytes \<and> int (length bytes) = u_size r \<and> sha256 h bytes = u_sha256 r)"
  by (cases "fmlookup (uploads j) i"; cases "fmlookup (objects j) i") (auto simp: payload_def upload_get_def fail_def give_def)

definition read_as_saved :: "host \<Rightarrow> uuid \<Rightarrow> upload_record \<Rightarrow> transfer_event list \<Rightarrow> bool" where
  "read_as_saved h i r es \<longleftrightarrow> (\<forall>bytes. ReadPayload i bytes \<in> set es \<longrightarrow> sha256 h bytes = u_sha256 r \<and> int (length bytes) = u_size r)"

lemma follows_reads:
  assumes "follows P h A w w'" "journal_ok h (w_journal w)" "keeps_save i r bytes (w_journal w)" "read_as_saved h i r (w_log w)"
  shows "read_as_saved h i r (w_log w')"
proof -
  let ?I = "\<lambda>s. journal_ok h (fst s) \<and> keeps_save i r bytes (fst s) \<and> read_as_saved h i r (snd s)"
  have one: "?I s'" if "protocol P h A s s'" "?I s" for s s'
    using that
  proof (induction rule: protocol.induct)
    case (Reads k j b es)
    then show ?case
      by (auto simp: payload_Inr read_as_saved_def keeps_save_def same_save_def)
  qed (auto simp: read_as_saved_def simp del: journal_exec.simps intro: run_ok jm.exec_inv ks.run_kept ks.exec_kept)
  show ?thesis
    using tw.leads_keeps [where kept = ?I, OF one assms(1)] assms(2-4) by (simp add: view_def)
qed

lemma runs_reads:
  assumes "journal_ok h j" "keeps_save i r bytes j"
  shows "read_as_saved h i r (w_log (transfer_runs P h Es (new_transfer_world j)))"
proof -
  have "follows P h (\<lambda>_. True) (new_transfer_world j) (transfer_runs P h Es (new_transfer_world j))"
    using transfer_runs_follows [of Es "\<lambda>_. True" h "new_transfer_world j" P] assms(1) by (simp add: tame_True new_transfer_world_def)
  then show ?thesis
    using follows_reads [of P h "\<lambda>_. True" "new_transfer_world j" _ i r bytes] assms by (simp add: new_transfer_world_def read_as_saved_def)
qed

section \<open>Namespace changes\<close>

fun changes_proved :: "uuid \<Rightarrow> mutation_event list \<Rightarrow> bool" where
  "changes_proved i (Mutated k item v # es) = ((k = i \<longrightarrow> \<not> mutated i es) \<and> changes_proved i es)"
| "changes_proved i (_ # es) = changes_proved i es"
| "changes_proved i [] = True"

definition mutation_inv :: "host \<Rightarrow> uuid \<Rightarrow> journal \<times> mutation_event list \<Rightarrow> bool" where
  "mutation_inv h i s \<longleftrightarrow> (case s of (j, es) \<Rightarrow> journal_ok h j \<and> changes_proved i es
     \<and> (mutated i es \<longrightarrow> mutation_left j i) \<and> (unsent i es \<longrightarrow> mutation_left j i \<and> \<not> mutated i es))"

lemma quiet_change_kept:
  assumes "journal_ok h j" "mutation_left j i"
  shows "list_all (quiet i) ops \<Longrightarrow> mutation_left (journal_run h ops j) i" "quiet i op \<Longrightarrow> mutation_left (journal_exec h op j) i"
proof -
  show run: "list_all (quiet i) ops \<Longrightarrow> mutation_left (journal_run h ops j) i" for ops
    using lm.run_kept [OF assms(1), of i ops] assms(2) by (auto simp: mutation_left_def list_all_iff quiet_def)
  show "quiet i op \<Longrightarrow> mutation_left (journal_exec h op j) i"
    using run [of "[op]"] by (simp add: journal_run_def)
qed

lemma mutation_inv_step:
  assumes "mutation_protocol h (quiet i) s s'" "mutation_inv h i s"
  shows "mutation_inv h i s'"
  using assms
proof (induction rule: mutation_protocol.induct)
  case (MInterfered ops j es)
  then show ?case
    using quiet_change_kept(1) [of h j i ops] run_ok [of h j ops] by (auto simp: mutation_inv_def)
next
  case (MCalled op now t k item receipt content st d j es)
  then have "quiet i op"
    by (auto simp: quiet_def)
  then show ?case
    using MCalled quiet_change_kept(2) [of h j i op] jm.exec_inv [of h j op] by (auto simp: mutation_inv_def simp del: journal_exec.simps)
next
  case (MClaims j' now t j r es)
  then have "mutation_left j i \<Longrightarrow> mutation_left j' i" "journal_ok h j'"
    using quiet_change_kept(2) [of h j i "ClaimMutation now t"] jm.exec_inv [of h j "ClaimMutation now t"]
    by (auto simp: mutation_inv_def quiet_def simp del: journal_exec.simps)
  moreover have "mutation_left j' i \<and> \<not> mutated i es" if "m_id r = i" "m_state r = ApplyingM"
    using MClaims that by (auto simp: mutation_inv_def mutation_left_def)
  ultimately show ?case
    using MClaims by (auto simp: mutation_inv_def)
next
  case (MReturns op now k t d es j)
  have "\<not> mutated k es" if "k = i"
    using MReturns that by (cases "(i, es)" rule: found_uncommitted.cases) (auto simp: mutation_inv_def)
  moreover have "k \<noteq> i \<Longrightarrow> quiet i op"
    using MReturns by (auto simp: quiet_def)
  ultimately show ?case
    using MReturns quiet_change_kept(2) [of h j i op] jm.exec_inv [of h j op]
    by (auto simp: mutation_inv_def simp del: journal_exec.simps)
qed (auto simp: mutation_inv_def)

lemma mutation_inv_runs:
  assumes "\<forall>E \<in> set Es. mtame (quiet i) E"
  shows "mutation_inv h i (mview (mutation_runs h Es (new_mworld (reached h a q ops))))"
proof -
  let ?w = "new_mworld (reached h a q ops)"
  have start: "mutation_inv h i (mview ?w)"
    using reached_ok by (simp add: mutation_inv_def mview_def new_mworld_def)
  have run: "mfollows h (quiet i) ?w (mutation_runs h Es ?w)"
    using mutation_runs_follows [OF assms, of h ?w] reached_ok by (simp add: new_mworld_def)
  show ?thesis
    by (rule mw.leads_keeps [where kept = "mutation_inv h i", OF _ run start]) (rule mutation_inv_step)
qed

lemma changes_proved_append: "changes_proved i (xs @ ys) \<Longrightarrow> changes_proved i ys"
  by (induction xs rule: changes_proved.induct) auto

lemma mutated_append:
  "\<forall>item. MReconciled i item (Inr Uncommitted) \<notin> set ys \<Longrightarrow> mutated i (ys @ Mutated i item' v # zs)"
  by (induction ys rule: mutated.induct) auto

end
