(* ===== verification/Worker_Outcomes.thy ===== *)
theory Worker_Outcomes
  imports Worker_Traces
begin

text \<open>
  Single runs of the workers: how many requests a run can make, and in which state it leaves the
  operation it claimed.
\<close>

section \<open>How many requests a run makes\<close>

fun is_request :: "transfer_event \<Rightarrow> bool" where
  "is_request (Sent i c v) = True"
| "is_request (Reconciled i c v) = True"
| "is_request _ = False"

definition bounded_by :: "nat \<Rightarrow> transfer_world \<Rightarrow> transfer_world \<Rightarrow> bool" where
  "bounded_by n w w' \<longleftrightarrow> (\<exists>es. w_log w' = es @ w_log w \<and> length (filter is_request es) \<le> n)"

lemma bounded_by_mono: "bounded_by m w w' \<Longrightarrow> m \<le> n \<Longrightarrow> bounded_by n w w'"
  by (auto simp: bounded_by_def)

lemma bounded_by_trans: "bounded_by m w w1 \<Longrightarrow> bounded_by n w1 w' \<Longrightarrow> bounded_by (m + n) w w'"
  by (fastforce simp: bounded_by_def)

lemma bounded_by_refl [simp]: "bounded_by n w w" and bounded_by_tick [simp]: "bounded_by n (step_tick w) w' = bounded_by n w w'" "bounded_by n w (step_tick w') = bounded_by n w w'"
  by (auto simp: bounded_by_def)

lemma bounded_by_logged: "\<not> is_request e \<Longrightarrow> bounded_by n w (logged e w)" "bounded_by (Suc 0) w (logged e w)"
  by (auto simp: bounded_by_def intro!: exI [of _ "[e]"])

lemma bounded_by_jbind:
  assumes "bounded_by m w (snd r)" "\<And>x w1. r = (Inr x, w1) \<Longrightarrow> bounded_by n w1 (snd (f x w1))"
  shows "bounded_by (m + n) w (snd (jbind r f))"
  using assms bounded_by_mono [of m w _ "m + n"] by (cases r; cases "fst r") (auto intro: bounded_by_trans)

lemmas bounded_by_jbind0 = bounded_by_jbind [where m = 0, simplified]

lemma bounded_by_interfere: "bounded_by n w (interfere E h w)"
  by (auto simp: bounded_by_def intro!: exI [of _ "[Others (e_others E (w_tick w))]"])

lemma worker_local_within:
  assumes "\<And>w1. bounded_by 0 w1 (snd (action w1))"
  shows "bounded_by 0 w (snd (worker_local E h action w))"
  using bounded_by_trans [OF bounded_by_interfere [of 0] assms, of w E h]
  by (auto simp: worker_local_def bounded_by_interfere split: option.splits local_fault.splits prod.splits)

lemma journal_call_within: "bounded_by 0 w (snd (journal_call op f w))"
  by (auto simp: journal_call_def bounded_by_def step_tick_def logged_def split: prod.splits intro!: exI [of _ "[Ran op b]" for b])

lemma payload_call_within: "bounded_by 0 w (snd (payload_call h i w))"
  by (auto simp: payload_call_def bounded_by_logged split: prod.splits sum.splits)

lemma refused_call_within: "bounded_by 0 w (snd (refused_call f w))"
  by (simp add: refused_call_def)

lemma credential_within: "\<not> is_request e \<Longrightarrow> bounded_by 0 w (snd (credential E e x w))"
  using bounded_by_logged(1) [of e 0 "step_tick w"] by (auto simp: credential_def Let_def split: vault_outcome.splits)

lemma save_checkpoint_within: "bounded_by 0 w (snd (save_checkpoint E h i t c offset w))"
  unfolding save_checkpoint_def by (rule bounded_by_jbind0) (auto intro: credential_within worker_local_within journal_call_within)

lemma clean_checkpoint_within: "bounded_by 0 w (clean_checkpoint E i w)"
  using credential_within [of "Removed i" "step_tick w" E "()"] by (auto simp: clean_checkpoint_def Let_def)

lemma remote_step_within: "bounded_by (Suc 0) w (snd (remote_step E i rq c w))"
  using bounded_by_logged(2) [of "step_tick w"] by (auto simp: remote_step_def Let_def)

lemma remote_reconcile_within: "bounded_by (Suc 0) w (snd (remote_reconcile E i rq c w))"
  using bounded_by_logged(2) [of "step_tick w"] by (auto simp: remote_reconcile_def Let_def)

lemma turn_on_within: "bounded_by n w (snd m) \<Longrightarrow> bounded_by n w (snd (turn_on ls refuse m))"
  unfolding turn_on_def by (rule bounded_by_jbind [where n = 0, simplified]) (auto split: option.splits)

lemmas quiet_within = worker_local_within journal_call_within payload_call_within refused_call_within
  save_checkpoint_within clean_checkpoint_within

text \<open>The requests a step still allows.\<close>

definition budget :: "64 word \<Rightarrow> loop_state \<Rightarrow> upload_step \<Rightarrow> nat" where
  "budget sz ls s = (case s of
       StepAllocate c \<Rightarrow> if allocation_allowed ls then 6 + unat sz else 0
     | StepPrepared c \<Rightarrow> if prepared_allowed ls then 6 + unat sz else 0
     | StepContinue p \<Rightarrow> 5 + (unat sz - unat (up_offset p))
     | StepStream c \<Rightarrow> 5
     | StepCommit c \<Rightarrow> 4 - commit_steps ls
     | _ \<Rightarrow> 0)"

lemma turn_continue_within: "bounded_by (Suc 0) w (snd (turn_continue E h r t ls p w))"
proof -
  have "bounded_by (Suc 0) w (snd (jbind (loaded_payload E h (u_id r) ls w) (\<lambda>bytes w. jbind (read_range E bytes p w) (\<lambda>part w.
      turn_on (ls\<lparr>prepared_allowed := False, loop_payload := Some bytes\<rparr>) (\<lambda>next. uncertain_if (stays_behind p next))
        (remote_step E (u_id r) (request_of r) (UploadPart (up_checkpoint p) (up_offset p) part) w)))))" for w
    by (intro bounded_by_jbind0) (auto simp: loaded_payload_def read_range_def Let_def fail_def give_def
        intro: quiet_within turn_on_within remote_step_within split: option.splits)
  then show ?thesis
    by (auto simp: turn_continue_def intro!: bounded_by_jbind0 [OF save_checkpoint_within])
qed

lemma checkpointed_within:
  "bounded_by (Suc 0) w (snd (turn_on ls refuse (jbind (save_checkpoint E h i t c n w) (\<lambda>_. remote_step E i rq call))))"
  by (intro turn_on_within bounded_by_jbind0 save_checkpoint_within remote_step_within)

lemma turn_stream_within: "bounded_by (Suc 0) w (snd (turn_stream E h r t ls c w))"
  unfolding turn_stream_def
  by (intro turn_on_within bounded_by_jbind0) (auto intro: quiet_within remote_step_within)

lemma turn_allocate_within: "bounded_by (of_bool (allocation_allowed ls)) w (snd (turn_allocate E h r t ls c w))"
  using turn_on_within [OF remote_step_within, of "step_tick w" for w]
  by (auto simp: turn_allocate_def Let_def intro!: bounded_by_jbind0 [OF save_checkpoint_within])

lemma acknowledged_within:
  "(\<And>w1. bounded_by 0 w1 (snd (receipt w1))) \<Longrightarrow> bounded_by 0 w (snd (acknowledged E h i receipt w))"
  unfolding acknowledged_def turn_end_def by (rule bounded_by_jbind0) (auto intro: worker_local_within clean_checkpoint_within)

lemma turn_of_within:
  "bounded_by (min 1 (budget (ur_size (request_of r)) ls s)) w (snd (turn_of E h r t ls s w))"
  using turn_allocate_within [of ls "step_tick w"] turn_stream_within [of "step_tick w"] turn_continue_within [of "step_tick w"]
    checkpointed_within [of "step_tick w"] acknowledged_within [of _ "step_tick w"]
  by (cases s) (auto simp: turn_of_def Let_def budget_def turn_prepared_def turn_commit_def quiet_within)

lemma turn_budget:
  assumes "turn_of E h r t ls s w = (Inr (Inr (ls', s')), w')" "allocation_allowed ls \<longrightarrow> is_allocate s"
  shows "budget (ur_size (request_of r)) ls' s' < budget (ur_size (request_of r)) ls s \<and> \<not> allocation_allowed ls'"
proof (cases s)
  case (StepContinue p)
  then have valid: "range_valid p (ur_size (request_of r))" and ls': "allocation_allowed ls' = allocation_allowed ls" "\<not> prepared_allowed ls'"
    and behind: "\<not> stays_behind p s'"
    using assms(1)
    by (auto simp: turn_of_def Let_def turn_continue_def jbind_Inr uncertain_if_def dest!: turn_on_Inr split: if_splits)
  have room: "unat (up_offset p) < unat (ur_size (request_of r))"
    using valid by (simp add: range_valid_def word_less_nat_alt)
  have no: "\<not> allocation_allowed ls'"
    using assms(2) StepContinue ls'(1) by (simp add: is_allocate_def)
  show ?thesis
  proof (cases s')
    case again: (StepContinue q)
    then have "unat (ur_size (request_of r)) - unat (up_offset q) < unat (ur_size (request_of r)) - unat (up_offset p)"
      using range_advances [OF valid] behind by (simp add: stays_behind_def)
    then show ?thesis
      unfolding again StepContinue budget_def using no by auto
  qed (use no ls'(2) room StepContinue in \<open>simp_all add: budget_def\<close>)
qed (use assms in \<open>auto simp: turn_of_def Let_def acknowledged_def turn_end_Inr turn_allocate_def turn_prepared_def turn_commit_def
      turn_stream_def jbind_Inr budget_def uncertain_if_def is_commit_def is_receipt_def is_handoff_def is_prepared_def is_allocate_def
      dest!: turn_on_Inr split: if_splits upload_step.splits\<close>)

lemma drive_within:
  "allocation_allowed ls \<longrightarrow> is_allocate s \<Longrightarrow> bounded_by (budget (ur_size (request_of r)) ls s) w (snd (drive E h r t ls s w))"
proof (induction E h r t ls s w rule: drive.induct)
  case (1 E h r t ls s w)
  let ?b = "budget (ur_size (request_of r))"
  show ?case
  proof (cases "\<exists>ls' s' w'. turn_of E h r t ls s w = (Inr (Inr (ls', s')), w')")
    case True
    then obtain ls' s' w' where turn: "turn_of E h r t ls s w = (Inr (Inr (ls', s')), w')"
      by blast
    have "bounded_by (?b ls' s') w' (snd (drive E h r t ls' s' w'))"
      using "1.IH" [OF turn refl refl] turn_budget [OF turn "1.prems"] by blast
    then have "bounded_by (min 1 (?b ls s) + ?b ls' s') w (snd (drive E h r t ls' s' w'))"
      using bounded_by_trans turn_of_within [of r ls s w E h t] turn by fastforce
    then show ?thesis
      using turn turn_budget [OF turn "1.prems"] by (auto simp: drive.simps [of E h r t ls s w] intro: bounded_by_mono)
  next
    case False
    have "bounded_by (?b ls s) w (snd (turn_of E h r t ls s w))"
      using bounded_by_mono [OF turn_of_within] by (metis min.cobounded2)
    then show ?thesis
      unfolding drive.simps [of E h r t ls s w]
      using False by (cases "turn_of E h r t ls s w"; cases "fst (turn_of E h r t ls s w)") (auto split: sum.splits)
  qed
qed

lemma return_uncommitted_within: "bounded_by 0 w (snd (return_uncommitted E h i t w))"
proof -
  have "bounded_by 0 w (snd (jbind (journal_call a f w) (\<lambda>_. journal_call b g)))" for a f b g w
    by (intro bounded_by_jbind0 journal_call_within)
  then have "bounded_by 0 (clean_checkpoint E i w) (snd (return_uncommitted E h i t w))"
    unfolding return_uncommitted_def Let_def by (intro worker_local_within)
  then show ?thesis
    using bounded_by_trans [OF clean_checkpoint_within] by fastforce
qed

lemma returned_within: "bounded_by n w (snd (jbind (return_uncommitted E h i t w) (\<lambda>_. give x)))"
  by (rule bounded_by_jbind0) (auto intro: return_uncommitted_within)

lemma load_checkpoint_within: "bounded_by 0 w (snd (load_checkpoint E k w))"
  by (simp add: load_checkpoint_def Let_def credential_within)

lemma inspect_saved_within: "bounded_by (Suc 0) w (snd (inspect_saved E i rq c w))"
  using remote_step_within [of w E i rq "InspectUpload c"] by (auto simp: inspect_saved_def split: prod.splits sum.splits)

lemma open_verifying_within: "bounded_by (Suc 0) w (snd (open_verifying P E h r t w))"
  unfolding open_verifying_def Let_def
  by (rule bounded_by_jbind0 [OF load_checkpoint_within]) (auto intro: inspect_saved_within returned_within split: option.splits)

lemma open_fresh_within: "bounded_by (Suc 0) w (snd (open_fresh P E h r w))"
  unfolding open_fresh_def Let_def
  by (rule bounded_by_jbind [where n = 0, simplified])
    (auto intro!: bounded_by_jbind0 remote_step_within worker_local_within payload_call_within)

lemma reconcile_unknown_within: "bounded_by (Suc 0) w (snd (reconcile_unknown E h r t saved w))"
  unfolding reconcile_unknown_def Let_def
  by (rule bounded_by_jbind [where n = 0, simplified, OF remote_reconcile_within])
    (auto intro: returned_within split: reconciliation.splits)

lemma open_transfer_within:
  "bounded_by 2 w (snd (open_transfer P E h r t w))"
  "open_transfer P E h r t w = (Inr (Opened s a), w') \<Longrightarrow> (bounded_by 1 w w' \<or> bounded_by 2 w w' \<and> is_receipt s) \<and> (a \<longrightarrow> is_allocate s)"
proof -
  let ?m = "if u_state r = VerifyingU then open_verifying P E h r t w else open_fresh P E h r w"
  have first: "bounded_by (Suc 0) w (snd ?m)"
    by (simp add: open_verifying_within open_fresh_within)
  show all: "bounded_by 2 w (snd (open_transfer P E h r t w))"
    unfolding open_transfer_def numeral_2_eq_2
    by (rule bounded_by_jbind [where m = "Suc 0" and n = "Suc 0", simplified]) (use first reconcile_unknown_within in \<open>auto split: opened_transfer.splits\<close>)
  assume opened: "open_transfer P E h r t w = (Inr (Opened s a), w')"
  then obtain v w1 where v: "?m = (Inr v, w1)" "(case v of Unknown saved \<Rightarrow> reconcile_unknown E h r t saved w1 | _ \<Rightarrow> give v w1) = (Inr (Opened s a), w')"
    by (auto simp: open_transfer_def jbind_Inr)
  show "(bounded_by 1 w w' \<or> bounded_by 2 w w' \<and> is_receipt s) \<and> (a \<longrightarrow> is_allocate s)"
  proof (cases v)
    case (Opened s' a')
    have "a' \<longrightarrow> is_allocate s'"
      using v(1) Opened by (auto simp: open_verifying_def open_fresh_def inspect_saved_def Let_def jbind_Inr
          split: if_splits option.splits prod.splits sum.splits)
    then show ?thesis
      using v(2) Opened first v(1) by simp
  next
    case (Unknown saved)
    then obtain x w2 where "remote_reconcile E (u_id r) (request_of r) saved w1 = (Inr x, w2)"
      using v(2) by (auto simp: reconcile_unknown_def Let_def jbind_Inr)
    then have "is_receipt s \<and> \<not> a"
      using v(2) Unknown by (cases x) (auto simp: reconcile_unknown_def Let_def jbind_Inr is_receipt_def)
    then show ?thesis
      using all opened by simp
  qed (use v(2) in simp)
qed

section \<open>What a run reports\<close>

definition closed_as :: "uuid \<Rightarrow> upload_state \<Rightarrow> journal \<Rightarrow> bool" where
  "closed_as i st j \<longleftrightarrow> (\<exists>r. fmlookup (uploads j) i = Some r \<and> u_state r = st \<and> u_attempt r = None)"

lemma save_closes:
  assumes "journal_ok h j" "fmlookup (uploads j) i = Some r" "upload_save r' j = (Inr u, j')" "u_id r' = u_id r"
    "u_state r' = st" "u_attempt r' = None" "st \<noteq> ResolvedU"
  shows "closed_as i st j'"
proof -
  have "tables_ok j" "u_id r = i"
    using assms(1,2) upload_rowD(1) by (auto simp: journal_ok_def)
  then show ?thesis
    using upload_save_eq [of j r' r] assms(2-7) by (auto simp: closed_as_def put_upload_def)
qed

lemma acknowledge_closes: "journal_ok h j \<Longrightarrow> acknowledge i t n j = (Inr u, j') \<Longrightarrow> closed_as i UploadedU j'"
  by (auto simp: acknowledge_def jbind_Inr attempt_eq split: if_splits intro: save_closes)

lemma defer_closes:
  "journal_ok h j \<Longrightarrow> defer_attempt now i t st d j = (Inr u, j') \<Longrightarrow> closed_as i st j'"
  by (auto simp: defer_attempt_def jbind_Inr attempt_eq split: if_splits intro: save_closes)

lemma retry_closes: "journal_ok h j \<Longrightarrow> retry_verified_uncommitted h i j = (Inr u, j') \<Longrightarrow> closed_as i PendingU j'"
  by (auto simp: retry_verified_uncommitted_def jbind_Inr payload_Inr split: if_splits intro: save_closes)

lemma clean_checkpoint_journal [simp]: "w_journal (clean_checkpoint E i w) = w_journal w"
  by (auto simp: clean_checkpoint_def Let_def credential_def split: vault_outcome.splits)

lemma return_uncommitted_closes:
  assumes "journal_ok h (w_journal w)" "return_uncommitted E h i t w = (Inr u, w')"
  shows "closed_as i PendingU (w_journal w')"
proof -
  obtain now j1 j2 where j: "stop_attempt now i t VerifyRequiredU (w_journal (interfere E h (clean_checkpoint E i w))) = (Inr (), j1)"
      "retry_verified_uncommitted h i j1 = (Inr u, j2)" "w_journal w' = j2"
    using assms(2) by (auto simp: return_uncommitted_def Let_def jbind_Inr)
  have "journal_ok h (w_journal (interfere E h (clean_checkpoint E i w)))"
    using run_ok [OF assms(1)] by simp
  then have "journal_ok h j1"
    using j(1) jm.exec_inv [of h _ "DeferAttempt now i t VerifyRequiredU 0"] by (fastforce simp: stop_attempt_def)
  then show ?thesis
    using retry_closes j(2,3) by simp
qed

lemma refused_receipts:
  "fst (acknowledge_package i t p j) \<noteq> Inr u" "fst (acknowledge_package_handoff i t q j) \<noteq> Inr u"
  "fst (acknowledge_identity_handoff i t c b j) \<noteq> Inr u" "fst (reserve_identity_handoff i t l j) \<noteq> Inr u"
  by (cases "active_attempt i t j"; cases "fst (active_attempt i t j)";
      simp add: acknowledge_package_def acknowledge_package_handoff_def acknowledge_identity_handoff_def
        acknowledge_handoff_inner_def reserve_identity_handoff_def fail_def split: upload_intent.splits)+

lemma turn_on_not_done: "turn_on ls refuse m \<noteq> (Inr (Inl st), w)"
  by (auto simp: turn_on_def jbind_Inr split: option.splits)

lemma turn_closes:
  assumes "journal_ok h (w_journal w)" "turn_of E h r t ls s w = (Inr (Inl st), w')"
  shows "closed_as (u_id r) st (w_journal w')"
  using assms(2) acknowledge_closes [OF run_ok [OF assms(1)]]
  by (cases s) (auto simp: turn_of_def Let_def turn_allocate_def turn_prepared_def turn_commit_def turn_stream_def turn_continue_def
      acknowledged_def turn_end_def jbind_Inr refused_call_def refused_receipts turn_on_not_done split: if_splits)

lemma drive_closes:
  assumes "journal_ok h (w_journal w)" "payload_read (u_id r) ls w" "drive E h r t ls s w = (Inr st, w')"
  shows "closed_as (u_id r) st (w_journal w')"
  using assms
proof (induction E h r t ls s w rule: drive.induct)
  case (1 E h r t ls s w)
  obtain v w1 where turn: "turn_of E h r t ls s w = (Inr v, w1)"
      and rest: "(case v of Inl st \<Rightarrow> give st w1 | Inr (ls, s) \<Rightarrow> drive E h r t ls s w1) = (Inr st, w')"
    using "1.prems"(3) by (auto simp: drive.simps [of E h r t ls s w] jbind_Inr)
  show ?case
  proof (cases v)
    case (Inl st')
    then show ?thesis
      using turn_closes [OF "1.prems"(1)] turn rest by simp
  next
    case (Inr x)
    then obtain ls' s' where x: "v = Inr (ls', s')"
      by (cases x) auto
    have "journal_ok h (w_journal w1)"
      using follows_ok [OF turn_of_follows [OF tame_True "1.prems"(1,2)] "1.prems"(1)] turn by (metis snd_conv)
    moreover have "payload_read (u_id r) ls' w1"
      by (rule turn_of_payload [OF turn [unfolded x] "1.prems"(2) tame_True "1.prems"(1)])
    ultimately show ?thesis
      using "1.IH" [OF turn x refl] rest x by simp
  qed
qed

lemma journal_untouched:
  "credential E e x w = (Inr y, w') \<Longrightarrow> w_journal w' = w_journal w"
  "inspect_saved E i rq c w = (Inr v, w') \<Longrightarrow> w_journal w' = w_journal w"
  "remote_reconcile E i rq c' w = (Inr v', w') \<Longrightarrow> w_journal w' = w_journal w"
  by (auto simp: inspect_saved_def remote_step_def Let_def dest!: credential_Inr remote_reconcile_Inr
      split: prod.splits sum.splits if_splits)

lemma open_closes:
  assumes "journal_ok h (w_journal w)" "open_transfer P E h r t w = (Inr (Returned st), w')"
  shows "closed_as (u_id r) st (w_journal w')"
proof -
  obtain v w1 where v: "(if u_state r = VerifyingU then open_verifying P E h r t w else open_fresh P E h r w) = (Inr v, w1)"
      "(case v of Unknown saved \<Rightarrow> reconcile_unknown E h r t saved w1 | _ \<Rightarrow> give v w1) = (Inr (Returned st), w')"
    using assms(2) by (auto simp: open_transfer_def jbind_Inr)
  show ?thesis
  proof (cases v)
    case (Returned st')
    then obtain w0 where "return_uncommitted E h (u_id r) t w0 = (Inr (), w1)" "w_journal w0 = w_journal w" "st' = PendingU"
      using v(1) by (auto simp: open_verifying_def open_fresh_def inspect_saved_def load_checkpoint_def Let_def jbind_Inr
          dest: journal_untouched(1) split: if_splits option.splits prod.splits sum.splits)
    then show ?thesis
      using return_uncommitted_closes [of h w0] assms(1) v(2) Returned by simp
  next
    case (Unknown saved)
    then have "w_journal w1 = w_journal w"
      using v(1) by (auto simp: open_verifying_def open_fresh_def load_checkpoint_def Let_def jbind_Inr
          dest!: journal_untouched split: if_splits option.splits)
    moreover obtain x w2 where x: "remote_reconcile E (u_id r) (request_of r) saved w1 = (Inr x, w2)"
      using v(2) Unknown by (auto simp: reconcile_unknown_def Let_def jbind_Inr)
    moreover have "return_uncommitted E h (u_id r) t w2 = (Inr (), w') \<and> st = PendingU"
      using v(2) Unknown x by (cases x) (auto simp: reconcile_unknown_def Let_def jbind_Inr)
    ultimately show ?thesis
      using return_uncommitted_closes [of h w2 E "u_id r" t "()" w'] assms(1) journal_untouched(3) [OF x] by simp
  qed (use v(2) in simp)
qed

lemma execute_closes:
  assumes "journal_ok h (w_journal w)" "w_log w = Claimed r # es" "u_state r \<in> {UploadingU, VerifyingU}" "execute P E h r w = (Inr st, w')"
  shows "closed_as (u_id r) st (w_journal w')"
proof -
  obtain t v w1 where e: "open_transfer P E h r t w = (Inr v, w1)"
      "(case v of Returned state \<Rightarrow> give state w1
        | Opened s a \<Rightarrow> drive E h r t \<lparr>allocation_allowed = a, prepared_allowed = True, commit_steps = 0, loop_payload = None\<rparr> s w1
        | Unknown x \<Rightarrow> fail TWorker w1) = (Inr st, w')"
    using assms(4) by (auto simp: execute_def jbind_Inr refused_call_def refused_receipts split: option.splits)
  have "follows P h (\<lambda>_. True) w (snd (open_transfer P E h r t w))"
    using open_transfer_follows [OF tame_True assms(1), of "[]"] assms(2,3) by simp
  then have "journal_ok h (w_journal w1)"
    using follows_ok assms(1) e(1) by fastforce
  then have "closed_as (u_id r) st (w_journal w')" if "drive E h r t ls s w1 = (Inr st, w')" "loop_payload ls = None" for ls s
    using drive_closes [OF _ _ that(1)] that(2) by (simp add: payload_read_def)
  then show ?thesis
    using e open_closes [OF assms(1), of P E r t st w'] by (auto split: opened_transfer.splits)
qed

lemma settle_closes:
  assumes "journal_ok h (w_journal w)" "settle_error E h r e w = (Inr (Some result), w')"
  shows "closed_as (tr_id result) (tr_state result) (w_journal w')"
  using assms(2) defer_closes [OF run_ok [OF assms(1)]]
  by (auto simp: settle_error_def Let_def jbind_Inr split: option.splits)

definition change_closed :: "uuid \<Rightarrow> mutation_state \<Rightarrow> journal \<Rightarrow> bool" where
  "change_closed i st j \<longleftrightarrow> (\<exists>r. fmlookup (mutations j) i = Some r \<and> m_state r = st \<and> m_attempt r = None)"

lemma save_closes_change:
  assumes "journal_ok h j" "fmlookup (mutations j) i = Some r" "save_mutation r' j = (Inr u, j')" "m_id r' = m_id r"
    "m_state r' = st" "m_attempt r' = None"
  shows "change_closed i st j'"
proof -
  have "tables_ok j" "m_id r = i"
    using assms(1,2) mutation_rowD(1) by (auto simp: journal_ok_def)
  then show ?thesis
    using save_mutation_eq [of j r' r] assms(2-6) by (auto simp: change_closed_def put_mutation_def)
qed

lemma calls_close_change:
  assumes "journal_ok h j"
  shows "defer_mutation now i t st d j = (Inr u, j') \<Longrightarrow> change_closed i st j'"
    and "defer_mutation_preparation now i t d j = (Inr u, j') \<Longrightarrow> change_closed i PendingM j'"
    and "retry_uncommitted_mutation i t j = (Inr u, j') \<Longrightarrow> change_closed i PendingM j'"
    and "acknowledge_mutation_evidence i t receipt evidence j = (Inr st, j') \<Longrightarrow> change_closed i st j'"
  using assms
  by (auto simp: defer_mutation_def defer_mutation_preparation_def retry_uncommitted_mutation_def acknowledge_mutation_evidence_def
      Let_def jbind_Inr attempt_eq split: if_splits intro: save_closes_change)

lemma mutation_local_Inr:
  "mutation_local E h f w = (Inr x, w') \<Longrightarrow> f (journal_run h (me_others E (mw_tick w)) (mw_journal w)) = (Inr x, mw_journal w')"
  by (cases rule: mutation_local_cases [of E h f w]) (auto simp: prod_eq_iff)

lemma answers_close_change:
  assumes "journal_ok h (mw_journal w)"
  shows "prepare_failed E h r t e w = (Inr (Some result), w') \<Longrightarrow> change_closed (mres_id result) (mres_state result) (mw_journal w')"
    and "mutation_answer E h r t v w = (Inr (Some result), w') \<Longrightarrow> change_closed (mres_id result) (mres_state result) (mw_journal w')"
  using calls_close_change [OF run_ok [OF assms]]
  by (auto simp: prepare_failed_def mutation_answer_def mutation_report_def Let_def jbind_Inr dest!: mutation_local_Inr
      split: if_splits sum.splits mutation_reconciliation.splits)

lemma mutation_finish_closes:
  assumes "journal_ok h (mw_journal w)" "(case mutation_request_sent E r item w of (v, w) \<Rightarrow> mutation_answer E h r t v w) = (Inr (Some result), w')"
  shows "change_closed (mres_id result) (mres_state result) (mw_journal w')"
proof -
  have "mw_journal (snd (mutation_request_sent E r item w)) = mw_journal w"
    by (auto simp: mutation_request_sent_def mutation_remote_def Let_def split: prod.splits)
  then show ?thesis
    using answers_close_change(2) [of h "snd (mutation_request_sent E r item w)"] assms by (auto split: prod.splits)
qed

lemma mutation_local_ok:
  assumes "journal_ok h (mw_journal w)" "mutation_local E h f w = (Inr x, w')" "\<And>j. snd (f j) = journal_exec h op j"
  shows "journal_ok h (mw_journal w')"
proof -
  have "mw_journal w' = journal_exec h op (journal_run h (me_others E (mw_tick w)) (mw_journal w))"
    using mutation_local_Inr [OF assms(2)] assms(3) by (metis snd_conv)
  then show ?thesis
    using jm.exec_inv [OF run_ok [OF assms(1)]] by metis
qed

lemma claimed_closes:
  assumes "journal_ok h (mw_journal w)" "mutation_claimed E h r t w = (Inr (Some result), w')"
  shows "change_closed (mres_id result) (mres_state result) (mw_journal w')"
proof -
  let ?m = "mutation_remote E (\<lambda>n. me_prepare E n (m_id r) (m_request r)) (Prepared (m_id r)) w"
  obtain v w1 where m: "?m = (v, w1)"
    by fastforce
  have ok: "journal_ok h (mw_journal w1)"
    using mutation_remote_result [OF m] assms(1) by simp
  have recorded: "journal_ok h (mw_journal w2)" if "mutation_local E h (record_prepared_mutation (m_id r) t item) w1 = (Inr u, w2)" for item u w2
    by (rule mutation_local_ok [OF ok that, where op = "RecordPrepared (m_id r) t item"]) simp
  show ?thesis
    using assms(2) m mutation_finish_closes [OF assms(1)] mutation_finish_closes [OF ok] answers_close_change(1) [OF ok]
      mutation_finish_closes [OF recorded]
    by (auto simp: mutation_claimed_def Let_def jbind_Inr split: if_splits sum.splits option.splits)
qed

lemma mutation_run_once_Some:
  assumes "mutation_run_once E h w = (Inr (Some result), w')"
  obtains now t' r w0 t where "mutation_local E h (claim_mutation h now t') (mtick w) = (Inr (Some r), w0)"
    "mutation_claimed E h r t (mlogged (MClaimed r) w0) = (Inr (Some result), w')"
proof -
  obtain claimed w0 where c: "mutation_local E h (claim_mutation h (me_now E (mw_tick w)) (me_token E (mw_tick w))) (mtick w) = (Inr claimed, w0)"
      and rest: "(case claimed of None \<Rightarrow> give None w0 | Some r \<Rightarrow> (case m_attempt r of
         None \<Rightarrow> fail JStale w0 | Some t \<Rightarrow> mutation_claimed E h r t (mlogged (MClaimed r) w0))) = (Inr (Some result), w')"
    using assms by (auto simp: mutation_run_once_def Let_def jbind_Inr split: if_split_asm)
  from rest obtain r t where "claimed = Some r" "mutation_claimed E h r t (mlogged (MClaimed r) w0) = (Inr (Some result), w')"
    by (cases claimed; cases "m_attempt (the claimed)") auto
  then show thesis
    using that c by blast
qed

end
