(* ===== verification/Worker_Guarantees.thy ===== *)
theory Worker_Guarantees
  imports Worker_Outcomes
begin

text \<open>
  What the workers guarantee, however their runs interleave with other calls of the journal,
  whatever the provider answers and wherever they are cancelled: an operation is sent a second
  time only after a proof that the first attempt left nothing, every request that changes
  something was recorded before it was sent, a run makes a bounded number of requests, and what
  it reports is what the journal holds.
\<close>

section \<open>Guarantees\<close>

text \<open>C5: a transfer of a save is begun again only after the earlier one was proved to have left nothing
  at the provider: between two begins the save was returned to the queue, and before that, since the
  first begin, a reconciliation answered that nothing was committed; or, with a provider whose begin
  sends nothing before its first checkpoint, neither the journal nor the vault knew a checkpoint and no
  request that uses one was ever sent. Other calls of the journal may come in between at any point,
  restarts included, as long as none of them vouches for the save.\<close>

theorem begun_again_only_after_proof:
  assumes "\<forall>E \<in> set Es. tame (quiet i) E"
    and "w_log (transfer_runs P h Es (new_transfer_world (reached h a q ops))) = xs @ Sent i (BeginUpload b) v # ys @ Sent i (BeginUpload b') v' # zs"
    and "\<forall>e \<in> set ys. \<not> begins i e"
  shows "\<exists>us ok vs. ys = us @ Ran (RetryVerifiedUncommitted i) ok # vs \<and> uncommitted_evidence P i vs"
proof -
  have "trace_ok P i (xs @ Sent i (BeginUpload b) v # ys @ Sent i (BeginUpload b') v' # zs)"
    using transfer_inv_runs [OF assms(1), where P = P and h = h and a = a and q = q and ops = ops] assms(2)
    by (simp add: transfer_inv_def view_def)
  then have trace: "trace_ok P i (Sent i (BeginUpload b) v # ys @ Sent i (BeginUpload b') v' # zs)"
    by (rule trace_ok_append)
  then have "\<not> begun i (ys @ Sent i (BeginUpload b') v' # zs)"
    by simp
  then have "\<exists>x \<in> set ys. returned i x"
    using begun_append [of i "Sent i (BeginUpload b') v'" ys zs] by auto
  then obtain us e vs where ys: "ys = us @ e # vs" "returned i e" "\<forall>x \<in> set vs. \<not> returned i x"
    using split_list_last_prop [of ys "returned i"] by blast
  then obtain ok where e: "e = Ran (RetryVerifiedUncommitted i) ok"
    by (cases "(i, e)" rule: returned.cases) auto
  have "trace_ok P i (e # vs @ Sent i (BeginUpload b') v' # zs)"
    using trace_ok_append [of P i "Sent i (BeginUpload b) v # us" "e # vs @ Sent i (BeginUpload b') v' # zs"] trace ys(1) by simp
  then show ?thesis
    using evidence_of_trace [OF _ _ ys(3), of P "BeginUpload b'" v' zs] ys(1,2) e by (intro exI [of _ us] exI [of _ ok] exI [of _ vs]) simp
qed



text \<open>C10: a run of the worker on a claimed save makes at most seven requests more than the save has bytes,
  whatever the provider answers: the loop cannot be kept going by a provider that repeats itself, goes
  back, or prepares, allocates or commits again and again.\<close>

theorem requests_bounded:
  "\<exists>es. w_log (snd (execute P E h r w)) = es @ w_log w
     \<and> length (filter is_request es) \<le> unat (ur_size (request_of r)) + 7"
proof (cases "u_attempt r")
  case (Some t)
  let ?sz = "unat (ur_size (request_of r))"
  let ?ls = "\<lambda>a. \<lparr>allocation_allowed = a, prepared_allowed = True, commit_steps = 0, loop_payload = None\<rparr>"
  have drive: "bounded_by (?sz + 7) w1 (snd (drive E h r t (?ls a) s w2))" if "open_transfer P E h r t w1 = (Inr (Opened s a), w2)" for s a w1 w2
  proof -
    have o: "bounded_by 1 w1 w2 \<or> bounded_by 2 w1 w2 \<and> is_receipt s" "a \<longrightarrow> is_allocate s"
      using open_transfer_within(2) [OF that] by blast+
    have "budget (ur_size (request_of r)) (?ls a) s \<le> ?sz + 6" "is_receipt s \<Longrightarrow> budget (ur_size (request_of r)) (?ls a) s = 0"
      by (auto simp: budget_def is_receipt_def split: upload_step.splits)
    moreover have "bounded_by (budget (ur_size (request_of r)) (?ls a) s) w2 (snd (drive E h r t (?ls a) s w2))"
      using o(2) by (intro drive_within) simp
    ultimately show ?thesis
      using o(1) bounded_by_trans bounded_by_mono by fastforce
  qed
  have "bounded_by (?sz + 7) w1 (snd (jbind (open_transfer P E h r t w1) (\<lambda>v w. case v of
      Returned state \<Rightarrow> give state w
    | Opened s a \<Rightarrow> drive E h r t (?ls a) s w
    | Unknown _ \<Rightarrow> fail TWorker w)))" for w1
    using drive [of w1] bounded_by_mono [OF open_transfer_within(1), of "?sz + 7" w1 P E h r t]
    by (cases "open_transfer P E h r t w1"; cases "fst (open_transfer P E h r t w1)") (auto split: opened_transfer.splits)
  then have "bounded_by (?sz + 7) w (snd (execute P E h r w))"
    unfolding execute_def Some option.case
    by (rule bounded_by_jbind0 [rotated]) (auto intro: worker_local_within refused_call_within split: option.splits)
  then show ?thesis
    by (simp add: bounded_by_def)
qed (simp add: execute_def)

text \<open>C11: when a run reports a result, the journal holds exactly what it reports: the save is in the reported
  state and the attempt is given back, so that nothing stays claimed behind a finished run.\<close>

theorem reported_state_is_recorded:
  assumes "run_once P E h (transfer_runs P h Es (new_transfer_world (reached h a q ops))) = (Inr (Some result), w')"
  shows "\<exists>r. fmlookup (uploads (w_journal w')) (tr_id result) = Some r \<and> u_state r = tr_state result \<and> u_attempt r = None"
proof -
  let ?w = "interfere E h (step_tick (transfer_runs P h Es (new_transfer_world (reached h a q ops))))"
  have ok: "journal_ok h (w_journal ?w)"
    using transfer_runs_follows [of Es "\<lambda>_. True" h "new_transfer_world (reached h a q ops)" P] run_ok reached_ok by (simp add: tame_True new_transfer_world_def)
  obtain r w0 where c: "claim_work E h ?w = (Inr (Some r), w0)"
      and run: "(case execute P E h r (logged (Claimed r) w0) of
               (Inr state, w) \<Rightarrow> give (Some \<lparr>tr_id = u_id r, tr_state = state, tr_issue = None\<rparr>) w
             | (Inl e, w) \<Rightarrow> settle_error E h r e w) = (Inr (Some result), w')"
    using assms by (auto simp: run_once_def Let_def jbind_Inr split: if_splits option.splits)
  let ?v = "logged (Claimed r) w0"
  have r: "u_state r \<in> {UploadingU, VerifyingU}"
    using claim_work_Some [OF ok c] by blast
  have "follows P h (\<lambda>_. True) ?w ?v"
    using claim_work_follows [OF ok, of P "\<lambda>_. True" E] c by (simp add: noted_def)
  then have ok0: "journal_ok h (w_journal ?v)"
    using follows_ok ok by blast
  have ok1: "journal_ok h (w_journal (snd (execute P E h r ?v)))"
    using follows_ok [OF execute_follows [OF tame_True ok0 _ r] ok0] by simp
  show ?thesis
    using run execute_closes [OF ok0 _ r, of "w_log w0" P E] settle_closes [OF ok1]
    by (cases "execute P E h r ?v"; cases "fst (execute P E h r ?v)") (auto simp: closed_as_def)
qed

text \<open>C7: a namespace change is sent to the provider a second time only after a reconciliation in between
  answered that the first request left nothing, whatever other calls reach the journal meanwhile.\<close>

theorem change_sent_again_only_after_proof:
  assumes "\<forall>E \<in> set Es. mtame (quiet i) E"
    and "mw_log (mutation_runs h Es (new_mworld (reached h a q ops))) = xs @ Mutated i item v # ys @ Mutated i item' v' # zs"
  shows "\<exists>item. MReconciled i item (Inr Uncommitted) \<in> set ys"
proof -
  have "changes_proved i (xs @ Mutated i item v # ys @ Mutated i item' v' # zs)"
    using mutation_inv_runs [OF assms(1), where h = h and a = a and q = q and ops = ops] assms(2)
    by (simp add: mutation_inv_def mview_def)
  then have "\<not> mutated i (ys @ Mutated i item' v' # zs)"
    using changes_proved_append [of i xs] by fastforce
  then show ?thesis
    using mutated_append [of i ys item' v' zs] by blast
qed

text \<open>When a run on a namespace change reports a result, the journal holds the change in the reported
  state, and the attempt is given back.\<close>

theorem reported_change_is_recorded:
  assumes "mutation_run_once E h (mutation_runs h Es (new_mworld (reached h a q ops))) = (Inr (Some result), w')"
  shows "\<exists>r. fmlookup (mutations (mw_journal w')) (mres_id result) = Some r \<and> m_state r = mres_state result \<and> m_attempt r = None"
proof -
  let ?w = "mutation_runs h Es (new_mworld (reached h a q ops))"
  have ok: "journal_ok h (mw_journal ?w)"
    using mutation_runs_follows [of Es "\<lambda>_. True" h "new_mworld (reached h a q ops)"] reached_ok
    by (simp add: mtame_def list_all_iff new_mworld_def)
  obtain now t' r w0 t where c: "mutation_local E h (claim_mutation h now t') (mtick ?w) = (Inr (Some r), w0)"
      "mutation_claimed E h r t (mlogged (MClaimed r) w0) = (Inr (Some result), w')"
    by (rule mutation_run_once_Some [OF assms])
  have "journal_ok h (mw_journal w0)"
    by (rule mutation_local_ok [OF _ c(1), where op = "ClaimMutation now t'"]) (simp_all add: ok)
  then show ?thesis
    using claimed_closes [OF _ c(2)] by (simp add: change_closed_def)
qed

section \<open>Sample runs of the workers\<close>

text \<open>A provider that answers every request of a run alike, without interference or faults.\<close>

definition demo_provider :: upload_provider where
  "demo_provider = \<lparr>requires_begin_payload = (\<lambda>_. False), begin_is_mutation_free_until_checkpoint = (\<lambda>_. False),
     staged_recovery_location = (\<lambda>_ _. None)\<rparr>"

definition demo_env :: "int \<Rightarrow> (upload_call \<Rightarrow> upload_error + upload_step) \<Rightarrow> upload_error + reconciliation \<Rightarrow> transfer_env" where
  "demo_env now answer reconciled = \<lparr>e_cancelled = (\<lambda>_. False), e_now = (\<lambda>_. now), e_token = (\<lambda>_. ''t''),
     e_others = (\<lambda>_. []), e_fault = (\<lambda>_. None), e_vault = (\<lambda>_. VaultDone), e_stored = (\<lambda>_. None),
     e_read_fails = (\<lambda>_. False), e_step = (\<lambda>_ _ _. answer), e_reconcile = (\<lambda>_ _ _ _. reconciled)\<rparr>"

definition demo_lost :: transfer_env where
  "demo_lost = demo_env 10 (\<lambda>_. Inl UUncertain) (Inl UUncertain)"

definition demo_absent :: transfer_env where
  "demo_absent = demo_env 20 (\<lambda>_. Inl UUncertain) (Inr RecUncommitted)"

definition demo_part :: upload_progress where
  "demo_part = \<lparr>up_checkpoint = ''k'', up_offset = 0, up_length = 2\<rparr>"

definition demo_sending :: transfer_env where
  "demo_sending = demo_env 30
     (\<lambda>call. case call of BeginUpload _ \<Rightarrow> Inr (StepContinue demo_part) | _ \<Rightarrow> Inr (StepComplete demo_receipt)) (Inl UUncertain)"

abbreviation demo_runs :: "transfer_env list \<Rightarrow> transfer_world" where
  "demo_runs Es \<equiv> transfer_runs demo_provider demo_host Es (new_transfer_world (reached demo_host ''a'' 100 [demo_save ''u'']))"

lemma demo_tame: "tame A demo_lost" "tame A demo_absent" "tame A demo_sending"
  by (simp_all add: tame_def demo_lost_def demo_absent_def demo_sending_def demo_env_def)

lemma begins_iff: "begins i e \<longleftrightarrow> (\<exists>b v. e = Sent i (BeginUpload b) v)"
  by (cases "(i, e)" rule: begins.cases) auto

lemma two_filtered:
  assumes "length (filter f es) = 2"
  obtains xs e ys e' zs where "es = xs @ e # ys @ e' # zs" "f e" "f e'" "\<forall>x \<in> set ys. \<not> f x"
proof -
  obtain e e' where "filter f es = [e, e']"
    using assms by (auto simp: numeral_2_eq_2 length_Suc_conv)
  from filter_eq_ConsD [OF this] obtain xs vs where es: "es = xs @ e # vs" "f e" and vs: "filter f vs = [e']"
    by metis
  from filter_eq_ConsD [OF vs] show thesis
    using that es by metis
qed

text \<open>The answer to a begin is lost, a reconciliation finds nothing, and the save is begun again.\<close>

theorem begun_again_only_after_proof_witness:
  "\<exists>xs b v ys b' v' zs us ok vs. w_log (demo_runs [demo_lost, demo_absent, demo_lost])
       = xs @ Sent ''u'' (BeginUpload b) v # ys @ Sent ''u'' (BeginUpload b') v' # zs
     \<and> ys = us @ Ran (RetryVerifiedUncommitted ''u'') ok # vs \<and> uncommitted_evidence demo_provider ''u'' vs"
proof -
  have "length (filter (begins ''u'') (w_log (demo_runs [demo_lost, demo_absent, demo_lost]))) = 2"
    by code_simp
  then obtain xs b v ys b' v' zs where log: "w_log (demo_runs [demo_lost, demo_absent, demo_lost])
      = xs @ Sent ''u'' (BeginUpload b) v # ys @ Sent ''u'' (BeginUpload b') v' # zs" "\<forall>e \<in> set ys. \<not> begins ''u'' e"
    by (rule two_filtered) (auto simp: begins_iff)
  show ?thesis
    using begun_again_only_after_proof [OF _ log] demo_tame log(1) by simp metis
qed

definition sends_part :: "uuid \<Rightarrow> string \<Rightarrow> 64 word \<Rightarrow> transfer_event \<Rightarrow> bool" where
  "sends_part i c offset e = (case e of
       Sent k call v \<Rightarrow> (case call of UploadPart c' offset' part \<Rightarrow> k = i \<and> c' = c \<and> offset' = offset | _ \<Rightarrow> False)
     | _ \<Rightarrow> False)"

lemma sends_partD: "sends_part i c offset e \<Longrightarrow> \<exists>part v. e = Sent i (UploadPart c offset part) v"
  by (simp add: sends_part_def split: transfer_event.split_asm upload_call.split_asm)



theorem reported_state_is_recorded_witness:
  "\<exists>result w' r. run_once demo_provider demo_sending demo_host (demo_runs []) = (Inr (Some result), w')
     \<and> fmlookup (uploads (w_journal w')) (tr_id result) = Some r \<and> u_state r = UploadedU \<and> u_attempt r = None"
proof -
  have "case fst (run_once demo_provider demo_sending demo_host (demo_runs [])) of Inr (Some result) \<Rightarrow> tr_state result = UploadedU | _ \<Rightarrow> False"
    by code_simp
  then obtain result w' where "run_once demo_provider demo_sending demo_host (demo_runs []) = (Inr (Some result), w')" "tr_state result = UploadedU"
    by (cases "run_once demo_provider demo_sending demo_host (demo_runs [])") (auto split: sum.splits option.splits)
  then show ?thesis
    using reported_state_is_recorded by metis
qed

definition demo_change :: journal_op where
  "demo_change = EnqueueMutation ''m'' \<lparr>mr_scope = demo_account_scope, mr_intent = CreateFolder ''root'' ''d''\<rparr>"

definition demo_change_env :: "int \<Rightarrow> mutation_error + mutation_reconciliation \<Rightarrow> mutation_env" where
  "demo_change_env now reconciled = \<lparr>me_cancelled = (\<lambda>_. False), me_now = (\<lambda>_. now), me_token = (\<lambda>_. ''t''), me_others = (\<lambda>_. []),
     me_fault = (\<lambda>_. False), me_prepare = (\<lambda>_ _ _. Inr None), me_mutate = (\<lambda>_ _ _ _. Inl MUncertain), me_reconcile = (\<lambda>_ _ _ _. reconciled)\<rparr>"

abbreviation demo_changes :: "mutation_env list \<Rightarrow> mworld" where
  "demo_changes Es \<equiv> mutation_runs demo_host Es (new_mworld (reached demo_host ''a'' 100 [demo_change]))"

definition demo_twice :: "mutation_env list" where
  "demo_twice = [demo_change_env 10 (Inl MUncertain), demo_change_env 20 (Inr Uncommitted), demo_change_env 30 (Inl MUncertain)]"

definition changes_item :: "uuid \<Rightarrow> mutation_event \<Rightarrow> bool" where
  "changes_item i e = (case e of Mutated k item v \<Rightarrow> k = i | _ \<Rightarrow> False)"

theorem change_sent_again_only_after_proof_witness:
  "\<exists>xs item v ys item' v' zs item''. mw_log (demo_changes demo_twice) = xs @ Mutated ''m'' item v # ys @ Mutated ''m'' item' v' # zs
     \<and> MReconciled ''m'' item'' (Inr Uncommitted) \<in> set ys"
proof -
  have "length (filter (changes_item ''m'') (mw_log (demo_changes demo_twice))) = 2"
    by code_simp
  then obtain xs e ys e' zs where log: "mw_log (demo_changes demo_twice) = xs @ e # ys @ e' # zs" "changes_item ''m'' e" "changes_item ''m'' e'"
    by (rule two_filtered) blast
  then obtain item v item' v' where e: "e = Mutated ''m'' item v" "e' = Mutated ''m'' item' v'"
    by (auto simp: changes_item_def split: mutation_event.splits)
  have "\<forall>E \<in> set demo_twice. mtame (quiet ''m'') E"
    by (simp add: demo_twice_def demo_change_env_def mtame_def)
  then show ?thesis
    using change_sent_again_only_after_proof [OF _ log(1) [unfolded e]] log(1) e by blast
qed

theorem reported_change_is_recorded_witness:
  "\<exists>result w' r. mutation_run_once (demo_change_env 10 (Inl MUncertain)) demo_host (demo_changes []) = (Inr (Some result), w')
     \<and> fmlookup (mutations (mw_journal w')) (mres_id result) = Some r \<and> m_state r = VerifyRequiredM \<and> m_attempt r = None"
proof -
  let ?out = "mutation_run_once (demo_change_env 10 (Inl MUncertain)) demo_host (demo_changes [])"
  have "case fst ?out of Inr (Some result) \<Rightarrow> mres_state result = VerifyRequiredM | _ \<Rightarrow> False"
    by code_simp
  then obtain result w' where "?out = (Inr (Some result), w')" "mres_state result = VerifyRequiredM"
    by (cases ?out) (auto split: sum.splits option.splits)
  then show ?thesis
    using reported_change_is_recorded by metis
qed

end
