(* ===== verification/Content_Windows.thy ===== *)
theory Content_Windows
  imports Core_Types
begin

text \<open>
  Private staging of streamed windows, \<open>cirrove-service/src/content/windows.rs\<close>: the byte budget
  of the staging area, the writer that hashes each block of a window as it arrives, and
  the window that serves whole blocks once the provider validated it.

  Lengths are natural numbers: a window has at most 64 MiB and every sum stays below
  the width of the code's counters. SHA-256 is the argument \<open>digest\<close>; a hasher is the bytes it
  was fed. The temporary file is the bytes written to it.
\<close>

section \<open>The staging budget\<close>

definition block_len :: nat where
  "block_len = 4 * 1024 * 1024"

definition max_staging :: nat where
  "max_staging = 128 * 1024 * 1024"

definition max_window :: nat where
  "max_window = 64 * 1024 * 1024"

definition chunk_limit :: nat where
  "chunk_limit = 64 * 1024"

text \<open>\<open>sg_available\<close> are the permits left in the semaphore; the counters are atomics.\<close>

record staging =
  sg_capacity :: nat
  sg_available :: nat
  sg_peak :: nat
  sg_validated :: "64 word"
  sg_bytes :: "64 word"

definition staging_new :: "nat \<Rightarrow> staging" where
  "staging_new quota =
     (let cap = min (quota div 4) max_staging div block_len * block_len;
          cap = (if cap \<ge> 2 * block_len then cap else 0)
      in \<lparr>sg_capacity = cap, sg_available = cap, sg_peak = 0, sg_validated = 0, sg_bytes = 0\<rparr>)"

record window_stats =
  staging_budget_bytes :: nat
  staging_reserved_bytes :: nat
  staging_peak_bytes :: nat
  validated_windows :: "64 word"
  staged_bytes :: "64 word"

definition stats :: "staging \<Rightarrow> window_stats" where
  "stats st = \<lparr>staging_budget_bytes = sg_capacity st, staging_reserved_bytes = sg_capacity st - sg_available st,
     staging_peak_bytes = sg_peak st, validated_windows = sg_validated st, staged_bytes = sg_bytes st\<rparr>"

text \<open>A reservation is its length; it takes that many permits or none.\<close>

definition reserve :: "nat \<Rightarrow> staging \<Rightarrow> nat option \<times> staging" where
  "reserve wanted st =
     (let len = min (min wanted max_window) (sg_capacity st) in
      if len \<le> block_len \<or> sg_available st < len then (None, st)
      else let st = st\<lparr>sg_available := sg_available st - len\<rparr>
           in (Some len, st\<lparr>sg_peak := max (sg_peak st) (sg_capacity st - sg_available st)\<rparr>))"

text \<open>The permits come back when the reservation, or the last user of its file, is dropped.\<close>

definition unreserve :: "nat \<Rightarrow> staging \<Rightarrow> staging" where
  "unreserve len st = st\<lparr>sg_available := sg_available st + len\<rparr>"

definition validated :: "nat \<Rightarrow> staging \<Rightarrow> staging" where
  "validated len st = st\<lparr>sg_validated := sg_validated st + 1, sg_bytes := sg_bytes st + of_nat len\<rparr>"

section \<open>Writer and window\<close>

record writer =
  wr_file :: string
  wr_length :: nat
  wr_written :: nat
  wr_hash :: string
  wr_hashes :: "string list"

definition writer_new :: "nat \<Rightarrow> writer" where
  "writer_new len = \<lparr>wr_file = [], wr_length = len, wr_written = 0, wr_hash = [], wr_hashes = []\<rparr>"

definition write_at :: "nat \<Rightarrow> string \<Rightarrow> string \<Rightarrow> string" where
  "write_at off data f = take off (f @ replicate (off - length f) (CHR 0x00)) @ data @ drop (off + length data) f"

lemma block_len_pos [simp]: "0 < block_len" "block_len \<noteq> 0"
  by (simp_all add: block_len_def)

text \<open>The loop that hashes a chunk, closing a digest at every block boundary.\<close>

function hash_chunk :: "(string \<Rightarrow> string) \<Rightarrow> string \<Rightarrow> writer \<Rightarrow> writer" where
  "hash_chunk digest rest w =
     (if rest = [] then w
      else let n = min (length rest) (block_len - wr_written w mod block_len);
               w = w\<lparr>wr_hash := wr_hash w @ take n rest, wr_written := wr_written w + n\<rparr>;
               w = (if wr_written w mod block_len = 0
                    then w\<lparr>wr_hashes := wr_hashes w @ [digest (wr_hash w)], wr_hash := []\<rparr> else w)
           in hash_chunk digest (drop n rest) w)"
  by pat_completeness auto
termination
  by (relation "measure (\<lambda>(digest, rest, w). length rest)")
    (use mod_less_divisor [OF block_len_pos(1)] in \<open>auto simp: min_def not_le\<close>)

declare hash_chunk.simps [simp del]

text \<open>A write that fails has left some prefix of the chunk in the file.\<close>

definition write_chunk :: "(string \<Rightarrow> string) \<Rightarrow> nat option \<Rightarrow> string \<Rightarrow> writer \<Rightarrow> (provider_error + unit) \<times> writer" where
  "write_chunk digest fault bytes w =
     (if length bytes > chunk_limit \<or> length bytes > wr_length w - wr_written w
      then (Inl (Protocol ''staged window exceeds its reservation''), w)
      else case fault of
        Some n \<Rightarrow> (Inl Unavailable, w\<lparr>wr_file := write_at (wr_written w) (take n bytes) (wr_file w)\<rparr>)
      | None \<Rightarrow> (Inr (), hash_chunk digest bytes (w\<lparr>wr_file := write_at (wr_written w) bytes (wr_file w)\<rparr>)))"

record read_window =
  win_file :: string
  win_start :: nat
  win_length :: nat
  win_hashes :: "string list"

definition finish :: "(string \<Rightarrow> string) \<Rightarrow> nat \<Rightarrow> writer \<Rightarrow> provider_error + read_window" where
  "finish digest start w =
     (if wr_written w \<noteq> wr_length w then Inl (Protocol ''incomplete staged window'')
      else Inr \<lparr>win_file = wr_file w, win_start = start, win_length = wr_length w,
        win_hashes = (if wr_written w mod block_len = 0 then wr_hashes w else wr_hashes w @ [digest (wr_hash w)])\<rparr>)"

text \<open>Reading goes back to the file, which the argument \<open>fault\<close> may have changed or made
  unreadable meanwhile.\<close>

definition window_read :: "(string \<Rightarrow> string) \<Rightarrow> (string \<Rightarrow> string option) \<Rightarrow> nat \<Rightarrow> nat \<Rightarrow> read_window \<Rightarrow> provider_error + string" where
  "window_read digest fault off len win =
     (if off < win_start win then Inl Unavailable
      else
        let inside = off - win_start win; n = min (win_length win - inside) block_len in
        if inside mod block_len \<noteq> 0 \<or> inside \<ge> win_length win then Inl Unavailable
        else if len \<noteq> n then Inl (Protocol ''staged window read is not one complete block'')
        else if inside div block_len \<ge> length (win_hashes win) then Inl Unavailable
        else case fault (win_file win) of
          None \<Rightarrow> Inl Unavailable
        | Some f \<Rightarrow>
            (let bytes = take n (drop inside f) in
             if length bytes < n then Inl Unavailable
             else if digest bytes \<noteq> win_hashes win ! (inside div block_len)
             then Inl (Protocol ''staged window checksum mismatch'')
             else Inr bytes))"

section \<open>What the writer has hashed\<close>

text \<open>The whole blocks of a byte string, and the rest behind them.\<close>

definition whole :: "string \<Rightarrow> string list" where
  "whole bs = map (\<lambda>i. take block_len (drop (i * block_len) bs)) [0..<length bs div block_len]"

definition partial :: "string \<Rightarrow> string" where
  "partial bs = drop (length bs div block_len * block_len) bs"

lemma add_div_block:
  assumes "r + n \<le> block_len" "r < block_len"
  shows "(q * block_len + r + n) div block_len = (if r + n = block_len then Suc q else q)"
proof (cases "r + n = block_len")
  case True
  then show ?thesis
    by (metis add.assoc add.commute block_len_pos(2) div_mult_self1_is_m mult.commute mult_Suc nonzero_mult_div_cancel_right)
next
  case False
  then have "r + n < block_len"
    using assms by linarith
  then show ?thesis
    using False by (simp add: add.assoc)
qed

lemma whole_append:
  assumes "x \<noteq> []" "length x \<le> block_len - length bs mod block_len"
  shows "whole (bs @ x) = (if (length bs + length x) mod block_len = 0 then whole bs @ [partial bs @ x] else whole bs)"
    "partial (bs @ x) = (if (length bs + length x) mod block_len = 0 then [] else partial bs @ x)"
proof -
  define q r where "q = length bs div block_len" and "r = length bs mod block_len"
  have bs: "length bs = q * block_len + r" "r < block_len"
    by (simp_all add: q_def r_def)
  have le: "r + length x \<le> block_len"
    using assms bs by (simp add: r_def [symmetric])
  have eq: "(length bs + length x) mod block_len = 0 \<longleftrightarrow> r + length x = block_len"
    using le assms(1) bs by (auto simp: mod_eq_0_iff_dvd dvd_add_right_iff add.assoc dest: dvd_imp_le)
  have q': "(length bs + length x) div block_len = (if r + length x = block_len then Suc q else q)"
    using add_div_block [OF le bs(2), of q] bs(1) by simp
  have within: "take block_len (drop (i * block_len) (bs @ x)) = take block_len (drop (i * block_len) bs)" if "i < q" for i
  proof -
    have "Suc i * block_len \<le> q * block_len"
      using that by (intro mult_le_mono1) simp
    then show ?thesis
      using bs(1) by simp
  qed
  have rest: "drop (q * block_len) (bs @ x) = partial bs @ x" "length (partial bs @ x) = r + length x"
    using bs by (simp_all add: partial_def q_def [symmetric])
  have new: "take block_len (drop (q * block_len) (bs @ x)) = partial bs @ x" if "r + length x = block_len"
    using that rest by (simp only: rest(1)) simp
  have "map (\<lambda>i. take block_len (drop (i * block_len) (bs @ x))) [0..<q] = whole bs"
    using within by (simp add: whole_def q_def [symmetric])
  then show "whole (bs @ x) = (if (length bs + length x) mod block_len = 0 then whole bs @ [partial bs @ x] else whole bs)"
    using new by (simp add: whole_def [of "bs @ x"] q' eq del: take_append drop_append)
  show "partial (bs @ x) = (if (length bs + length x) mod block_len = 0 then [] else partial bs @ x)"
  proof (cases "r + length x = block_len")
    case True
    have "drop (Suc q * block_len) (bs @ x) = []"
      using bs(1) True by (intro drop_all) simp
    then show ?thesis
      using True eq q' by (simp add: partial_def [of "bs @ x"] del: drop_append mult_Suc)
  next
    case False
    then show ?thesis
      using eq q' rest(1) by (simp only: partial_def [of "bs @ x"] length_append if_False)
  qed
qed

text \<open>A writer that holds \<open>bs\<close>: digests of the whole blocks, the rest in the hasher. Behind \<open>bs\<close> the file may
  hold what a failed write left.\<close>

definition hashed :: "(string \<Rightarrow> string) \<Rightarrow> string \<Rightarrow> writer \<Rightarrow> bool" where
  "hashed digest bs w \<longleftrightarrow> wr_written w = length bs \<and> wr_hashes w = map digest (whole bs) \<and> wr_hash w = partial bs"

definition writer_holds :: "(string \<Rightarrow> string) \<Rightarrow> string \<Rightarrow> writer \<Rightarrow> bool" where
  "writer_holds digest bs w \<longleftrightarrow> hashed digest bs w \<and> take (length bs) (wr_file w) = bs"

lemma hash_chunk_hashed:
  "hashed digest bs w \<Longrightarrow> hashed digest (bs @ rest) (hash_chunk digest rest w)
     \<and> wr_file (hash_chunk digest rest w) = wr_file w \<and> wr_length (hash_chunk digest rest w) = wr_length w"
proof (induction "length rest" arbitrary: bs rest w rule: less_induct)
  case less
  show ?case
  proof (cases "rest = []")
    case True
    then show ?thesis
      using less.prems by (simp add: hash_chunk.simps)
  next
    case False
    define n where "n = min (length rest) (block_len - length bs mod block_len)"
    define x where "x = take n rest"
    have n: "0 < n" "n \<le> length rest"
      using False by (auto simp: n_def)
    have x: "x \<noteq> []" "length x \<le> block_len - length bs mod block_len" "length x = n"
      using n by (auto simp: x_def n_def)
    define w' where "w' = (if (length bs + n) mod block_len = 0
        then w\<lparr>wr_written := length bs + n, wr_hashes := wr_hashes w @ [digest (wr_hash w @ x)], wr_hash := []\<rparr>
        else w\<lparr>wr_hash := wr_hash w @ x, wr_written := length bs + n\<rparr>)"
    have eq: "hash_chunk digest rest w = hash_chunk digest (drop n rest) w'"
      using False less.prems by (subst hash_chunk.simps) (simp add: Let_def n_def w'_def x_def hashed_def)
    have "hashed digest (bs @ x) w'"
      using less.prems whole_append [OF x(1,2)] x(3) by (simp add: hashed_def w'_def)
    from less.hyps [OF _ this, of "drop n rest"] show ?thesis
      using n eq by (simp add: x_def w'_def split: if_splits)
  qed
qed

lemma take_write_at:
  assumes "take off f = bs" "off = length bs"
  shows "take (off + length data) (write_at off data f) = bs @ data" "take off (write_at off data f) = bs"
proof -
  have "off \<le> length f"
    using assms by (metis length_take min.cobounded1 min_def)
  then show "take (off + length data) (write_at off data f) = bs @ data" "take off (write_at off data f) = bs"
    using assms by (simp_all add: write_at_def)
qed

lemma write_chunk_holds:
  assumes "writer_holds digest bs w" "write_chunk digest fault bytes w = (v, w')"
  shows "writer_holds digest (if v = Inr () then bs @ bytes else bs) w'" "wr_length w' = wr_length w"
  using assms hash_chunk_hashed [of digest bs _ bytes] take_write_at [of "length bs" "wr_file w" bs]
  by (auto simp: writer_holds_def write_chunk_def hashed_def split: if_splits option.splits)

lemma writer_new_holds: "writer_holds digest [] (writer_new len)"
  by (simp add: writer_holds_def hashed_def writer_new_def whole_def partial_def)

section \<open>What a window serves\<close>

text \<open>The digests of a window that holds \<open>bs\<close>: one for every block, the last one perhaps short.\<close>

definition window_holds :: "(string \<Rightarrow> string) \<Rightarrow> string \<Rightarrow> read_window \<Rightarrow> bool" where
  "window_holds digest bs win \<longleftrightarrow> win_length win = length bs \<and> take (length bs) (win_file win) = bs
     \<and> win_hashes win = map (\<lambda>i. digest (take block_len (drop (i * block_len) bs))) [0..<(length bs + block_len - 1) div block_len]"

lemma finish_holds:
  assumes "writer_holds digest bs w" "finish digest start w = Inr win"
  shows "window_holds digest bs win" "win_start win = start"
proof -
  let ?q = "length bs div block_len"
  have len: "?q * block_len + length bs mod block_len = length bs" "length bs mod block_len < block_len"
    by simp_all
  have "(length bs + block_len - 1) div block_len = (if length bs mod block_len = 0 then ?q else Suc ?q)"
  proof (cases "length bs mod block_len = 0")
    case True
    then have "length bs + block_len - 1 = block_len - 1 + ?q * block_len"
      using len block_len_pos(1) by linarith
    then show ?thesis
      using True by (simp only: div_mult_self1 [OF block_len_pos(2)]) simp
  next
    case False
    then have "length bs + block_len - 1 = length bs mod block_len - 1 + Suc ?q * block_len"
      using len by simp
    then show ?thesis
      using False len(2) by (simp only: div_mult_self1 [OF block_len_pos(2)]) (simp add: less_imp_diff_less)
  qed
  moreover have "take block_len (drop (?q * block_len) bs) = partial bs"
    unfolding partial_def by (rule take_all) (simp add: minus_div_mult_eq_mod less_imp_le)
  ultimately show "window_holds digest bs win"
    using assms by (auto simp: finish_def writer_holds_def hashed_def window_holds_def whole_def split: if_splits)
  show "win_start win = start"
    using assms(2) by (auto simp: finish_def split: if_splits)
qed

text \<open>A block that is served has the digest of the block that was written, whatever became of the file.\<close>

lemma window_read_digest:
  assumes "window_holds digest bs win" "window_read digest fault off len win = Inr bytes"
  shows "digest bytes = digest (take len (drop (off - win_start win) bs))" "length bytes = len"
    "len = min (length bs - (off - win_start win)) block_len"
proof -
  define i where "i = (off - win_start win) div block_len"
  have inside: "off - win_start win = i * block_len"
    using assms(2) by (auto simp: window_read_def Let_def i_def split: if_splits)
  then show "digest bytes = digest (take len (drop (off - win_start win) bs))" "length bytes = len"
    "len = min (length bs - (off - win_start win)) block_len"
    using assms unfolding window_holds_def window_read_def Let_def
    by (auto split: if_splits option.splits simp: i_def [symmetric] min_def)
qed

lemma window_read_serves:
  assumes "window_holds digest bs win" "win_start win \<le> off" "(off - win_start win) mod block_len = 0" "off < win_start win + length bs"
  shows "window_read digest Some off (min (length bs - (off - win_start win)) block_len) win
    = Inr (take block_len (drop (off - win_start win) bs))"
proof -
  let ?inside = "off - win_start win"
  have bytes: "take (min (length bs - ?inside) block_len) (drop ?inside (win_file win)) = take block_len (drop ?inside bs)"
  proof -
    have "drop ?inside bs = take (length bs - ?inside) (drop ?inside (win_file win))"
      using assms(1) unfolding window_holds_def by (metis drop_take)
    then show ?thesis
      by (simp add: min.commute)
  qed
  have i: "?inside = ?inside div block_len * block_len"
    using assms(3) by (metis div_mult_mod_eq add.right_neutral)
  have "?inside div block_len < (length bs + block_len - 1) div block_len"
  proof -
    have "?inside div block_len * block_len < length bs"
      using assms(2,4) i by simp
    then have "(?inside div block_len + 1) * block_len \<le> length bs + block_len - 1"
      by (simp add: algebra_simps)
    then show ?thesis
      by (metis Suc_eq_plus1 block_len_pos(1) less_eq_div_iff_mult_less_eq Suc_le_eq)
  qed
  then show ?thesis
    using assms bytes i by (auto simp: window_read_def Let_def window_holds_def)
qed

end
