(* ===== verification/Content_Cache.thy ===== *)
theory Content_Cache
  imports Store_Pins Content_Windows
begin

text \<open>
  The cache of file contents, \<open>cirrove-service/src/content.rs\<close>: blocks of 4 MiB in files named by a digest of
  the revision they belong to, each behind its own digest; an index of their ages in a database; a
  few blocks in memory; and failed fetches remembered for a while. Many reads run at a
  time. Between two steps of a read, whenever the code awaits, other reads, evictions and
  a crash may change the cache: that is the environment's \<open>ce_others\<close>, asked at the tick of the
  world like everything else the code does not decide.

  SHA-256 is \<open>ch_digest\<close>; the name of a block, the hexadecimal digest of its identity in JSON, is
  \<open>ch_key\<close>. Times of day are nanoseconds; sums of file sizes are natural numbers. The gate of a block,
  the loader and stager semaphores and the publishing lock only make a read wait.
  \<open>ce_fetch\<close> is \<open>Sessions::read\<close> and \<open>ce_range\<close> the session of a staged artifact, each within its deadline.
\<close>

section \<open>State, keys and files\<close>

record cache_host =
  ch_digest :: "string \<Rightarrow> string"
  ch_key :: "scope \<times> string \<times> (string \<times> string) \<times> 64 word \<times> nat \<Rightarrow> string"

definition block_digest :: nat where
  "block_digest = 32"

definition memory_blocks :: nat where
  "memory_blocks = 8"

definition stored_bytes :: "nat \<Rightarrow> nat" where
  "stored_bytes sz = sz + (sz + block_len - 1) div block_len * block_digest"

record content_cache =
  cc_files :: "(string, string) fmap"
  cc_index :: "block_row list"
  cc_quota :: nat
  cc_protected :: "string fset"
  cc_reserved :: nat
  cc_memory :: "(string, string \<times> nat) fmap"
  cc_failures :: "(string, provider_error \<times> nat) fmap"

record cache_env =
  ce_others :: "nat \<Rightarrow> content_cache \<Rightarrow> content_cache"
  ce_cancelled :: "nat \<Rightarrow> bool"
  ce_poisoned :: "nat \<Rightarrow> bool"
  ce_now :: "nat \<Rightarrow> nat"
  ce_stamp :: "nat \<Rightarrow> int"
  ce_index_fails :: "nat \<Rightarrow> bool"
  ce_unreadable :: "nat \<Rightarrow> bool"
  ce_write_fails :: "nat \<Rightarrow> bool"
  ce_remove_fails :: "nat \<Rightarrow> bool"
  ce_fetch :: "nat \<Rightarrow> scope \<Rightarrow> node \<Rightarrow> nat \<Rightarrow> nat \<Rightarrow> provider_error + string"
  ce_range :: "nat \<Rightarrow> nat \<Rightarrow> nat \<Rightarrow> provider_error + string"

record cache_world =
  cw_cache :: content_cache
  cw_tick :: nat

type_synonym 'a cached = "(provider_error + 'a) \<times> cache_world"

definition block_key :: "cache_host \<Rightarrow> scope \<Rightarrow> node \<Rightarrow> nat \<Rightarrow> string option" where
  "block_key H s n start =
     map_option (\<lambda>version. ch_key H (s, node_id n, version, node_size n, start)) (content_revision n)"

function block_keys_from :: "cache_host \<Rightarrow> scope \<Rightarrow> node \<Rightarrow> nat \<Rightarrow> string list option" where
  "block_keys_from H s n start =
     (if start < unat (node_size n)
      then (case block_key H s n start of
              None \<Rightarrow> None
            | Some k \<Rightarrow> map_option (Cons k) (block_keys_from H s n (start + block_len)))
      else Some [])"
  by pat_completeness auto
termination
  by (relation "measure (\<lambda>(H, s, n, start). unat (node_size n) - start)") (auto simp: diff_less_mono2)

declare block_keys_from.simps [simp del]

definition block_keys :: "cache_host \<Rightarrow> scope \<Rightarrow> node \<Rightarrow> string list option" where
  "block_keys H s n = block_keys_from H s n 0"

definition valid_key :: "string \<Rightarrow> bool" where
  "valid_key k \<longleftrightarrow> length k = 64 \<and> list_all is_lower_hex k"

text \<open>A file is a block of the expected length behind its digest, or it is not used.\<close>

definition verified :: "cache_host \<Rightarrow> string \<Rightarrow> nat \<Rightarrow> string option" where
  "verified H f expected =
     (if length f \<noteq> expected + 32 \<or> ch_digest H (drop 32 f) \<noteq> take 32 f then None else Some (drop 32 f))"

section \<open>Steps\<close>

definition pause :: "cache_env \<Rightarrow> cache_world \<Rightarrow> cache_world" where
  "pause E w = \<lparr>cw_cache = ce_others E (cw_tick w) (cw_cache w), cw_tick = Suc (cw_tick w)\<rparr>"

definition updated :: "(content_cache \<Rightarrow> content_cache) \<Rightarrow> cache_world \<Rightarrow> cache_world" where
  "updated f w = w\<lparr>cw_cache := f (cw_cache w)\<rparr>"

text \<open>A lock of the cache's own tables may be poisoned.\<close>

definition locked :: "cache_env \<Rightarrow> cache_world \<Rightarrow> unit cached" where
  "locked E w = (if ce_poisoned E (cw_tick w) then fail Unavailable (pause E w) else give () (pause E w))"

definition unless_cancelled :: "cache_env \<Rightarrow> cache_world \<Rightarrow> unit cached" where
  "unless_cancelled E w = (if ce_cancelled E (cw_tick w) then fail Cancelled (pause E w) else give () (pause E w))"

text \<open>Blocks of equal age leave memory in the order of their keys.\<close>

definition oldest_key :: "(string, string \<times> nat) fmap \<Rightarrow> string option" where
  "oldest_key m = (case sort_key (\<lambda>k. snd (the (fmlookup m k))) (sorted_list_of_fset (fmdom m)) of [] \<Rightarrow> None | k # _ \<Rightarrow> Some k)"

definition remembered :: "string \<Rightarrow> string \<Rightarrow> nat \<Rightarrow> (string, string \<times> nat) fmap \<Rightarrow> (string, string \<times> nat) fmap" where
  "remembered k bytes now m =
     fmupd k (bytes, now)
       (if fcard (fmdom m) \<ge> memory_blocks \<and> fmlookup m k = None
        then (case oldest_key m of None \<Rightarrow> m | Some old \<Rightarrow> fmdrop old m) else m)"

definition remember :: "cache_env \<Rightarrow> string \<Rightarrow> string \<Rightarrow> cache_world \<Rightarrow> unit cached" where
  "remember E k bytes w =
     jbind (locked E w) (\<lambda>_ w. give () (updated (\<lambda>c. c\<lparr>cc_memory := remembered k bytes (ce_now E (cw_tick w)) (cc_memory c)\<rparr>) w))"

definition recalled :: "cache_env \<Rightarrow> string \<Rightarrow> cache_world \<Rightarrow> string option cached" where
  "recalled E k w =
     jbind (locked E w) (\<lambda>_ w.
     case fmlookup (cc_memory (cw_cache w)) k of
       None \<Rightarrow> give None w
     | Some (bytes, _) \<Rightarrow>
         give (Some bytes) (updated (\<lambda>c. c\<lparr>cc_memory := fmupd k (bytes, ce_now E (cw_tick w)) (cc_memory c)\<rparr>) w))"

definition read_verified :: "cache_env \<Rightarrow> cache_host \<Rightarrow> string \<Rightarrow> nat \<Rightarrow> cache_world \<Rightarrow> string option \<times> cache_world" where
  "read_verified E H k expected w =
     (let bad = ce_unreadable E (cw_tick w); w = pause E w in
      if bad then (None, w)
      else (case fmlookup (cc_files (cw_cache w)) k of None \<Rightarrow> None | Some f \<Rightarrow> verified H f expected, w))"

definition touch :: "cache_env \<Rightarrow> string \<Rightarrow> nat \<Rightarrow> cache_world \<Rightarrow> unit cached" where
  "touch E k sz w =
     (let n = cw_tick w; w = pause E w in
      if ce_index_fails E n then fail Unavailable w
      else give () (updated (\<lambda>c. c\<lparr>cc_index := block_touch (ce_stamp E n) k (of_nat sz) (cc_index c)\<rparr>) w))"

text \<open>The block is written to a temporary file, which is renamed over the block's name; on failure the
  temporary file is removed.\<close>

definition write_block :: "cache_env \<Rightarrow> cache_host \<Rightarrow> string \<Rightarrow> string \<Rightarrow> cache_world \<Rightarrow> unit cached" where
  "write_block E H k bytes w =
     (let n = cw_tick w; w = pause E w in
      if ce_write_fails E n then fail Unavailable w
      else give () (updated (\<lambda>c. c\<lparr>cc_files := fmupd k (ch_digest H bytes @ bytes) (cc_files c)\<rparr>) w))"

section \<open>Eviction\<close>

definition forget_block :: "cache_env \<Rightarrow> string \<Rightarrow> cache_world \<Rightarrow> unit cached" where
  "forget_block E k w =
     (let n = cw_tick w; w = pause E w in
      if ce_remove_fails E n then fail Unavailable w
      else let w = updated (\<lambda>c. c\<lparr>cc_files := fmdrop k (cc_files c)\<rparr>) w; m = cw_tick w; w = pause E w in
           if ce_index_fails E m then fail Unavailable w
           else give () (updated (\<lambda>c. c\<lparr>cc_index := block_forget k (cc_index c)\<rparr>) w))"

fun evict_loop :: "cache_env \<Rightarrow> (string \<Rightarrow> bool) \<Rightarrow> nat \<Rightarrow> nat \<Rightarrow> (string \<times> nat) list \<Rightarrow> cache_world \<Rightarrow> unit cached" where
  "evict_loop E spared budget held [] w = give () w"
| "evict_loop E spared budget held ((k, sz) # blocks) w =
     (if held \<le> budget then give () w
      else if spared k then evict_loop E spared budget held blocks w
      else jbind (forget_block E k w) (\<lambda>_. evict_loop E spared budget (held - sz) blocks))"

definition oldest_blocks :: "content_cache \<Rightarrow> (string \<times> nat) list" where
  "oldest_blocks c = map (\<lambda>(k, sz). (k, unat sz)) (block_oldest (cc_index c))"

definition evict :: "cache_env \<Rightarrow> string \<Rightarrow> cache_world \<Rightarrow> unit cached" where
  "evict E keep w =
     (let n = cw_tick w; w = pause E w in
      if ce_index_fails E n then fail Unavailable w
      else
        let blocks = oldest_blocks (cw_cache w); m = cw_tick w; w = pause E w; c = cw_cache w;
            (protected, reserved) = (if ce_poisoned E m then ({||}, cc_quota c) else (cc_protected c, cc_reserved c))
        in evict_loop E (\<lambda>k. k = keep \<or> k |\<in>| protected) (cc_quota c - reserved) (sum_list (map snd blocks)) blocks w)"

definition reclaim :: "cache_env \<Rightarrow> cache_world \<Rightarrow> unit cached" where
  "reclaim E = evict E []"

section \<open>Blocks\<close>

definition failure_pause :: nat where
  "failure_pause = 2 * 1000000000"

definition live_failures :: "nat \<Rightarrow> (string, provider_error \<times> nat) fmap \<Rightarrow> (string, provider_error \<times> nat) fmap" where
  "live_failures now fs = fmfilter (\<lambda>k. case fmlookup fs k of Some (_, until) \<Rightarrow> now < until | None \<Rightarrow> False) fs"

definition recent_failure :: "cache_env \<Rightarrow> string \<Rightarrow> cache_world \<Rightarrow> unit cached" where
  "recent_failure E k w =
     jbind (locked E w) (\<lambda>_ w.
     let w = updated (\<lambda>c. c\<lparr>cc_failures := live_failures (ce_now E (cw_tick w)) (cc_failures c)\<rparr>) w in
     case fmlookup (cc_failures (cw_cache w)) k of Some (e, _) \<Rightarrow> fail e w | None \<Rightarrow> give () w)"

definition failure_delay :: "provider_error \<Rightarrow> nat" where
  "failure_delay e = (case e of Throttled d \<Rightarrow> d | _ \<Rightarrow> failure_pause)"

definition note_failure :: "cache_env \<Rightarrow> string \<Rightarrow> provider_error \<Rightarrow> cache_world \<Rightarrow> 'a cached" where
  "note_failure E k e w =
     (if e = Cancelled then fail e w
      else jbind (locked E w) (\<lambda>_ w.
        let now = ce_now E (cw_tick w); fs = live_failures now (cc_failures (cw_cache w));
            fs = (if fcard (fmdom fs) < 256 then fmupd k (e, now + failure_delay e) fs else fs)
        in fail e (updated (\<lambda>c. c\<lparr>cc_failures := fs\<rparr>) w)))"

definition publish_block :: "cache_env \<Rightarrow> cache_host \<Rightarrow> string \<Rightarrow> string \<Rightarrow> cache_world \<Rightarrow> unit cached" where
  "publish_block E H k bytes w =
     jbind (write_block E H k bytes (pause E w)) (\<lambda>_ w.
     jbind (touch E k (length bytes + 32) w) (\<lambda>_ w.
     jbind (evict E k w) (\<lambda>_. remember E k bytes)))"

definition fetch_block :: "cache_env \<Rightarrow> cache_host \<Rightarrow> scope \<Rightarrow> node \<Rightarrow> string \<Rightarrow> nat \<Rightarrow> nat \<Rightarrow> cache_world \<Rightarrow> string cached" where
  "fetch_block E H s n k start expected w =
     (let m = cw_tick w; w = pause E w in
      case (if ce_cancelled E m then Inl Cancelled else ce_fetch E m s n start block_len) of
        Inl e \<Rightarrow> note_failure E k e w
      | Inr bytes \<Rightarrow>
          if length bytes \<noteq> expected then fail (Protocol ''provider returned an incomplete block'') w
          else jbind (publish_block E H k bytes w) (\<lambda>_. give bytes))"

definition block_loaded :: "cache_env \<Rightarrow> cache_host \<Rightarrow> scope \<Rightarrow> node \<Rightarrow> string \<Rightarrow> nat \<Rightarrow> cache_world \<Rightarrow> string cached" where
  "block_loaded E H s n k start w =
     (let expected = min (unat (node_size n) - start) block_len in
      case read_verified E H k expected w of
        (Some bytes, w) \<Rightarrow>
          jbind (remember E k bytes w) (\<lambda>_ w. jbind (touch E k (expected + 32) w) (\<lambda>_. give bytes))
      | (None, w) \<Rightarrow> fetch_block E H s n k start expected w)"

definition recalled_or :: "cache_env \<Rightarrow> string \<Rightarrow> (cache_world \<Rightarrow> string cached) \<Rightarrow> cache_world \<Rightarrow> string cached" where
  "recalled_or E k load w =
     jbind (recalled E k w) (\<lambda>hit. case hit of Some bytes \<Rightarrow> give bytes | None \<Rightarrow> load)"

definition block :: "cache_env \<Rightarrow> cache_host \<Rightarrow> scope \<Rightarrow> node \<Rightarrow> nat \<Rightarrow> cache_world \<Rightarrow> string cached" where
  "block E H s n start w =
     (if content_revision n = None then fail (Protocol ''file has no version tag'') w
      else case block_key H s n start of
        None \<Rightarrow> fail Unavailable w
      | Some k \<Rightarrow>
          recalled_or E k (\<lambda>w.
            jbind (locked E w) (\<lambda>_ w. jbind (unless_cancelled E w) (\<lambda>_.
            recalled_or E k (\<lambda>w.
              jbind (recent_failure E k w) (\<lambda>_ w. jbind (unless_cancelled E w) (\<lambda>_. block_loaded E H s n k start)))))) w)"

section \<open>Reads and staged artifacts\<close>

text \<open>The loop of a read; a turn that makes no progress is an error.\<close>

function read_loop :: "cache_env \<Rightarrow> cache_host \<Rightarrow> scope \<Rightarrow> node \<Rightarrow> nat \<Rightarrow> nat \<Rightarrow> string \<Rightarrow> cache_world \<Rightarrow> string cached" where
  "read_loop E H s n until position out w =
     (if \<not> position < until then give out w
      else jbind (unless_cancelled E w) (\<lambda>_ w.
        let start = position div block_len * block_len in
        jbind (block E H s n start w) (\<lambda>bytes w.
        let inside = position - start; amount = min (until - position) (length bytes - inside) in
        if amount = 0 then fail Unavailable w
        else read_loop E H s n until (position + amount) (out @ take amount (drop inside bytes)) w)))"
  by pat_completeness auto
termination
  by (relation "measure (\<lambda>(E, H, s, n, until, position, out, w). until - position)") auto

declare read_loop.simps [simp del]

definition read_content :: "cache_env \<Rightarrow> cache_host \<Rightarrow> scope \<Rightarrow> node \<Rightarrow> nat \<Rightarrow> nat \<Rightarrow> cache_world \<Rightarrow> string cached" where
  "read_content E H s n off len w =
     (if len > 8 * 1024 * 1024 then fail (Protocol ''read exceeds memory budget'') w
      else if off \<ge> unat (node_size n) then give [] w
      else read_loop E H s n (off + min (unat (node_size n) - off) len) off [] w)"

definition stage_block :: "cache_env \<Rightarrow> cache_host \<Rightarrow> scope \<Rightarrow> node \<Rightarrow> nat \<Rightarrow> string \<Rightarrow> cache_world \<Rightarrow> unit cached" where
  "stage_block E H s n start chunk w =
     jbind (unless_cancelled E w) (\<lambda>_ w.
     case block_key H s n start of
       None \<Rightarrow> fail Unavailable w
     | Some k \<Rightarrow>
         jbind (locked E w) (\<lambda>_ w.
         case read_verified E H k (length chunk) (pause E w) of
           (Some existing, w) \<Rightarrow>
             jbind (touch E k (length existing + block_digest) w) (\<lambda>_. remember E k existing)
         | (None, w) \<Rightarrow> publish_block E H k chunk w))"

function stage_chunks :: "cache_env \<Rightarrow> cache_host \<Rightarrow> scope \<Rightarrow> node \<Rightarrow> nat \<Rightarrow> string \<Rightarrow> cache_world \<Rightarrow> unit cached" where
  "stage_chunks E H s n start bytes w =
     (if bytes = [] then give () w
      else jbind (stage_block E H s n start (take block_len bytes) w)
        (\<lambda>_. stage_chunks E H s n (start + block_len) (drop block_len bytes)))"
  by pat_completeness auto
termination
  by (relation "measure (\<lambda>(E, H, s, n, start, bytes, w). length bytes)") auto

declare stage_chunks.simps [simp del]

definition stage_content :: "cache_env \<Rightarrow> cache_host \<Rightarrow> scope \<Rightarrow> node \<Rightarrow> string \<Rightarrow> cache_world \<Rightarrow> unit cached" where
  "stage_content E H s n bytes w =
     (if length bytes \<noteq> unat (node_size n) \<or> content_revision n = None
      then fail (Protocol ''staged content does not match its node'') w
      else stage_chunks E H s n 0 bytes w)"

text \<open>An artifact is copied from a session of the provider, block by block.\<close>

function stage_ranges :: "cache_env \<Rightarrow> cache_host \<Rightarrow> scope \<Rightarrow> node \<Rightarrow> nat \<Rightarrow> cache_world \<Rightarrow> unit cached" where
  "stage_ranges E H s n start w =
     (if \<not> start < unat (node_size n) then unless_cancelled E w
      else
        let len = min (unat (node_size n) - start) block_len; m = cw_tick w in
        jbind (unless_cancelled E w) (\<lambda>_ w.
        case ce_range E m start len of
          Inl e \<Rightarrow> fail e w
        | Inr chunk \<Rightarrow>
            if length chunk \<noteq> len then fail (Protocol ''incomplete staged artifact block'') w
            else jbind (stage_block E H s n start chunk w) (\<lambda>_. stage_ranges E H s n (start + len))))"
  by pat_completeness auto
termination
  by (relation "measure (\<lambda>(E, H, s, n, start, w). unat (node_size n) - start)") (auto intro!: diff_less_mono2)

declare stage_ranges.simps [simp del]

definition stage_session :: "cache_env \<Rightarrow> cache_host \<Rightarrow> read_identity \<Rightarrow> scope \<Rightarrow> node \<Rightarrow> cache_world \<Rightarrow> unit cached" where
  "stage_session E H identity s n w =
     (case read_identity_new s n of
        Inl e \<Rightarrow> fail e w
      | Inr expected \<Rightarrow>
          if identity \<noteq> expected then fail VersionChanged w
          else jbind (unless_cancelled E w) (\<lambda>_. stage_ranges E H s n 0))"

section \<open>Opening the cache\<close>

text \<open>What opening finds in the directory is brought in line with the index. The error of a failed
  call ends it.\<close>

definition temporary_of :: "(string \<Rightarrow> bool) \<Rightarrow> string \<Rightarrow> bool" where
  "temporary_of is_uuid name =
     (let k = takeWhile (\<lambda>c. c \<noteq> CHR ''.'') name; suffix = drop (length k + 1) name in
      CHR ''.'' \<in> set name \<and> valid_key k \<and> ends_with suffix ''.tmp'' \<and> is_uuid (take (length suffix - 4) suffix))"

fun reconcile_files :: "cache_env \<Rightarrow> (string \<Rightarrow> bool) \<Rightarrow> string list \<Rightarrow> string list \<Rightarrow> cache_world \<Rightarrow> unit cached" where
  "reconcile_files E is_uuid indexed [] w = give () w"
| "reconcile_files E is_uuid indexed (name # names) w =
     (if valid_key name
      then if name \<in> set indexed then reconcile_files E is_uuid indexed names w
           else jbind (touch E name (case fmlookup (cc_files (cw_cache w)) name of None \<Rightarrow> 0 | Some f \<Rightarrow> length f) w)
             (\<lambda>_. reconcile_files E is_uuid indexed names)
      else if temporary_of is_uuid name
      then (let m = cw_tick w; w = pause E w in
            if ce_remove_fails E m then fail Unavailable w
            else reconcile_files E is_uuid indexed names (updated (\<lambda>c. c\<lparr>cc_files := fmdrop name (cc_files c)\<rparr>) w))
      else reconcile_files E is_uuid indexed names w)"

fun forget_missing :: "cache_env \<Rightarrow> string list \<Rightarrow> cache_world \<Rightarrow> unit cached" where
  "forget_missing E [] w = give () w"
| "forget_missing E (k # ks) w =
     (let m = cw_tick w; w = pause E w in
      if ce_index_fails E m then fail Unavailable w
      else forget_missing E ks (updated (\<lambda>c. c\<lparr>cc_index := block_forget k (cc_index c)\<rparr>) w))"

definition reconcile :: "cache_env \<Rightarrow> (string \<Rightarrow> bool) \<Rightarrow> string list \<Rightarrow> cache_world \<Rightarrow> unit cached" where
  "reconcile E is_uuid names w =
     (let indexed = map fst (oldest_blocks (cw_cache w)) in
      jbind (reconcile_files E is_uuid indexed names w) (\<lambda>_ w.
      jbind (forget_missing E (filter (\<lambda>k. k \<notin> set (filter valid_key names)) indexed) w) (\<lambda>_ w.
      let c = cw_cache w; blocks = oldest_blocks c in
      evict_loop E (\<lambda>k. k |\<in>| cc_protected c) (cc_quota c - cc_reserved c) (sum_list (map snd blocks)) blocks w)))"

text \<open>A new cache on an existing directory and index; part of the quota goes to staged windows.\<close>

definition new_reserving ::
    "cache_env \<Rightarrow> (string \<Rightarrow> bool) \<Rightarrow> string list \<Rightarrow> nat \<Rightarrow> string fset \<Rightarrow> nat \<Rightarrow> (string, string) fmap \<Rightarrow> block_row list \<Rightarrow> unit cached" where
  "new_reserving E is_uuid names quota protected reserved files index =
     (let c = \<lparr>cc_files = files, cc_index = index, cc_quota = quota - sg_capacity (staging_new quota), cc_protected = protected,
            cc_reserved = reserved, cc_memory = fmempty, cc_failures = fmempty\<rparr>;
          w = \<lparr>cw_cache = c, cw_tick = 0\<rparr> in
      if quota < block_len + 32 then fail (Protocol ''cache quota must fit one block'') w
      else reconcile E is_uuid names w)"

end
