(* ===== verification/Content_Safety.thy ===== *)
theory Content_Safety
  imports Content_Cache
begin

text \<open>
  Which changes of the cache its operations make, and that nothing else is ever
  served than the bytes of the revision asked for.
\<close>

section \<open>Contents and steps\<close>

text \<open>\<open>origin\<close> gives the bytes of a revision, for the files \<open>U\<close> that are read or staged. No two of their
  blocks share a name unless they are equal.\<close>

definition block_of :: "(scope \<Rightarrow> node \<Rightarrow> string) \<Rightarrow> scope \<Rightarrow> node \<Rightarrow> nat \<Rightarrow> string" where
  "block_of origin s n start = take block_len (drop start (origin s n))"

definition names_block ::
    "cache_host \<Rightarrow> (scope \<Rightarrow> node \<Rightarrow> string) \<Rightarrow> (scope \<times> node) set \<Rightarrow> string \<Rightarrow> string \<Rightarrow> bool" where
  "names_block H origin U k bytes \<longleftrightarrow> (\<exists>s n start. (s, n) \<in> U \<and> block_len dvd start \<and> start < unat (node_size n)
     \<and> block_key H s n start = Some k \<and> bytes = block_of origin s n start)"

definition sound_names :: "cache_host \<Rightarrow> (scope \<Rightarrow> node \<Rightarrow> string) \<Rightarrow> (scope \<times> node) set \<Rightarrow> bool" where
  "sound_names H origin U \<longleftrightarrow> (\<forall>(s, n) \<in> U. length (origin s n) = unat (node_size n))
     \<and> (\<forall>k b b'. names_block H origin U k b \<longrightarrow> names_block H origin U k b' \<longrightarrow> b = b')
     \<and> (\<forall>x. length (ch_digest H x) = 32)"

text \<open>A crash may leave anything of a file that its digest does not vouch for.\<close>

inductive cache_step ::
    "cache_host \<Rightarrow> (scope \<Rightarrow> node \<Rightarrow> string) \<Rightarrow> (scope \<times> node) set \<Rightarrow> content_cache \<Rightarrow> content_cache \<Rightarrow> bool"
    for H origin U where
  Published: "names_block H origin U k b \<Longrightarrow> cache_step H origin U c (c\<lparr>cc_files := fmupd k (ch_digest H b @ b) (cc_files c)\<rparr>)"
| Damaged: "(\<And>len. verified H f len = None) \<Longrightarrow> cache_step H origin U c (c\<lparr>cc_files := fmupd k f (cc_files c)\<rparr>)"
| Removed: "cache_step H origin U c (c\<lparr>cc_files := fmdrop k (cc_files c)\<rparr>)"
| Indexed: "cache_step H origin U c (c\<lparr>cc_index := rows\<rparr>)"
| Remembered: "names_block H origin U k b \<Longrightarrow> cache_step H origin U c (c\<lparr>cc_memory := remembered k b t (cc_memory c)\<rparr>)"
| Recalled: "fmlookup (cc_memory c) k = Some (b, t) \<Longrightarrow> cache_step H origin U c (c\<lparr>cc_memory := fmupd k (b, t') (cc_memory c)\<rparr>)"
| Failing: "cache_step H origin U c (c\<lparr>cc_failures := fs\<rparr>)"
| Claimed: "cache_step H origin U c (c\<lparr>cc_protected := p, cc_reserved := r\<rparr>)"
| Restarted: "cache_step H origin U c (c\<lparr>cc_memory := fmempty, cc_failures := fmempty\<rparr>)"

interpretation cs: stepwise "cache_step H origin U" cw_cache for H origin U .

definition cache_ok :: "cache_host \<Rightarrow> (scope \<Rightarrow> node \<Rightarrow> string) \<Rightarrow> (scope \<times> node) set \<Rightarrow> content_cache \<Rightarrow> bool" where
  "cache_ok H origin U c \<longleftrightarrow>
     (\<forall>k b t. fmlookup (cc_memory c) k = Some (b, t) \<longrightarrow> names_block H origin U k b)
   \<and> (\<forall>k f len b b'. fmlookup (cc_files c) k = Some f \<longrightarrow> verified H f len = Some b \<longrightarrow> names_block H origin U k b' \<longrightarrow> b = b')"

text \<open>What the cache relies on: the others take steps of the same kind, and a fetch returns exactly
  the bytes asked for.\<close>

definition lawful :: "cache_host \<Rightarrow> (scope \<Rightarrow> node \<Rightarrow> string) \<Rightarrow> (scope \<times> node) set \<Rightarrow> cache_env \<Rightarrow> bool" where
  "lawful H origin U E \<longleftrightarrow> (\<forall>m c. (cache_step H origin U)\<^sup>*\<^sup>* c (ce_others E m c))
     \<and> (\<forall>m s n start len bytes. (s, n) \<in> U \<longrightarrow> ce_fetch E m s n start len = Inr bytes \<longrightarrow> bytes = take len (drop start (origin s n)))"

lemma remembered_lookup:
  "fmlookup (remembered k b t m) k' = Some x \<Longrightarrow> k' = k \<and> x = (b, t) \<or> fmlookup m k' = Some x"
  by (auto simp: remembered_def split: if_splits option.splits)

lemma verified_written: "length (ch_digest H b) = 32 \<Longrightarrow> verified H (ch_digest H b @ b) len = (if len = length b then Some b else None)"
  by (auto simp: verified_def)

lemma cache_step_ok:
  assumes "sound_names H origin U" "cache_step H origin U c c'" "cache_ok H origin U c"
  shows "cache_ok H origin U c'"
  using assms(2,3)
proof cases
  case (Published k b)
  then show ?thesis
    using assms(1,3) by (auto simp: cache_ok_def sound_names_def verified_written split: if_splits)
next
  case (Remembered k b t)
  then show ?thesis
    using assms(3) by (auto simp: cache_ok_def dest!: remembered_lookup)
qed (auto simp: cache_ok_def split: if_splits)

lemma leads_ok: "sound_names H origin U \<Longrightarrow> cs.leads H origin U w w' \<Longrightarrow> cache_ok H origin U (cw_cache w) \<Longrightarrow> cache_ok H origin U (cw_cache w')"
  by (rule cs.leads_keeps [where kept = "cache_ok H origin U"]) (auto intro: cache_step_ok)

section \<open>Operations take such steps\<close>

lemma pause_leads: "lawful H origin U E \<Longrightarrow> cs.leads H origin U w (pause E w)"
  by (simp add: cs.leads_def pause_def lawful_def)

lemma updated_leads: "cache_step H origin U (cw_cache w) (f (cw_cache w)) \<Longrightarrow> cs.leads H origin U w (updated f w)"
  by (rule cs.leads_step) (simp add: updated_def)

lemma pause_updated_leads:
  "lawful H origin U E \<Longrightarrow> (\<And>c. cache_step H origin U c (f c)) \<Longrightarrow> cs.leads H origin U w (updated f (pause E w))"
  using cs.leads_trans [OF pause_leads updated_leads] by blast

lemmas cache_steps = pause_leads pause_updated_leads Removed Indexed Failing

lemma locked_yields: "lawful H origin U E \<Longrightarrow> cs.yields H origin U w (locked E w) (\<lambda>_. True)"
  by (auto simp: locked_def intro!: cs.yields_give cs.yields_fail pause_leads)

lemma unless_cancelled_yields: "lawful H origin U E \<Longrightarrow> cs.yields H origin U w (unless_cancelled E w) (\<lambda>_. True)"
  by (auto simp: unless_cancelled_def intro!: cs.yields_give cs.yields_fail pause_leads)

lemma remember_yields:
  assumes "lawful H origin U E" "names_block H origin U k b"
  shows "cs.yields H origin U w (remember E k b w) (\<lambda>_. True)"
  unfolding remember_def
  by (rule cs.yields_jbind [OF locked_yields [OF assms(1)]])
    (auto intro!: cs.yields_give updated_leads Remembered assms(2))

lemma recalled_yields:
  assumes "lawful H origin U E" "sound_names H origin U" "cache_ok H origin U (cw_cache w)"
  shows "cs.yields H origin U w (recalled E k w) (\<lambda>hit. \<forall>b. hit = Some b \<longrightarrow> names_block H origin U k b)"
  unfolding recalled_def
proof (rule cs.yields_jbind [OF locked_yields [OF assms(1)]])
  fix x w1
  assume "cs.leads H origin U w w1"
  then have "cache_ok H origin U (cw_cache w1)"
    using leads_ok assms(2,3) by blast
  then show "cs.yields H origin U w1 (case fmlookup (cc_memory (cw_cache w1)) k of None \<Rightarrow> give None w1
      | Some (bytes, _) \<Rightarrow> give (Some bytes) (updated (\<lambda>c. c\<lparr>cc_memory := fmupd k (bytes, ce_now E (cw_tick w1)) (cc_memory c)\<rparr>) w1))
     (\<lambda>hit. \<forall>b. hit = Some b \<longrightarrow> names_block H origin U k b)"
    by (auto simp: cache_ok_def split: option.splits intro!: cs.yields_give cs.leads_refl updated_leads Recalled)
qed

lemma touch_yields: "lawful H origin U E \<Longrightarrow> cs.yields H origin U w (touch E k sz w) (\<lambda>_. True)"
  by (auto simp: touch_def Let_def intro!: cs.yields_give cs.yields_fail cache_steps)

lemma write_block_yields:
  "lawful H origin U E \<Longrightarrow> names_block H origin U k b \<Longrightarrow> cs.yields H origin U w (write_block E H k b w) (\<lambda>_. True)"
  by (auto simp: write_block_def Let_def intro!: cs.yields_give cs.yields_fail cache_steps Published)

lemma forget_block_yields: "lawful H origin U E \<Longrightarrow> cs.yields H origin U w (forget_block E k w) (\<lambda>_. True)"
  by (auto simp: forget_block_def Let_def intro!: cs.yields_give cs.yields_fail cache_steps
      intro: cs.leads_trans [OF pause_updated_leads])

lemma evict_loop_yields: "lawful H origin U E \<Longrightarrow> cs.yields H origin U w (evict_loop E spared budget held blocks w) (\<lambda>_. True)"
  by (induction E spared budget held blocks w rule: evict_loop.induct)
    (auto intro!: cs.yields_give cs.leads_refl intro: cs.yields_jbind [OF forget_block_yields])

lemma evict_yields: "lawful H origin U E \<Longrightarrow> cs.yields H origin U w (evict E keep w) (\<lambda>_. True)"
  by (auto simp: evict_def Let_def intro!: cs.yields_fail pause_leads
      intro: cs.yields_after [OF cs.leads_trans [OF pause_leads pause_leads] evict_loop_yields])

lemma recent_failure_yields: "lawful H origin U E \<Longrightarrow> cs.yields H origin U w (recent_failure E k w) (\<lambda>_. True)"
  unfolding recent_failure_def
  by (rule cs.yields_jbind [OF locked_yields])
    (auto simp: Let_def intro!: cs.yields_give cs.yields_fail updated_leads Failing split: option.splits)

lemma note_failure_yields: "lawful H origin U E \<Longrightarrow> cs.yields H origin U w (note_failure E k e w) good"
  unfolding note_failure_def
  by (auto intro!: cs.yields_fail cs.leads_refl updated_leads Failing cs.yields_jbind [OF locked_yields] simp: Let_def)

lemma publish_block_yields:
  assumes E: "lawful H origin U E" and b: "names_block H origin U k b"
  shows "cs.yields H origin U w (publish_block E H k b w) (\<lambda>_. True)"
  unfolding publish_block_def
  by (intro cs.yields_jbind [OF cs.yields_after [OF pause_leads [OF E] write_block_yields [OF E b]]]
      cs.yields_jbind [OF touch_yields [OF E]] cs.yields_jbind [OF evict_yields [OF E]] remember_yields [OF E b])

text \<open>From here on a block of a file in use: its name and its bytes.\<close>

definition wanted_block ::
    "cache_host \<Rightarrow> (scope \<times> node) set \<Rightarrow> scope \<Rightarrow> node \<Rightarrow> nat \<Rightarrow> string \<Rightarrow> bool" where
  "wanted_block H U s n start k \<longleftrightarrow> (s, n) \<in> U \<and> block_len dvd start \<and> start < unat (node_size n) \<and> block_key H s n start = Some k"

lemma wanted_block_named: "wanted_block H U s n start k \<Longrightarrow> names_block H origin U k (block_of origin s n start)"
  by (auto simp: wanted_block_def names_block_def)

lemma wanted_block_eq:
  "sound_names H origin U \<Longrightarrow> wanted_block H U s n start k \<Longrightarrow> names_block H origin U k b \<Longrightarrow> b = block_of origin s n start"
  using wanted_block_named unfolding sound_names_def by blast

lemma fetch_block_yields:
  assumes "lawful H origin U E" "sound_names H origin U" "wanted_block H U s n start k"
  shows "cs.yields H origin U w (fetch_block E H s n k start expected w) (\<lambda>b. b = block_of origin s n start)"
proof (cases "if ce_cancelled E (cw_tick w) then Inl Cancelled else ce_fetch E (cw_tick w) s n start block_len")
  case (Inl e)
  then show ?thesis
    by (simp add: fetch_block_def cs.yields_after [OF pause_leads note_failure_yields] assms(1))
next
  case (Inr b)
  then have "b = block_of origin s n start"
    using assms(1,3) by (auto simp: lawful_def wanted_block_def block_of_def split: if_splits)
  moreover from this have "names_block H origin U k b"
    using wanted_block_named [OF assms(3)] by simp
  ultimately show ?thesis
    using Inr assms(1)
    by (auto simp: fetch_block_def Let_def intro!: cs.yields_fail cs.yields_give pause_leads cs.leads_refl
        cs.yields_jbind [OF cs.yields_after [OF pause_leads publish_block_yields]])
qed

lemma read_verified_named:
  assumes "lawful H origin U E" "sound_names H origin U" "cache_ok H origin U (cw_cache w)" "names_block H origin U k b'"
    and "read_verified E H k expected w = (hit, w')"
  shows "cs.leads H origin U w w'" "hit = Some b \<Longrightarrow> b = b'"
proof -
  have "w' = pause E w"
    using assms(5) by (auto simp: read_verified_def Let_def split: if_splits)
  then show "cs.leads H origin U w w'"
    using pause_leads assms(1) by blast
  then have "cache_ok H origin U (cw_cache w')"
    using leads_ok assms(2,3) by blast
  then show "b = b'" if "hit = Some b"
    using assms(4,5) that by (auto simp: read_verified_def Let_def cache_ok_def split: if_splits option.splits)
qed

lemma block_loaded_yields:
  assumes "lawful H origin U E" "sound_names H origin U" "cache_ok H origin U (cw_cache w)" "wanted_block H U s n start k"
  shows "cs.yields H origin U w (block_loaded E H s n k start w) (\<lambda>b. b = block_of origin s n start)"
proof -
  note named = wanted_block_named [OF assms(4), of origin]
  obtain hit w1 where r: "read_verified E H k (min (unat (node_size n) - start) block_len) w = (hit, w1)"
    by fastforce
  note hit = read_verified_named [OF assms(1,2,3) named r]
  show ?thesis
  proof (cases hit)
    case None
    then show ?thesis
      using r cs.yields_after [OF hit(1) fetch_block_yields [OF assms(1,2,4)]] by (simp add: block_loaded_def Let_def)
  next
    case (Some b)
    then have b: "b = block_of origin s n start"
      by (rule hit(2))
    show ?thesis
      using r Some b unfolding block_loaded_def Let_def
      by (auto intro!: cs.yields_after [OF hit(1)] cs.yields_give cs.leads_refl
          cs.yields_jbind [OF remember_yields [OF assms(1) named]] cs.yields_jbind [OF touch_yields [OF assms(1)]])
  qed
qed

lemma recalled_or_yields:
  assumes "lawful H origin U E" "sound_names H origin U" "cache_ok H origin U (cw_cache w)" "wanted_block H U s n start k"
    and "\<And>w1. cache_ok H origin U (cw_cache w1) \<Longrightarrow> cs.yields H origin U w1 (load w1) (\<lambda>b. b = block_of origin s n start)"
  shows "cs.yields H origin U w (recalled_or E k load w) (\<lambda>b. b = block_of origin s n start)"
  unfolding recalled_or_def
proof (rule cs.yields_jbind [OF recalled_yields [OF assms(1,2,3)]])
  fix hit w1
  assume "\<forall>b. hit = Some b \<longrightarrow> names_block H origin U k b" "cs.leads H origin U w w1"
  then show "cs.yields H origin U w1 ((case hit of None \<Rightarrow> load | Some b \<Rightarrow> give b) w1) (\<lambda>b. b = block_of origin s n start)"
    using assms(5) leads_ok [OF assms(2) _ assms(3)] wanted_block_eq [OF assms(2,4)]
    by (auto intro: cs.yields_give cs.leads_refl split: option.splits)
qed

lemma block_yields:
  assumes E: "lawful H origin U E" and H: "sound_names H origin U" and ok: "cache_ok H origin U (cw_cache w)"
    and U: "(s, n) \<in> U" "block_len dvd start" "start < unat (node_size n)"
  shows "cs.yields H origin U w (block E H s n start w) (\<lambda>b. b = block_of origin s n start)"
proof (cases "block_key H s n start")
  case None
  then show ?thesis
    by (simp add: block_def cs.yields_fail cs.leads_refl)
next
  case (Some k)
  then have k: "wanted_block H U s n start k" "content_revision n \<noteq> None"
    using U by (auto simp: wanted_block_def block_key_def)
  have load: "cs.yields H origin U w1 (jbind (recent_failure E k w1) (\<lambda>_ w. jbind (unless_cancelled E w) (\<lambda>_. block_loaded E H s n k start)))
      (\<lambda>b. b = block_of origin s n start)" if "cache_ok H origin U (cw_cache w1)" for w1
    using that leads_ok [OF H]
    by (intro cs.yields_jbind [OF recent_failure_yields [OF E]] cs.yields_jbind [OF unless_cancelled_yields [OF E]] block_loaded_yields [OF E H _ k(1)])
      blast
  have "cs.yields H origin U w1 (jbind (locked E w1) (\<lambda>_ w. jbind (unless_cancelled E w) (\<lambda>_. recalled_or E k (\<lambda>w.
      jbind (recent_failure E k w) (\<lambda>_ w. jbind (unless_cancelled E w) (\<lambda>_. block_loaded E H s n k start))))))
      (\<lambda>b. b = block_of origin s n start)" if "cache_ok H origin U (cw_cache w1)" for w1
    using that leads_ok [OF H]
    by (intro cs.yields_jbind [OF locked_yields [OF E]] cs.yields_jbind [OF unless_cancelled_yields [OF E]] recalled_or_yields [OF E H _ k(1)] load)
      blast
  then show ?thesis
    using Some k(2) recalled_or_yields [OF E H ok k(1)] unfolding block_def by (simp only: option.case if_False)
qed

section \<open>What reads return\<close>

lemma block_start: "block_len dvd position div block_len * block_len" "position div block_len * block_len \<le> position"
    "position - position div block_len * block_len < block_len" for position :: nat
  by (simp_all add: minus_div_mult_eq_mod)

lemma block_slice:
  assumes "until \<le> length bs" "position < until" "start \<le> position"
    and "amount = min (until - position) (length (take block_len (drop start bs)) - (position - start))"
  shows "take amount (drop (position - start) (take block_len (drop start bs))) = take amount (drop position bs)"
proof -
  have "amount \<le> block_len - (position - start)"
  proof -
    have "amount \<le> length (take block_len (drop start bs)) - (position - start)"
      using assms(4) by simp
    also have "\<dots> \<le> block_len - (position - start)"
      by (rule diff_le_mono) simp
    finally show ?thesis .
  qed
  then show ?thesis
    using assms(3) by (simp add: drop_take take_take min_absorb1)
qed

lemma read_loop_yields:
  assumes E: "lawful H origin U E" and H: "sound_names H origin U" and U: "(s, n) \<in> U" and until: "until \<le> unat (node_size n)"
  shows "cache_ok H origin U (cw_cache w) \<Longrightarrow> position \<le> until \<Longrightarrow>
    cs.yields H origin U w (read_loop E H s n until position out w) (\<lambda>b. b = out @ take (until - position) (drop position (origin s n)))"
proof (induction "until - position" arbitrary: position out w rule: less_induct)
  case less
  let ?start = "position div block_len * block_len"
  have len: "length (origin s n) = unat (node_size n)"
    using H U by (auto simp: sound_names_def)
  show ?case
  proof (cases "position < until")
    case False
    then show ?thesis
      using less.prems by (subst read_loop.simps) (simp add: cs.yields_give cs.leads_refl)
  next
    case True
    have start: "?start < unat (node_size n)"
      using True until block_start(2) [of position] by linarith
    have turn: "cs.yields H origin U w2 (if min (until - position) (length b - (position - ?start)) = 0 then fail Unavailable w2
        else read_loop E H s n until (position + min (until - position) (length b - (position - ?start)))
          (out @ take (min (until - position) (length b - (position - ?start))) (drop (position - ?start) b)) w2)
        (\<lambda>b. b = out @ take (until - position) (drop position (origin s n)))"
      if b: "b = block_of origin s n ?start" and ok: "cache_ok H origin U (cw_cache w2)" for b w2
    proof -
      define amount where "amount = min (until - position) (length b - (position - ?start))"
      have slice: "take amount (drop (position - ?start) b) = take amount (drop position (origin s n))"
        unfolding b block_of_def
        by (rule block_slice [where until = until]) (use True len until block_start(2) [of position] in \<open>simp_all add: amount_def b block_of_def\<close>)
      have "amount \<le> until - position"
        by (simp add: amount_def)
      then have "amount + (until - (position + amount)) = until - position"
        by linarith
      then have "take (until - position) (drop position (origin s n))
          = take amount (drop position (origin s n)) @ take (until - (position + amount)) (drop (position + amount) (origin s n))"
        using take_add [of amount "until - (position + amount)" "drop position (origin s n)"] by (simp add: add.commute)
      then show ?thesis
        using less.hyps [of "position + amount" w2 "out @ take amount (drop position (origin s n))"] ok slice True \<open>amount \<le> until - position\<close>
        unfolding amount_def [symmetric] by (cases "amount = 0") (simp_all add: cs.yields_fail cs.leads_refl)
    qed
    have step: "cs.yields H origin U w1 (jbind (block E H s n ?start w1) (\<lambda>b w2.
        if min (until - position) (length b - (position - ?start)) = 0 then fail Unavailable w2
        else read_loop E H s n until (position + min (until - position) (length b - (position - ?start)))
          (out @ take (min (until - position) (length b - (position - ?start))) (drop (position - ?start) b)) w2))
        (\<lambda>b. b = out @ take (until - position) (drop position (origin s n)))" if "cache_ok H origin U (cw_cache w1)" for w1
      by (rule cs.yields_jbind [OF block_yields [OF E H that U block_start(1) start]]) (rule turn, assumption, rule leads_ok [OF H _ that])
    show ?thesis
      using True cs.yields_jbind [OF unless_cancelled_yields [OF E] step [OF leads_ok [OF H _ less.prems(1)]]]
      by (subst read_loop.simps) (simp only: Let_def not_True_eq_False if_False)
  qed
qed

lemma read_content_yields:
  assumes "lawful H origin U E" "sound_names H origin U" "(s, n) \<in> U" "cache_ok H origin U (cw_cache w)"
  shows "cs.yields H origin U w (read_content E H s n off len w) (\<lambda>b. b = take len (drop off (origin s n)))"
proof -
  have size: "length (origin s n) = unat (node_size n)"
    using assms(2,3) by (auto simp: sound_names_def)
  show ?thesis
  proof (cases "len > 8 * 1024 * 1024 \<or> off \<ge> unat (node_size n)")
    case True
    then show ?thesis
      using size by (auto simp: read_content_def intro!: cs.yields_fail cs.yields_give cs.leads_refl)
  next
    case False
    let ?until = "off + min (unat (node_size n) - off) len"
    have "take (?until - off) (drop off (origin s n)) = take len (drop off (origin s n))"
      using size by (simp add: min_def)
    moreover have "?until \<le> unat (node_size n)"
      using False by linarith
    ultimately show ?thesis
      using False read_loop_yields [OF assms(1-3), of ?until w off "[]"] assms(4) by (simp add: read_content_def)
  qed
qed

section \<open>Staging\<close>

lemma stage_block_yields:
  assumes E: "lawful H origin U E" and H: "sound_names H origin U" and ok: "cache_ok H origin U (cw_cache w)"
    and U: "(s, n) \<in> U" "block_len dvd start" "start < unat (node_size n)"
  shows "cs.yields H origin U w (stage_block E H s n start (block_of origin s n start) w) (\<lambda>_. True)"
proof -
  have stage: "cs.yields H origin U w2 (case read_verified E H k (length (block_of origin s n start)) (pause E w2) of
      (Some existing, w) \<Rightarrow> jbind (touch E k (length existing + block_digest) w) (\<lambda>_. remember E k existing)
    | (None, w) \<Rightarrow> publish_block E H k (block_of origin s n start) w) (\<lambda>_. True)"
    if k: "block_key H s n start = Some k" and w2: "cache_ok H origin U (cw_cache w2)" for k w2
  proof -
    note pause = pause_leads [OF E, of w2]
    have named: "names_block H origin U k (block_of origin s n start)"
      using k U by (auto simp: names_block_def)
    obtain hit w3 where r: "read_verified E H k (length (block_of origin s n start)) (pause E w2) = (hit, w3)"
      by fastforce
    note hit = read_verified_named [OF E H leads_ok [OF H pause w2] named r]
    show ?thesis
    proof (cases hit)
      case None
      then show ?thesis
        using r cs.yields_after [OF cs.leads_trans [OF pause hit(1)] publish_block_yields [OF E named]] by simp
    next
      case (Some existing)
      then show ?thesis
        using r named hit(2) by (auto intro!: cs.yields_after [OF cs.leads_trans [OF pause hit(1)]] cs.yields_jbind [OF touch_yields [OF E]] remember_yields [OF E])
    qed
  qed
  have fails: "cs.yields H origin U w1 (fail e w1) good" for e w1 good
    by (simp add: cs.yields_fail cs.leads_refl)
  show ?thesis
    unfolding stage_block_def
  proof (rule cs.yields_jbind [OF unless_cancelled_yields [OF E]])
    fix x w1
    assume "cs.leads H origin U w w1"
    then have w1: "cache_ok H origin U (cw_cache w1)"
      using leads_ok [OF H _ ok] by blast
    show "cs.yields H origin U w1 (case block_key H s n start of None \<Rightarrow> fail Unavailable w1 | Some k \<Rightarrow> jbind (locked E w1)
        (\<lambda>_ w. case read_verified E H k (length (block_of origin s n start)) (pause E w) of
            (Some existing, w) \<Rightarrow> jbind (touch E k (length existing + block_digest) w) (\<lambda>_. remember E k existing)
          | (None, w) \<Rightarrow> publish_block E H k (block_of origin s n start) w)) (\<lambda>_. True)"
      by (cases "block_key H s n start")
        (auto intro!: fails cs.yields_jbind [OF locked_yields [OF E]] stage intro: leads_ok [OF H _ w1])
  qed
qed

lemma stage_chunks_yields:
  assumes "lawful H origin U E" "sound_names H origin U" "(s, n) \<in> U"
  shows "cache_ok H origin U (cw_cache w) \<Longrightarrow> block_len dvd start \<Longrightarrow> bytes = drop start (origin s n) \<Longrightarrow>
    cs.yields H origin U w (stage_chunks E H s n start bytes w) (\<lambda>_. True)"
proof (induction "length bytes" arbitrary: bytes start w rule: less_induct)
  case less
  have size: "length (origin s n) = unat (node_size n)"
    using assms(2,3) by (auto simp: sound_names_def)
  show ?case
  proof (cases "bytes = []")
    case True
    then show ?thesis
      by (simp add: stage_chunks.simps cs.yields_give cs.leads_refl)
  next
    case False
    then have start: "start < unat (node_size n)"
      using less.prems(3) size by (metis drop_eq_Nil not_le)
    have IH: "cs.yields H origin U w1 (stage_chunks E H s n (start + block_len) (drop block_len bytes) w1) (\<lambda>_. True)"
      if "cs.leads H origin U w w1" for w1
      using less.hyps [of "drop block_len bytes" w1 "start + block_len"] less.prems False leads_ok [OF assms(2) that]
      by (simp add: add.commute diff_less_mono2)
    have chunk: "take block_len bytes = block_of origin s n start"
      using less.prems(3) by (simp add: block_of_def)
    show ?thesis
      using False cs.yields_jbind [OF stage_block_yields [OF assms(1,2) less.prems(1) assms(3) less.prems(2) start] IH]
      by (subst stage_chunks.simps) (simp only: chunk if_False)
  qed
qed

lemma stage_content_yields:
  assumes "lawful H origin U E" "sound_names H origin U" "(s, n) \<in> U" "cache_ok H origin U (cw_cache w)"
  shows "cs.yields H origin U w (stage_content E H s n (origin s n) w) (\<lambda>_. True)"
  using stage_chunks_yields [OF assms, of 0 "origin s n"]
  by (simp add: stage_content_def cs.yields_fail cs.leads_refl)

lemma stage_ranges_yields:
  assumes E: "lawful H origin U E" and H: "sound_names H origin U" and U: "(s, n) \<in> U"
    and range: "\<And>m start len b. ce_range E m start len = Inr b \<Longrightarrow> b = take len (drop start (origin s n))"
  shows "cache_ok H origin U (cw_cache w) \<Longrightarrow> block_len dvd start \<or> unat (node_size n) \<le> start \<Longrightarrow>
    cs.yields H origin U w (stage_ranges E H s n start w) (\<lambda>_. True)"
proof (induction "unat (node_size n) - start" arbitrary: start w rule: less_induct)
  case less
  have size: "length (origin s n) = unat (node_size n)"
    using H U by (auto simp: sound_names_def)
  show ?case
  proof (cases "start < unat (node_size n)")
    case False
    then show ?thesis
      using unless_cancelled_yields [OF E] by (subst stage_ranges.simps) simp
  next
    case True
    let ?len = "min (unat (node_size n) - start) block_len"
    have turn: "cs.yields H origin U w1 (case ce_range E (cw_tick w) start ?len of Inl e \<Rightarrow> fail e w1
        | Inr chunk \<Rightarrow> if length chunk \<noteq> ?len then fail (Protocol ''incomplete staged artifact block'') w1
            else jbind (stage_block E H s n start chunk w1) (\<lambda>_. stage_ranges E H s n (start + ?len))) (\<lambda>_. True)"
      if w1: "cache_ok H origin U (cw_cache w1)" for w1
    proof (cases "ce_range E (cw_tick w) start ?len")
      case (Inl e)
      then show ?thesis
        by (simp add: cs.yields_fail cs.leads_refl)
    next
      case (Inr chunk)
      have chunk: "chunk = block_of origin s n start"
        using range [OF Inr] size by (simp add: block_of_def min_def)
      have next_turn: "cs.yields H origin U w2 (stage_ranges E H s n (start + ?len) w2) (\<lambda>_. True)" if "cs.leads H origin U w1 w2" for w2
        using less.hyps [of "start + ?len" w2] less.prems(2) True leads_ok [OF H that w1] by (auto simp: min_def diff_less_mono2)
      show ?thesis
        using Inr cs.yields_jbind [OF stage_block_yields [OF E H w1 U _ True] next_turn] less.prems(2) True
        by (auto simp: chunk cs.yields_fail cs.leads_refl)
    qed
    show ?thesis
      using True cs.yields_jbind [OF unless_cancelled_yields [OF E] turn [OF leads_ok [OF H _ less.prems(1)]]]
      by (subst stage_ranges.simps) (simp only: Let_def not_True_eq_False if_False)
  qed
qed

lemma stage_session_yields:
  assumes "lawful H origin U E" "sound_names H origin U" "(s, n) \<in> U" "cache_ok H origin U (cw_cache w)"
    and "\<And>m start len b. ce_range E m start len = Inr b \<Longrightarrow> b = take len (drop start (origin s n))"
  shows "cs.yields H origin U w (stage_session E H identity s n w) (\<lambda>_. True)"
proof -
  have "cs.yields H origin U w1 (stage_ranges E H s n 0 w1) (\<lambda>_. True)" if "cs.leads H origin U w w1" for w1
    by (rule stage_ranges_yields [OF assms(1-3)]) (simp_all add: assms(5) leads_ok [OF assms(2) that assms(4)])
  then have "cs.yields H origin U w (jbind (unless_cancelled E w) (\<lambda>_. stage_ranges E H s n 0)) (\<lambda>_. True)"
    by (rule cs.yields_jbind [OF unless_cancelled_yields [OF assms(1)]])
  then show ?thesis
    by (simp add: stage_session_def cs.yields_fail cs.leads_refl split: sum.splits)
qed

section \<open>Opening\<close>

lemma reconcile_files_yields: "lawful H origin U E \<Longrightarrow> cs.yields H origin U w (reconcile_files E is_uuid indexed names w) (\<lambda>_. True)"
proof (induction E is_uuid indexed names w rule: reconcile_files.induct)
  case (2 E is_uuid indexed name names w)
  let ?drop = "\<lambda>c. c\<lparr>cc_files := fmdrop name (cc_files c)\<rparr>"
  have "cs.leads H origin U w (updated ?drop (pause E w))"
    by (intro pause_updated_leads Removed 2)
  then show ?case
    using 2 by (auto simp: Let_def intro!: cs.yields_fail pause_leads intro: cs.yields_jbind [OF touch_yields] cs.yields_after)
qed (simp add: cs.yields_give cs.leads_refl)

lemma forget_missing_yields: "lawful H origin U E \<Longrightarrow> cs.yields H origin U w (forget_missing E ks w) (\<lambda>_. True)"
proof (induction E ks w rule: forget_missing.induct)
  case (2 E k ks w)
  let ?forget = "\<lambda>c. c\<lparr>cc_index := block_forget k (cc_index c)\<rparr>"
  have "cs.leads H origin U w (updated ?forget (pause E w))"
    by (intro pause_updated_leads Indexed 2)
  then show ?case
    using 2 by (auto simp: Let_def intro!: cs.yields_fail pause_leads intro: cs.yields_after)
qed (simp add: cs.yields_give cs.leads_refl)

lemma reconcile_yields: "lawful H origin U E \<Longrightarrow> cs.yields H origin U w (reconcile E is_uuid names w) (\<lambda>_. True)"
  by (auto simp: reconcile_def Let_def intro!: cs.yields_jbind [OF reconcile_files_yields] cs.yields_jbind [OF forget_missing_yields] evict_loop_yields)

end
