(* ===== verification/Content_Eviction.thy ===== *)
theory Content_Eviction
  imports Content_Safety
begin

text \<open>
  What eviction takes from the cache, what opening leaves of it, and when a read
  succeeds. Here the cache is left alone between the steps of an operation.
\<close>

definition undisturbed :: "cache_env \<Rightarrow> bool" where
  "undisturbed E \<longleftrightarrow> (\<forall>m c. ce_others E m c = c)"

lemma pause_undisturbed [simp]: "undisturbed E \<Longrightarrow> cw_cache (pause E w) = cw_cache w"
  by (simp add: pause_def undisturbed_def)

lemma updated_cache [simp]: "cw_cache (updated f w) = f (cw_cache w)"
  by (simp add: updated_def)

section \<open>The blocks an eviction takes\<close>

text \<open>The loop without its effects: the keys it removes, oldest first.\<close>

fun evictions :: "(string \<Rightarrow> bool) \<Rightarrow> nat \<Rightarrow> nat \<Rightarrow> (string \<times> nat) list \<Rightarrow> string list" where
  "evictions spared budget held [] = []"
| "evictions spared budget held ((k, sz) # blocks) =
     (if held \<le> budget then []
      else if spared k then evictions spared budget held blocks
      else k # evictions spared budget (held - sz) blocks)"

definition without :: "string list \<Rightarrow> content_cache \<Rightarrow> content_cache" where
  "without ks c = c\<lparr>cc_files := fmdrop_set (set ks) (cc_files c), cc_index := filter (\<lambda>r. br_key r \<notin> set ks) (cc_index c)\<rparr>"

lemma without_Nil [simp]: "without [] c = c"
  by (simp add: without_def fmap_ext)

lemma without_Cons: "without (k # ks) c = without ks (c\<lparr>cc_files := fmdrop k (cc_files c), cc_index := block_forget k (cc_index c)\<rparr>)"
  by (auto simp: without_def block_forget_def intro!: fmap_ext filter_cong)

lemma forget_block_effect:
  assumes "undisturbed E" "forget_block E k w = (Inr x, w')"
  shows "cw_cache w' = (cw_cache w)\<lparr>cc_files := fmdrop k (cc_files (cw_cache w)), cc_index := block_forget k (cc_index (cw_cache w))\<rparr>"
  using assms by (auto simp: forget_block_def Let_def split: if_splits)

lemma evict_loop_effect:
  "undisturbed E \<Longrightarrow> evict_loop E spared budget held blocks w = (Inr x, w') \<Longrightarrow>
     cw_cache w' = without (evictions spared budget held blocks) (cw_cache w)"
proof (induction E spared budget held blocks w rule: evict_loop.induct)
  case (2 E spared budget held k sz blocks w)
  then show ?case
    by (auto simp: jbind_Inr without_Cons split: if_splits dest!: forget_block_effect)
qed auto

lemma evictions_prefix:
  "\<exists>ys zs. blocks = ys @ zs \<and> evictions spared budget held blocks = filter (\<lambda>k. \<not> spared k) (map fst ys)"
proof (induction spared budget held blocks rule: evictions.induct)
  case (2 spared budget held k sz blocks)
  show ?case
  proof (cases "held \<le> budget")
    case True
    then show ?thesis
      by (simp add: exI [of _ "[]"])
  next
    case False
    then obtain ys zs where "blocks = ys @ zs"
        "evictions spared budget (if spared k then held else held - sz) blocks = filter (\<lambda>k. \<not> spared k) (map fst ys)"
      using 2 by (cases "spared k") auto
    then show ?thesis
      using False by (intro exI [of _ "(k, sz) # ys"] exI [of _ zs]) auto
  qed
qed simp

lemma evictions_not_spared: "k \<in> set (evictions spared budget held blocks) \<Longrightarrow> \<not> spared k"
  using evictions_prefix [of blocks spared budget held] by auto

lemma evictions_known: "set (evictions spared budget held blocks) \<subseteq> fst ` set blocks"
  by (induction spared budget held blocks rule: evictions.induct) auto

text \<open>Either what stays fits the budget, or only spared blocks stay. \<open>passed\<close> are the spared blocks
  that were passed over.\<close>

definition stays :: "(string \<Rightarrow> bool) \<Rightarrow> nat \<Rightarrow> nat \<Rightarrow> (string \<times> nat) list \<Rightarrow> (string \<times> nat) list" where
  "stays spared budget held blocks = filter (\<lambda>b. fst b \<notin> set (evictions spared budget held blocks)) blocks"

lemma evictions_fit:
  assumes "distinct (map fst blocks)" "held = passed + sum_list (map snd blocks)"
  shows "passed + sum_list (map snd (stays spared budget held blocks)) \<le> budget
    \<or> (\<forall>b \<in> set (stays spared budget held blocks). spared (fst b))"
  using assms unfolding stays_def
proof (induction blocks arbitrary: held passed)
  case (Cons b blocks)
  obtain k sz where b: "b = (k, sz)"
    by fastforce
  have new: "k \<notin> fst ` set blocks"
    using Cons.prems(1) b by simp
  then have stays: "filter (\<lambda>b. fst b \<notin> set (k # ks)) blocks = filter (\<lambda>b. fst b \<notin> set ks) blocks" for ks
    by (auto intro!: filter_cong)
  consider "held \<le> budget" | "budget < held" "spared k" | "budget < held" "\<not> spared k"
    by linarith
  then show ?case
  proof cases
    case 1
    then show ?thesis
      using Cons.prems(2) b by simp
  next
    case 2
    then have "k \<notin> set (evictions spared budget held blocks)"
      using evictions_not_spared by blast
    then show ?thesis
      using 2 Cons.IH [of held "passed + sz"] Cons.prems b by auto
  next
    case 3
    then show ?thesis
      using Cons.IH [of "held - sz" passed] Cons.prems b stays [of "evictions spared budget (held - sz) blocks"] by simp
  qed
qed simp

lemma evictions_all:
  assumes "\<And>b. b \<in> set blocks \<Longrightarrow> 0 < snd b" "sum_list (map snd blocks) \<le> held" "k \<in> fst ` set blocks" "\<not> spared k"
  shows "k \<in> set (evictions spared 0 held blocks)"
  using assms
proof (induction blocks arbitrary: held)
  case (Cons b blocks)
  obtain k' sz where b: "b = (k', sz)"
    by fastforce
  then have "0 < held"
    using Cons.prems(1) [of b] Cons.prems(2) by simp
  moreover have "k \<in> set (evictions spared 0 h blocks)" if "k \<noteq> k'" "sum_list (map snd blocks) \<le> h" for h
    by (rule Cons.IH [OF Cons.prems(1) that(2) _ Cons.prems(4)]) (use that(1) Cons.prems(3) b in auto)
  ultimately show ?case
    using Cons.prems(2,4) b by (cases "k = k'") auto
qed simp

section \<open>Rows of the index\<close>

lemma fst_oldest_blocks: "map fst (oldest_blocks c) = map br_key (sort_key br_touched (cc_index c))"
  by (simp add: oldest_blocks_def block_oldest_def comp_def)

lemma oldest_blocks_keys: "fst ` set (oldest_blocks c) = br_key ` set (cc_index c)"
  by (simp flip: set_map add: fst_oldest_blocks) (simp add: set_map)

lemma distinct_oldest_blocks: "distinct (map fst (oldest_blocks c)) \<longleftrightarrow> distinct (map br_key (cc_index c))"
proof -
  have "mset (map br_key (sort_key br_touched (cc_index c))) = mset (map br_key (cc_index c))"
    by simp
  then show ?thesis
    unfolding fst_oldest_blocks using mset_eq_imp_distinct_iff by blast
qed

lemma oldest_blocks_without: "oldest_blocks (without ks c) = filter (\<lambda>b. fst b \<notin> set ks) (oldest_blocks c)"
  by (simp add: oldest_blocks_def block_oldest_def without_def filter_map comp_def flip: filter_sort)

lemma evict_effect:
  assumes "undisturbed E" "evict E keep w = (Inr (), w')"
  defines "c \<equiv> cw_cache w"
  defines "poisoned \<equiv> ce_poisoned E (Suc (cw_tick w))"
  shows "cw_cache w' = without (evictions (\<lambda>k. k = keep \<or> k |\<in>| (if poisoned then {||} else cc_protected c))
      (cc_quota c - (if poisoned then cc_quota c else cc_reserved c)) (sum_list (map snd (oldest_blocks c))) (oldest_blocks c)) c"
proof -
  have "cw_tick (pause E w) = Suc (cw_tick w)"
    by (simp add: pause_def)
  then show ?thesis
    using assms(1,2) evict_loop_effect [OF assms(1)] unfolding poisoned_def c_def
    by (auto simp: evict_def Let_def split: if_splits)
qed

section \<open>Opening\<close>

text \<open>What opening does before it evicts: temporary files go, block files without a row get one.\<close>

definition junk :: "(string \<Rightarrow> bool) \<Rightarrow> string \<Rightarrow> bool" where
  "junk is_uuid name \<longleftrightarrow> \<not> valid_key name \<and> temporary_of is_uuid name"

definition swept :: "(string \<Rightarrow> bool) \<Rightarrow> string list \<Rightarrow> content_cache \<Rightarrow> content_cache \<Rightarrow> bool" where
  "swept is_uuid names c c' \<longleftrightarrow>
     c' = c\<lparr>cc_files := fmdrop_set (set (filter (junk is_uuid) names)) (cc_files c), cc_index := cc_index c'\<rparr>
   \<and> br_key ` set (cc_index c') = br_key ` set (cc_index c) \<union> set (filter valid_key names)
   \<and> (distinct (map br_key (cc_index c)) \<longrightarrow> distinct (map br_key (cc_index c')))"

lemma touch_effect:
  "undisturbed E \<Longrightarrow> touch E k sz w = (Inr x, w') \<Longrightarrow>
     \<exists>t. cw_cache w' = (cw_cache w)\<lparr>cc_index := block_touch t k (of_nat sz) (cc_index (cw_cache w))\<rparr>"
  by (auto simp: touch_def Let_def split: if_splits)

lemma fmdrop_set_insert: "fmdrop_set A (fmdrop k m) = fmdrop_set (insert k A) m"
  by (rule fmap_ext) auto

lemma block_touch_set: "br_key ` set (block_touch t k sz rs) = insert k (br_key ` set rs)"
    "distinct (map br_key rs) \<Longrightarrow> distinct (map br_key (block_touch t k sz rs))"
  using keys_block_touch [of t k sz rs] by (auto simp flip: set_map split: if_splits)

lemma reconcile_files_effect:
  "undisturbed E \<Longrightarrow> set indexed \<subseteq> br_key ` set (cc_index (cw_cache w)) \<Longrightarrow>
     reconcile_files E is_uuid indexed names w = (Inr x, w') \<Longrightarrow> swept is_uuid names (cw_cache w) (cw_cache w')"
proof (induction E is_uuid indexed names w rule: reconcile_files.induct)
  case (1 E is_uuid indexed w)
  then show ?case
    by (auto simp: swept_def intro!: fmap_ext)
next
  case (2 E is_uuid indexed name names w)
  consider "valid_key name" "name \<in> set indexed" | "valid_key name" "name \<notin> set indexed"
    | "\<not> valid_key name" "temporary_of is_uuid name" | "\<not> valid_key name" "\<not> temporary_of is_uuid name"
    by blast
  then show ?case
  proof cases
    case 1
    then have "swept is_uuid names (cw_cache w) (cw_cache w')"
      using 2 by simp
    then show ?thesis
      using 1 2(6) by (auto simp: swept_def junk_def)
  next
    case two: 2
    let ?len = "case fmlookup (cc_files (cw_cache w)) name of None \<Rightarrow> 0 | Some f \<Rightarrow> length f"
    obtain u w1 where touched: "touch E name ?len w = (Inr u, w1)" and rest: "reconcile_files E is_uuid indexed names w1 = (Inr x, w')"
      using two 2(7) by (auto simp: jbind_Inr)
    then obtain t sz where w1: "cw_cache w1 = (cw_cache w)\<lparr>cc_index := block_touch t name sz (cc_index (cw_cache w))\<rparr>"
      using touch_effect [OF 2(5)] by blast
    have "swept is_uuid names (cw_cache w1) (cw_cache w')"
      by (rule 2(2) [OF two touched 2(5) _ rest]) (use w1 2(6) block_touch_set(1) in auto)
    then show ?thesis
      using two w1 block_touch_set [where t = t and k = name and sz = sz] by (auto simp: swept_def junk_def)
  next
    case 3
    then have "swept is_uuid names (cw_cache (updated (\<lambda>c. c\<lparr>cc_files := fmdrop name (cc_files c)\<rparr>) (pause E w))) (cw_cache w')"
      using 2(3) [OF 3 refl refl] 2(5-7) by (auto simp: Let_def split: if_splits)
    then show ?thesis
      using 3 2(5) by (auto simp: swept_def junk_def fmdrop_set_insert)
  next
    case 4
    then have "swept is_uuid names (cw_cache w) (cw_cache w')"
      using 2 by simp
    then show ?thesis
      using 4 by (auto simp: swept_def junk_def)
  qed
qed

lemma forget_missing_effect:
  "undisturbed E \<Longrightarrow> forget_missing E ks w = (Inr x, w') \<Longrightarrow>
     cw_cache w' = (cw_cache w)\<lparr>cc_index := filter (\<lambda>r. br_key r \<notin> set ks) (cc_index (cw_cache w))\<rparr>"
proof (induction E ks w rule: forget_missing.induct)
  case (2 E k ks w)
  have "cw_cache w' = (cw_cache w)\<lparr>cc_index := filter (\<lambda>r. br_key r \<notin> set ks) (block_forget k (cc_index (cw_cache w)))\<rparr>"
    using 2(1) [OF refl refl] 2(2,3) by (simp add: Let_def split: if_splits)
  moreover have "filter (\<lambda>r. br_key r \<notin> set ks) (block_forget k rs) = filter (\<lambda>r. br_key r \<notin> set (k # ks)) rs" for rs
    by (auto simp: block_forget_def intro!: filter_cong)
  ultimately show ?case
    by simp
qed simp

lemma reconcile_effect:
  assumes "undisturbed E" "reconcile E is_uuid names w = (Inr (), w')" "distinct (map br_key (cc_index (cw_cache w)))"
  defines "c \<equiv> cw_cache w"
  obtains c1 where "c1 = c\<lparr>cc_files := fmdrop_set (set (filter (junk is_uuid) names)) (cc_files c), cc_index := cc_index c1\<rparr>"
    "br_key ` set (cc_index c1) = set (filter valid_key names)" "distinct (map br_key (cc_index c1))"
    "cw_cache w' = without (evictions (\<lambda>k. k |\<in>| cc_protected c) (cc_quota c - cc_reserved c)
       (sum_list (map snd (oldest_blocks c1))) (oldest_blocks c1)) c1"
proof -
  let ?indexed = "map fst (oldest_blocks c)"
  let ?missing = "filter (\<lambda>k. k \<notin> set (filter valid_key names)) ?indexed"
  obtain w1 w2 where w1: "reconcile_files E is_uuid ?indexed names w = (Inr (), w1)"
      and w2: "forget_missing E ?missing w1 = (Inr (), w2)"
      and w': "evict_loop E (\<lambda>k. k |\<in>| cc_protected (cw_cache w2)) (cc_quota (cw_cache w2) - cc_reserved (cw_cache w2))
        (sum_list (map snd (oldest_blocks (cw_cache w2)))) (oldest_blocks (cw_cache w2)) w2 = (Inr (), w')"
    using assms(2) by (auto simp: reconcile_def Let_def jbind_Inr c_def)
  have keys: "set ?indexed = br_key ` set (cc_index c)"
    using oldest_blocks_keys [of c] by simp
  have swept: "swept is_uuid names c (cw_cache w1)"
    using reconcile_files_effect [OF assms(1) _ w1] keys by (simp add: c_def)
  then obtain rows where c1: "cw_cache w1 = c\<lparr>cc_files := fmdrop_set (set (filter (junk is_uuid) names)) (cc_files c), cc_index := rows\<rparr>"
    unfolding swept_def by blast
  have c2: "cw_cache w2 = (cw_cache w1)\<lparr>cc_index := filter (\<lambda>r. br_key r \<notin> set ?missing) (cc_index (cw_cache w1))\<rparr>"
    by (rule forget_missing_effect [OF assms(1) w2])
  have same: "cc_protected (cw_cache w2) = cc_protected c" "cc_quota (cw_cache w2) = cc_quota c" "cc_reserved (cw_cache w2) = cc_reserved c"
    by (simp_all add: c2 c1)
  show thesis
  proof (rule that)
    show "cw_cache w2 = c\<lparr>cc_files := fmdrop_set (set (filter (junk is_uuid) names)) (cc_files c), cc_index := cc_index (cw_cache w2)\<rparr>"
      by (simp add: c2 c1)
    show "br_key ` set (cc_index (cw_cache w2)) = set (filter valid_key names)"
    proof -
      have "br_key ` set (cc_index (cw_cache w2)) = br_key ` set (cc_index (cw_cache w1)) - set ?missing"
        by (auto simp: c2)
      also have "\<dots> = set (filter valid_key names)"
        using swept keys unfolding swept_def set_filter by blast
      finally show ?thesis .
    qed
    show "distinct (map br_key (cc_index (cw_cache w2)))"
      using swept c2 assms(3) by (simp add: swept_def c_def distinct_map_filter)
    show "cw_cache w' = without (evictions (\<lambda>k. k |\<in>| cc_protected c) (cc_quota c - cc_reserved c)
       (sum_list (map snd (oldest_blocks (cw_cache w2)))) (oldest_blocks (cw_cache w2))) (cw_cache w2)"
      using evict_loop_effect [OF assms(1) w'] by (simp add: same)
  qed
qed

end
