(* ===== verification/Content_Progress.thy ===== *)
theory Content_Progress
  imports Content_Eviction
begin

text \<open>
  When reads succeed: nothing fails around the cache, and every block is either on disk or can be
  fetched. Then what was staged and is protected can be read without the provider.
\<close>

definition healthy :: "cache_env \<Rightarrow> bool" where
  "healthy E \<longleftrightarrow> undisturbed E \<and> (\<forall>m. \<not> ce_cancelled E m \<and> \<not> ce_poisoned E m \<and> \<not> ce_index_fails E m
     \<and> \<not> ce_unreadable E m \<and> \<not> ce_write_fails E m \<and> \<not> ce_remove_fails E m)"

lemma healthy_undisturbed [simp]: "healthy E \<Longrightarrow> undisturbed E"
  by (simp add: healthy_def)

text \<open>What a successful step leaves alone.\<close>

definition calm :: "cache_world \<Rightarrow> cache_world \<Rightarrow> bool" where
  "calm w w' \<longleftrightarrow> cc_protected (cw_cache w') = cc_protected (cw_cache w)
     \<and> (\<forall>k. fmlookup (cc_failures (cw_cache w)) k = None \<longrightarrow> fmlookup (cc_failures (cw_cache w')) k = None)"

definition reading :: "cache_world \<Rightarrow> cache_world \<Rightarrow> bool" where
  "reading w w' \<longleftrightarrow> calm w w' \<and> cc_files (cw_cache w') = cc_files (cw_cache w)"

lemma reading_trans: "reading w w1 \<Longrightarrow> reading w1 w' \<Longrightarrow> reading w w'"
  by (simp add: reading_def calm_def)

lemma calm_trans: "calm w w1 \<Longrightarrow> calm w1 w' \<Longrightarrow> calm w w'"
  by (simp add: calm_def)

text \<open>A program succeeds: it returns, with a frame and a result.\<close>

definition succeeds :: "(cache_world \<Rightarrow> cache_world \<Rightarrow> bool) \<Rightarrow> cache_world \<Rightarrow> 'a cached \<Rightarrow> ('a \<Rightarrow> cache_world \<Rightarrow> bool) \<Rightarrow> bool" where
  "succeeds frame w m good \<longleftrightarrow> (\<exists>x w'. m = (Inr x, w') \<and> frame w w' \<and> good x w')"

lemma succeeds_give: "frame w w' \<Longrightarrow> good x w' \<Longrightarrow> succeeds frame w (give x w') good"
  by (simp add: succeeds_def give_def)

lemma succeeds_jbind:
  assumes "succeeds frame w m good" "\<And>x y z. frame x y \<Longrightarrow> frame y z \<Longrightarrow> frame x z"
    and "\<And>x w1. frame w w1 \<Longrightarrow> good x w1 \<Longrightarrow> succeeds frame w1 (f x w1) great"
  shows "succeeds frame w (jbind m f) great"
  using assms unfolding succeeds_def by (auto simp: jbind_Inr) metis

lemma reading_jbind:
  assumes "succeeds reading w m good" "\<And>x w1. reading w w1 \<Longrightarrow> good x w1 \<Longrightarrow> succeeds reading w1 (f x w1) great"
  shows "succeeds reading w (jbind m f) great"
  by (rule succeeds_jbind [OF assms(1) _ assms(2)]) (auto intro: reading_trans)

lemma calm_jbind:
  assumes "succeeds calm w m good" "\<And>x w1. calm w w1 \<Longrightarrow> good x w1 \<Longrightarrow> succeeds calm w1 (f x w1) great"
  shows "succeeds calm w (jbind m f) great"
  by (rule succeeds_jbind [OF assms(1) _ assms(2)]) (auto intro: calm_trans)

lemma succeeds_after:
  "calm w w1 \<Longrightarrow> succeeds calm w1 m good \<Longrightarrow> succeeds calm w m good"
  "reading w w1 \<Longrightarrow> succeeds reading w1 m good \<Longrightarrow> succeeds reading w m good"
  unfolding succeeds_def using calm_trans reading_trans by blast+

lemma frame_refl [simp]: "calm w w" "reading w w"
  by (simp_all add: reading_def calm_def)

lemma succeeds_calm: "succeeds reading w m good \<Longrightarrow> succeeds calm w m good"
  by (auto simp: succeeds_def reading_def)

section \<open>Steps that succeed\<close>

lemma healthy_steps:
  assumes "healthy E"
  shows "succeeds reading w (locked E w) (\<lambda>_ w'. cw_cache w' = cw_cache w)"
    "succeeds reading w (unless_cancelled E w) (\<lambda>_ w'. cw_cache w' = cw_cache w)"
    "succeeds reading w (touch E k sz w) (\<lambda>_ _. True)"
    "succeeds calm w (write_block E H k b w) (\<lambda>_ w'. cc_files (cw_cache w') = fmupd k (ch_digest H b @ b) (cc_files (cw_cache w)))"
    "succeeds calm w (forget_block E k w) (\<lambda>_ _. True)"
  using assms
  by (simp_all add: healthy_def succeeds_def locked_def unless_cancelled_def touch_def write_block_def forget_block_def Let_def give_def reading_def calm_def)

lemma remember_succeeds: "healthy E \<Longrightarrow> succeeds reading w (remember E k b w) (\<lambda>_ _. True)"
  unfolding remember_def
  by (rule reading_jbind [OF healthy_steps(1)]) (auto intro!: succeeds_give simp: reading_def calm_def)

lemma recalled_succeeds: "healthy E \<Longrightarrow> succeeds reading w (recalled E k w) (\<lambda>_ _. True)"
  unfolding recalled_def
  by (rule reading_jbind [OF healthy_steps(1)]) (auto intro!: succeeds_give simp: reading_def calm_def split: option.splits)

lemma recent_failure_succeeds:
  assumes "healthy E" "fmlookup (cc_failures (cw_cache w)) k = None"
  shows "succeeds reading w (recent_failure E k w) (\<lambda>_ _. True)"
  unfolding recent_failure_def
  by (rule reading_jbind [OF healthy_steps(1) [OF assms(1)]])
    (use assms(2) in \<open>auto intro!: succeeds_give simp: Let_def reading_def calm_def live_failures_def split: option.splits\<close>)

lemma evict_loop_succeeds: "healthy E \<Longrightarrow> succeeds calm w (evict_loop E spared budget held blocks w) (\<lambda>_ _. True)"
proof (induction blocks arbitrary: held w)
  case (Cons b blocks)
  obtain k sz where b: "b = (k, sz)"
    by fastforce
  then show ?case
    using Cons by (auto intro!: succeeds_give calm_jbind [OF healthy_steps(5)])
qed (simp add: succeeds_give)

lemma evict_succeeds:
  assumes E: "healthy E"
  shows "succeeds calm w (evict E keep w) (\<lambda>_ _. True)"
proof -
  obtain spared budget held blocks where "evict E keep w = evict_loop E spared budget held blocks (pause E (pause E w))"
    using E by (simp add: evict_def Let_def healthy_def)
  moreover have "calm w (pause E (pause E w))"
    using E by (simp add: calm_def)
  ultimately show ?thesis
    using succeeds_after(1) [OF _ evict_loop_succeeds [OF E]] by simp
qed

lemma evict_keeps:
  assumes "healthy E" "evict E keep w = (Inr (), w')" "k = keep \<or> k |\<in>| cc_protected (cw_cache w)"
  shows "fmlookup (cc_files (cw_cache w')) k = fmlookup (cc_files (cw_cache w)) k"
proof -
  have "\<not> ce_poisoned E (Suc (cw_tick w))"
    using assms(1) by (simp add: healthy_def)
  then show ?thesis
    using evict_effect [OF healthy_undisturbed [OF assms(1)] assms(2)] assms(3) evictions_not_spared by (fastforce simp: without_def)
qed

text \<open>A published block is on disk afterwards, and so are the protected blocks that were there.\<close>

lemma publish_block_succeeds:
  assumes E: "healthy E"
  shows "succeeds calm w (publish_block E H k b w) (\<lambda>_ w'. \<forall>k'. k' = k \<or> k' |\<in>| cc_protected (cw_cache w) \<longrightarrow>
    fmlookup (cc_files (cw_cache w')) k' = fmlookup (fmupd k (ch_digest H b @ b) (cc_files (cw_cache w))) k')"
proof -
  obtain w1 where w1: "write_block E H k b (pause E w) = (Inr (), w1)" "calm w w1"
      "cc_files (cw_cache w1) = fmupd k (ch_digest H b @ b) (cc_files (cw_cache w))"
    using healthy_steps(4) [OF E, of "pause E w" H k b] E by (auto simp: succeeds_def calm_def)
  obtain w2 where w2: "touch E k (length b + 32) w1 = (Inr (), w2)" "reading w1 w2"
    using healthy_steps(3) [OF E, of w1 k "length b + 32"] by (auto simp: succeeds_def)
  obtain w3 where w3: "evict E k w2 = (Inr (), w3)" "calm w2 w3"
    using evict_succeeds [OF E, of w2 k] by (auto simp: succeeds_def)
  obtain w4 where w4: "remember E k b w3 = (Inr (), w4)" "reading w3 w4"
    using remember_succeeds [OF E, of w3 k b] by (auto simp: succeeds_def)
  have "publish_block E H k b w = (Inr (), w4)"
    by (simp add: publish_block_def w1 w2 w3 w4)
  moreover have "calm w w4"
    using w1(2) w2(2) w3(2) w4(2) calm_trans by (meson reading_def)
  moreover have "fmlookup (cc_files (cw_cache w4)) k' = fmlookup (fmupd k (ch_digest H b @ b) (cc_files (cw_cache w))) k'"
    if "k' = k \<or> k' |\<in>| cc_protected (cw_cache w)" for k'
    using that evict_keeps [OF E w3(1), of k'] w1 w2(2) w4(2) by (simp add: reading_def calm_def)
  ultimately show ?thesis
    unfolding succeeds_def by blast
qed

section \<open>Blocks and reads that succeed\<close>

text \<open>A block can be had when its file verifies, or the provider returns a whole block.\<close>

definition on_disk :: "cache_host \<Rightarrow> scope \<Rightarrow> node \<Rightarrow> nat \<Rightarrow> content_cache \<Rightarrow> bool" where
  "on_disk H s n start c \<longleftrightarrow> (\<exists>k f b. block_key H s n start = Some k \<and> fmlookup (cc_files c) k = Some f
     \<and> verified H f (min (unat (node_size n) - start) block_len) = Some b)"

definition fetchable :: "cache_env \<Rightarrow> scope \<Rightarrow> node \<Rightarrow> nat \<Rightarrow> bool" where
  "fetchable E s n start \<longleftrightarrow> (\<forall>m. \<exists>b. ce_fetch E m s n start block_len = Inr b \<and> length b = min (unat (node_size n) - start) block_len)"

definition no_failures :: "cache_host \<Rightarrow> scope \<Rightarrow> node \<Rightarrow> content_cache \<Rightarrow> bool" where
  "no_failures H s n c \<longleftrightarrow> (\<forall>start k. block_key H s n start = Some k \<longrightarrow> fmlookup (cc_failures c) k = None)"

lemma no_failures_calm: "calm w w' \<Longrightarrow> no_failures H s n (cw_cache w) \<Longrightarrow> no_failures H s n (cw_cache w')"
  by (simp add: no_failures_def calm_def)

lemma block_loaded_succeeds:
  assumes E: "healthy E" and k: "block_key H s n start = Some k"
  shows "on_disk H s n start (cw_cache w) \<Longrightarrow> succeeds reading w (block_loaded E H s n k start w) (\<lambda>_ _. True)"
    "fetchable E s n start \<Longrightarrow> succeeds calm w (block_loaded E H s n k start w) (\<lambda>_ _. True)"
proof -
  let ?len = "min (unat (node_size n) - start) block_len"
  have pause: "reading w (pause E w)"
    using E by (simp add: reading_def calm_def)
  have hit: "succeeds reading w (jbind (remember E k b (pause E w)) (\<lambda>_ w. jbind (touch E k (?len + 32) w) (\<lambda>_. give b))) (\<lambda>_ _. True)" for b
  proof -
    have "succeeds reading (pause E w) (jbind (remember E k b (pause E w)) (\<lambda>_ w. jbind (touch E k (?len + 32) w) (\<lambda>_. give b))) (\<lambda>_ _. True)"
      by (intro reading_jbind [OF remember_succeeds [OF E]] reading_jbind [OF healthy_steps(3) [OF E]] succeeds_give) simp_all
    then show ?thesis
      by (rule succeeds_after(2) [OF pause])
  qed
  let ?r = "case fmlookup (cc_files (cw_cache w)) k of None \<Rightarrow> None | Some f \<Rightarrow> verified H f ?len"
  have r: "read_verified E H k ?len w = (?r, pause E w)"
    using E by (simp add: read_verified_def healthy_def Let_def)
  show "succeeds reading w (block_loaded E H s n k start w) (\<lambda>_ _. True)" if "on_disk H s n start (cw_cache w)"
    using that k r hit by (auto simp: on_disk_def block_loaded_def Let_def)
  show "succeeds calm w (block_loaded E H s n k start w) (\<lambda>_ _. True)" if fetch: "fetchable E s n start"
  proof (cases ?r)
    case (Some b)
    then show ?thesis
      using r succeeds_calm [OF hit] by (simp add: block_loaded_def Let_def)
  next
    case None
    obtain b where b: "ce_fetch E (Suc (cw_tick w)) s n start block_len = Inr b" "length b = ?len"
      using fetch unfolding fetchable_def by blast
    have tick: "cw_tick (pause E w) = Suc (cw_tick w)"
      by (simp add: pause_def)
    have "calm w (pause E (pause E w))"
      using E by (simp add: calm_def)
    then have "succeeds calm w (jbind (publish_block E H k b (pause E (pause E w))) (\<lambda>_. give b)) (\<lambda>_ _. True)"
      using publish_block_succeeds [OF E, of "pause E (pause E w)" H k b] by (auto simp: succeeds_def intro: calm_trans)
    moreover have "block_loaded E H s n k start w = jbind (publish_block E H k b (pause E (pause E w))) (\<lambda>_. give b)"
      using None r b tick E by (simp add: block_loaded_def fetch_block_def Let_def healthy_def)
    ultimately show ?thesis
      by simp
  qed
qed

text \<open>With the provider a read may change files and stays calm; without it, it only reads.\<close>

definition obtainable :: "(cache_world \<Rightarrow> cache_world \<Rightarrow> bool) \<Rightarrow> cache_env \<Rightarrow> cache_host \<Rightarrow> scope \<Rightarrow> node \<Rightarrow> cache_world \<Rightarrow> bool" where
  "obtainable frame E H s n w \<longleftrightarrow> content_revision n \<noteq> None \<and> no_failures H s n (cw_cache w) \<and>
     (frame = calm \<and> (\<forall>start < unat (node_size n). block_len dvd start \<longrightarrow> fetchable E s n start)
      \<or> frame = reading \<and> (\<forall>start < unat (node_size n). block_len dvd start \<longrightarrow> on_disk H s n start (cw_cache w)))"

lemma obtainable_frame: "obtainable frame E H s n w \<Longrightarrow> frame w w' \<Longrightarrow> obtainable frame E H s n w'"
  by (auto simp: obtainable_def reading_def on_disk_def intro: no_failures_calm)

lemma obtainable_trans: "obtainable frame E H s n w \<Longrightarrow> frame x y \<Longrightarrow> frame y z \<Longrightarrow> frame x z"
  by (auto simp: obtainable_def intro: calm_trans reading_trans)

lemma obtainable_reading: "obtainable frame E H s n w \<Longrightarrow> succeeds reading x m good \<Longrightarrow> succeeds frame x m good"
  by (auto simp: obtainable_def intro: succeeds_calm)

lemma obtainable_give: "obtainable frame E H s n w \<Longrightarrow> succeeds frame w (give x w) (\<lambda>_ _. True)"
  by (rule obtainable_reading) (simp_all add: succeeds_give)

lemma obtainable_jbind:
  assumes "obtainable frame E H s n w" "succeeds reading w m good"
    and "\<And>x w1. m = (Inr x, w1) \<Longrightarrow> obtainable frame E H s n w1 \<Longrightarrow> succeeds frame w1 (f x w1) great"
  shows "succeeds frame w (jbind m f) great"
proof -
  obtain x w1 where m: "m = (Inr x, w1)" and f: "frame w w1"
    using obtainable_reading [OF assms(1,2)] by (auto simp: succeeds_def)
  obtain y w2 where "f x w1 = (Inr y, w2)" "frame w1 w2" "great y w2"
    using assms(3) [OF m obtainable_frame [OF assms(1) f]] by (auto simp: succeeds_def)
  then show ?thesis
    using m f obtainable_trans [OF assms(1)] by (auto simp: succeeds_def)
qed

lemma recalled_or_succeeds:
  assumes "healthy E" "obtainable frame E H s n w" "\<And>w1. obtainable frame E H s n w1 \<Longrightarrow> succeeds frame w1 (load w1) (\<lambda>_ _. True)"
  shows "succeeds frame w (recalled_or E k load w) (\<lambda>_ _. True)"
  unfolding recalled_or_def
proof (rule obtainable_jbind [OF assms(2) recalled_succeeds [OF assms(1)]])
  fix hit w1
  assume w1: "obtainable frame E H s n w1"
  show "succeeds frame w1 ((case hit of None \<Rightarrow> load | Some b \<Rightarrow> give b) w1) (\<lambda>_ _. True)"
    using assms(3) w1 by (auto intro: obtainable_give split: option.splits)
qed

lemma block_succeeds:
  assumes E: "healthy E" and w: "obtainable frame E H s n w" and start: "start < unat (node_size n)" "block_len dvd start"
  shows "succeeds frame w (block E H s n start w) (\<lambda>_ _. True)"
proof -
  obtain k where k: "block_key H s n start = Some k"
    using w by (auto simp: obtainable_def block_key_def)
  have load: "succeeds frame w1 (jbind (recent_failure E k w1) (\<lambda>_ w. jbind (unless_cancelled E w) (\<lambda>_. block_loaded E H s n k start))) (\<lambda>_ _. True)"
    if w1: "obtainable frame E H s n w1" for w1
  proof (rule obtainable_jbind [OF w1 recent_failure_succeeds [OF E]])
    show "fmlookup (cc_failures (cw_cache w1)) k = None"
      using w1 k by (auto simp: obtainable_def no_failures_def)
    fix w2
    assume w2: "obtainable frame E H s n w2"
    have "succeeds frame w3 (block_loaded E H s n k start w3) (\<lambda>_ _. True)" if "obtainable frame E H s n w3" for w3
      using that start block_loaded_succeeds [OF E k] by (auto simp: obtainable_def)
    then show "succeeds frame w2 (jbind (unless_cancelled E w2) (\<lambda>_. block_loaded E H s n k start)) (\<lambda>_ _. True)"
      by (rule obtainable_jbind [OF w2 healthy_steps(2) [OF E]])
  qed
  have "succeeds frame w1 (jbind (locked E w1) (\<lambda>_ w. jbind (unless_cancelled E w) (\<lambda>_. recalled_or E k (\<lambda>w.
      jbind (recent_failure E k w) (\<lambda>_ w. jbind (unless_cancelled E w) (\<lambda>_. block_loaded E H s n k start)))))) (\<lambda>_ _. True)"
    if w1: "obtainable frame E H s n w1" for w1
    by (rule obtainable_jbind [OF w1 healthy_steps(1) [OF E]], rule obtainable_jbind [OF _ healthy_steps(2) [OF E]], assumption)
      (rule recalled_or_succeeds [OF E], assumption, rule load)
  from recalled_or_succeeds [OF E w this] show ?thesis
    using k w by (auto simp: block_def obtainable_def)
qed

lemma healthy_lawful:
  assumes "healthy E" "\<And>m s n start len b. (s, n) \<in> U \<Longrightarrow> ce_fetch E m s n start len = Inr b \<Longrightarrow> b = take len (drop start (origin s n))"
  shows "lawful H origin U E"
  using assms by (simp add: lawful_def healthy_def undisturbed_def)

lemma read_loop_succeeds:
  assumes E: "healthy E" "lawful H origin U E" and H: "sound_names H origin U" and U: "(s, n) \<in> U" and until: "until \<le> unat (node_size n)"
  shows "cache_ok H origin U (cw_cache w) \<Longrightarrow> obtainable frame E H s n w \<Longrightarrow> succeeds frame w (read_loop E H s n until position out w) (\<lambda>_ _. True)"
proof (induction "until - position" arbitrary: position out w rule: less_induct)
  case less
  let ?start = "position div block_len * block_len"
  show ?case
  proof (cases "position < until")
    case False
    then show ?thesis
      using obtainable_give [OF less.prems(2)] by (subst read_loop.simps) simp
  next
    case True
    have start: "?start < unat (node_size n)" "length (origin s n) = unat (node_size n)"
      using le_less_trans [OF block_start(2) True] until H U by (auto simp: sound_names_def)
    obtain w1 where w1: "unless_cancelled E w = (Inr (), w1)" "obtainable frame E H s n w1" "cache_ok H origin U (cw_cache w1)" "frame w w1"
      using healthy_steps(2) [OF E(1), of w] less.prems obtainable_frame [OF less.prems(2)] obtainable_reading [OF less.prems(2) healthy_steps(2) [OF E(1)], of w]
      by (auto simp: succeeds_def)
    obtain b w2 where w2: "block E H s n ?start w1 = (Inr b, w2)" "frame w1 w2"
      using block_succeeds [OF E(1) w1(2) start(1) block_start(1)] by (auto simp: succeeds_def)
    have y: "cs.leads H origin U w1 w2" "b = block_of origin s n ?start"
      using block_yields [OF E(2) H w1(3) U block_start(1) start(1)] w2(1) by (auto simp: cs.yields_def)
    have amount: "0 < min (until - position) (length b - (position - ?start))"
      using True until start block_start(3) [of position] block_start(2) [of position] by (simp add: y(2) block_of_def)
    define turn where "turn = read_loop E H s n until (position + min (until - position) (length b - (position - ?start)))
        (out @ take (min (until - position) (length b - (position - ?start))) (drop (position - ?start) b)) w2"
    have "succeeds frame w2 turn (\<lambda>_ _. True)"
      unfolding turn_def using less.hyps [OF _ leads_ok [OF H y(1) w1(3)] obtainable_frame [OF w1(2) w2(2)]] amount True by simp
    then obtain x w3 where w3: "turn = (Inr x, w3)" "frame w2 w3"
      unfolding succeeds_def by blast
    have "read_loop E H s n until position out w = turn"
      using True less_not_refl2 [OF amount]
      by (subst read_loop.simps) (simp only: w1(1) w2(1) Let_def turn_def jbind_simps not_True_eq_False if_False)
    then show ?thesis
      using w3 obtainable_trans [OF less.prems(2)] w1(4) w2(2) unfolding succeeds_def by blast
  qed
qed

lemma read_content_succeeds:
  assumes "healthy E" "lawful H origin U E" "sound_names H origin U" "(s, n) \<in> U" "cache_ok H origin U (cw_cache w)" "obtainable frame E H s n w"
    and "len \<le> 8 * 1024 * 1024"
  shows "succeeds frame w (read_content E H s n off len w) (\<lambda>b _. b = take len (drop off (origin s n)))"
proof -
  have "succeeds frame w (read_content E H s n off len w) (\<lambda>_ _. True)"
    using assms(7) read_loop_succeeds [OF assms(1-4) _ assms(5,6), of "off + min (unat (node_size n) - off) len" off "[]"]
      obtainable_give [OF assms(6)]
    by (auto simp: read_content_def)
  then show ?thesis
    using read_content_yields [OF assms(2-5), of off len] by (auto simp: succeeds_def cs.yields_def)
qed

section \<open>Staged content\<close>

definition on_disk_all :: "cache_host \<Rightarrow> scope \<Rightarrow> node \<Rightarrow> nat \<Rightarrow> content_cache \<Rightarrow> bool" where
  "on_disk_all H s n until c \<longleftrightarrow> (\<forall>start < min until (unat (node_size n)). block_len dvd start \<longrightarrow> on_disk H s n start c)"

definition protects :: "cache_host \<Rightarrow> scope \<Rightarrow> node \<Rightarrow> content_cache \<Rightarrow> bool" where
  "protects H s n c \<longleftrightarrow> (\<forall>start k. start < unat (node_size n) \<longrightarrow> block_key H s n start = Some k \<longrightarrow> k |\<in>| cc_protected c)"

lemma on_disk_written:
  assumes "sound_names H origin U" "(s, n) \<in> U" "block_len dvd start" "start < unat (node_size n)" "block_key H s n start = Some k"
    and "fmlookup (cc_files c) k = Some (ch_digest H (block_of origin s n start) @ block_of origin s n start)"
  shows "on_disk H s n start c"
proof -
  have "length (block_of origin s n start) = min (unat (node_size n) - start) block_len"
    using assms(1,2) by (auto simp: sound_names_def block_of_def)
  then show ?thesis
    using assms by (auto simp: on_disk_def sound_names_def verified_written)
qed

text \<open>Staging a block of protected content leaves it on disk, with the protected blocks before it.\<close>

lemma stage_block_succeeds:
  assumes E: "healthy E" and H: "sound_names H origin U" and U: "(s, n) \<in> U" "block_len dvd start" "start < unat (node_size n)"
    and k: "content_revision n \<noteq> None" "protects H s n (cw_cache w)"
  shows "succeeds calm w (stage_block E H s n start (block_of origin s n start) w) (\<lambda>_ w'.
    \<forall>start'. block_len dvd start' \<longrightarrow> start' < unat (node_size n) \<longrightarrow> start' = start \<or> on_disk H s n start' (cw_cache w)
      \<longrightarrow> on_disk H s n start' (cw_cache w'))"
proof -
  obtain k where k: "block_key H s n start = Some k" "k |\<in>| cc_protected (cw_cache w)"
    using k U(3) by (auto simp: block_key_def protects_def)
  let ?b = "block_of origin s n start"
  have len: "length ?b = min (unat (node_size n) - start) block_len"
    using H U(1) by (auto simp: sound_names_def block_of_def)
  obtain w1 where w1: "unless_cancelled E w = (Inr (), w1)" "cw_cache w1 = cw_cache w"
    using healthy_steps(2) [OF E, of w] by (auto simp: succeeds_def)
  obtain w2 where w2: "locked E w1 = (Inr (), w2)" "cw_cache w2 = cw_cache w"
    using healthy_steps(1) [OF E, of w1] w1(2) by (auto simp: succeeds_def)
  define w3 where "w3 = pause E (pause E w2)"
  have w3: "cw_cache w3 = cw_cache w"
    using E w2(2) by (simp add: w3_def)
  let ?r = "case fmlookup (cc_files (cw_cache w)) k of None \<Rightarrow> None | Some f \<Rightarrow> verified H f (length ?b)"
  have eq: "stage_block E H s n start ?b w = (case ?r of
      Some existing \<Rightarrow> jbind (touch E k (length existing + block_digest) w3) (\<lambda>_. remember E k existing)
    | None \<Rightarrow> publish_block E H k ?b w3)"
    using E w1 w2 k(1) by (auto simp: stage_block_def read_verified_def healthy_def Let_def w3_def split: option.splits)
  show ?thesis
  proof (cases ?r)
    case (Some existing)
    have "succeeds reading w3 (jbind (touch E k (length existing + block_digest) w3) (\<lambda>_. remember E k existing)) (\<lambda>_ _. True)"
      by (rule reading_jbind [OF healthy_steps(3) [OF E]]) (rule remember_succeeds [OF E])
    then obtain x w' where "stage_block E H s n start ?b w = (Inr x, w')" "reading w3 w'"
      using eq Some by (auto simp: succeeds_def)
    moreover have "on_disk H s n start (cw_cache w)"
      using Some k(1) len by (auto simp: on_disk_def split: option.splits)
    ultimately show ?thesis
      using w3 by (auto simp: succeeds_def reading_def calm_def on_disk_def)
  next
    case None
    obtain x w' where w': "stage_block E H s n start ?b w = (Inr x, w')" "calm w3 w'"
        "\<And>k'. k' = k \<or> k' |\<in>| cc_protected (cw_cache w) \<Longrightarrow>
           fmlookup (cc_files (cw_cache w')) k' = fmlookup (fmupd k (ch_digest H ?b @ ?b) (cc_files (cw_cache w))) k'"
    proof -
      have "stage_block E H s n start ?b w = publish_block E H k ?b w3"
        using eq None by simp
      then show ?thesis
        using publish_block_succeeds [OF E, of w3 H k ?b] that unfolding succeeds_def w3 by metis
    qed
    have "on_disk H s n start' (cw_cache w')" if start': "block_len dvd start'" "start' < unat (node_size n)" "start' = start \<or> on_disk H s n start' (cw_cache w)" for start'
    proof -
      obtain k' where k': "block_key H s n start' = Some k'"
        using k(1) by (auto simp: block_key_def)
      show ?thesis
      proof (cases "k' = k")
        case True
        then have "block_of origin s n start' = ?b"
          using wanted_block_eq [OF H, of s n start k "block_of origin s n start'"] wanted_block_named [of H U s n start' k origin] k' k(1) U start'
          by (simp add: wanted_block_def)
        then show ?thesis
          using on_disk_written [OF H U(1) start'(1,2) k'] True w'(3) [of k] by simp
      next
        case False
        then have "fmlookup (cc_files (cw_cache w')) k' = fmlookup (cc_files (cw_cache w)) k'" "start' \<noteq> start"
          using w'(3) [of k'] k' k(1) assms(7) start'(2) by (auto simp: protects_def)
        then show ?thesis
          using start'(3) k' by (auto simp: on_disk_def)
      qed
    qed
    then show ?thesis
      using w'(1,2) w3 by (auto simp: succeeds_def calm_def)
  qed
qed

lemma stage_chunks_succeeds:
  assumes E: "healthy E" and H: "sound_names H origin U" and U: "(s, n) \<in> U" and rev: "content_revision n \<noteq> None"
  shows "protects H s n (cw_cache w) \<Longrightarrow> block_len dvd start \<Longrightarrow> bytes = drop start (origin s n) \<Longrightarrow> on_disk_all H s n start (cw_cache w)
    \<Longrightarrow> succeeds calm w (stage_chunks E H s n start bytes w) (\<lambda>_ w'. on_disk_all H s n (unat (node_size n)) (cw_cache w'))"
proof (induction "length bytes" arbitrary: bytes start w rule: less_induct)
  case less
  have size: "length (origin s n) = unat (node_size n)"
    using H U by (auto simp: sound_names_def)
  show ?case
  proof (cases "bytes = []")
    case True
    then have "unat (node_size n) \<le> start"
      using less.prems(3) size by simp
    then show ?thesis
      using True less.prems(4) by (subst stage_chunks.simps) (auto intro!: succeeds_give simp: on_disk_all_def)
  next
    case False
    then have start: "start < unat (node_size n)"
      using less.prems(3) size by (metis drop_eq_Nil not_le)
    have chunk: "take block_len bytes = block_of origin s n start"
      using less.prems(3) by (simp add: block_of_def)
    have "succeeds calm w (jbind (stage_block E H s n start (block_of origin s n start) w) (\<lambda>_. stage_chunks E H s n (start + block_len) (drop block_len bytes)))
        (\<lambda>_ w'. on_disk_all H s n (unat (node_size n)) (cw_cache w'))"
    proof (rule calm_jbind [OF stage_block_succeeds [OF E H U less.prems(2) start rev less.prems(1)]])
      fix x w1
      assume calm: "calm w w1" and disk: "\<forall>start'. block_len dvd start' \<longrightarrow> start' < unat (node_size n)
          \<longrightarrow> start' = start \<or> on_disk H s n start' (cw_cache w) \<longrightarrow> on_disk H s n start' (cw_cache w1)"
      have "start' < start \<or> start' = start" if "start' < start + block_len" "block_len dvd start'" for start'
        using that less.prems(2) by (auto simp: dvd_def) (metis Suc_leI block_len_pos(1) less_Suc_eq mult_less_cancel1 mult_Suc_right add.commute)
      then have "on_disk_all H s n (start + block_len) (cw_cache w1)"
        using disk less.prems(4) by (auto simp: on_disk_all_def)
      then show "succeeds calm w1 (stage_chunks E H s n (start + block_len) (drop block_len bytes) w1)
          (\<lambda>_ w'. on_disk_all H s n (unat (node_size n)) (cw_cache w'))"
        using less.prems False calm by (intro less.hyps) (auto simp: protects_def calm_def add.commute diff_less_mono2)
    qed
    then show ?thesis
      using False by (subst stage_chunks.simps) (simp only: chunk if_False)
  qed
qed

lemma stage_content_succeeds:
  assumes "healthy E" "sound_names H origin U" "(s, n) \<in> U" "content_revision n \<noteq> None" "protects H s n (cw_cache w)"
  shows "succeeds calm w (stage_content E H s n (origin s n) w) (\<lambda>_ w'. on_disk_all H s n (unat (node_size n)) (cw_cache w'))"
proof -
  have "length (origin s n) = unat (node_size n)"
    using assms(2,3) by (auto simp: sound_names_def)
  then show ?thesis
    using stage_chunks_succeeds [OF assms, of 0 "origin s n"] assms(4) by (auto simp: stage_content_def on_disk_all_def [of H s n 0])
qed

section \<open>Opening succeeds\<close>

lemma reconcile_files_succeeds: "healthy E \<Longrightarrow> succeeds calm w (reconcile_files E is_uuid indexed names w) (\<lambda>_ _. True)"
proof (induction names arbitrary: w)
  case (Cons name names)
  have "calm w (updated (\<lambda>c. c\<lparr>cc_files := fmdrop name (cc_files c)\<rparr>) (pause E w))" "\<not> ce_remove_fails E (cw_tick w)"
    using Cons.prems by (simp_all add: calm_def healthy_def)
  then show ?case
    using Cons by (auto simp: Let_def intro: succeeds_after(1) intro!: calm_jbind [OF succeeds_calm [OF healthy_steps(3)]])
qed (simp add: succeeds_give)

lemma forget_missing_succeeds: "healthy E \<Longrightarrow> succeeds calm w (forget_missing E ks w) (\<lambda>_ _. True)"
proof (induction ks arbitrary: w)
  case (Cons k ks)
  have "calm w (updated (\<lambda>c. c\<lparr>cc_index := block_forget k (cc_index c)\<rparr>) (pause E w))" "\<not> ce_index_fails E (cw_tick w)"
    using Cons.prems by (simp_all add: calm_def healthy_def)
  then show ?case
    using Cons by (auto simp: Let_def intro: succeeds_after(1))
qed (simp add: succeeds_give)

lemma reconcile_succeeds: "healthy E \<Longrightarrow> succeeds calm w (reconcile E is_uuid names w) (\<lambda>_ _. True)"
  unfolding reconcile_def Let_def
  by (intro calm_jbind [OF reconcile_files_succeeds] calm_jbind [OF forget_missing_succeeds] evict_loop_succeeds)

end
