(* ===== verification/Content_Guarantees.thy ===== *)
theory Content_Guarantees
  imports Content_Progress
begin

text \<open>What the content cache promises, with concrete instances.\<close>

section \<open>Reads\<close>

definition empty_cache :: "nat \<Rightarrow> cache_world" where
  "empty_cache quota = \<lparr>cw_cache = \<lparr>cc_files = fmempty, cc_index = [], cc_quota = quota, cc_protected = {||}, cc_reserved = 0,
     cc_memory = fmempty, cc_failures = fmempty\<rparr>, cw_tick = 0\<rparr>"

lemma empty_cache_ok: "cache_ok H origin U (cw_cache (empty_cache quota))"
  by (simp add: empty_cache_def cache_ok_def)

text \<open>C8: a read that returns, returns exactly the bytes asked for of the revision asked for, bounded by its end.
  Before and between its steps other reads, stagings, evictions, failures and crashes may have left
  anything in the cache that their own steps leave, a torn file included; the provider answers with
  the requested range or an error, and no two different blocks in use share a name.\<close>

theorem read_returns_asked_revision:
  assumes "sound_names H origin U" "lawful H origin U E" "(s, n) \<in> U"
    and "read_content E H s n off len (empty_cache quota) = (Inr bytes, w')"
  shows "bytes = take len (drop off (origin s n))"
  using read_content_yields [OF assms(2,1,3) empty_cache_ok, of quota off len] assms(4) by (simp add: cs.yields_def)

text \<open>C23: every operation of the cache takes only the steps its readers rely on: it publishes or remembers a block
  only with the bytes its name stands for. So reads, stagings, evictions and restarts may
  interleave in any way.\<close>

theorem cache_operations_follow_steps:
  assumes "sound_names H origin U" "lawful H origin U E" "(s, n) \<in> U" "cache_ok H origin U (cw_cache w)"
    and "\<forall>m start len b. ce_range E m start len = Inr b \<longrightarrow> b = take len (drop start (origin s n))"
    and "w' \<in> {snd (read_content E H s n off len w), snd (stage_content E H s n (origin s n) w), snd (stage_session E H identity s n w),
      snd (evict E keep w), snd (reclaim E w), snd (reconcile E is_uuid names w)}"
  shows "(cache_step H origin U)\<^sup>*\<^sup>* (cw_cache w) (cw_cache w') \<and> cache_ok H origin U (cw_cache w')"
proof -
  have "cs.yields H origin U w (stage_session E H identity s n w) (\<lambda>_. True)"
    by (rule stage_session_yields [OF assms(2,1,3,4)]) (simp add: assms(5))
  then have "cs.leads H origin U w w'"
    using assms(6) read_content_yields [OF assms(2,1,3,4), of off len] stage_content_yields [OF assms(2,1,3,4)]
      evict_yields [OF assms(2), of w] reconcile_yields [OF assms(2), of w is_uuid names]
    by (auto simp: cs.yields_def reclaim_def)
  then show ?thesis
    using leads_ok [OF assms(1) _ assms(4)] by (auto simp: cs.leads_def)
qed

text \<open>C21: content that was staged while its blocks are protected can be read afterwards without the provider,
  whatever its fetches answer, and is byte for byte what was staged; staging it may
  have evicted other blocks, never these.\<close>

theorem protected_content_readable_offline:
  assumes "sound_names H origin U" "(s, n) \<in> U" "content_revision n \<noteq> None" "healthy E" "lawful H origin U E"
    and "cache_ok H origin U (cw_cache w)" "protects H s n (cw_cache w)" "no_failures H s n (cw_cache w)"
    and "healthy E'" "\<forall>m. ce_fetch E' m = (\<lambda>_ _ _ _. Inl Unavailable)" "len \<le> 8 * 1024 * 1024"
  shows "\<exists>w' w''. stage_content E H s n (origin s n) w = (Inr (), w')
    \<and> read_content E' H s n off len w' = (Inr (take len (drop off (origin s n))), w'')"
proof -
  obtain w' where w': "stage_content E H s n (origin s n) w = (Inr (), w')" "calm w w'" "on_disk_all H s n (unat (node_size n)) (cw_cache w')"
    using stage_content_succeeds [OF assms(4,1,2,3,7)] by (auto simp: succeeds_def)
  have ok: "cache_ok H origin U (cw_cache w')"
    using leads_ok [OF assms(1) _ assms(6)] stage_content_yields [OF assms(5,1,2,6)] w'(1) by (simp add: cs.yields_def)
  have "obtainable reading E' H s n w'"
    using w'(3) assms(3) no_failures_calm [OF w'(2) assms(8)] by (simp add: obtainable_def on_disk_all_def)
  moreover have "lawful H origin U E'"
    using assms(10) by (intro healthy_lawful assms(9)) simp
  ultimately show ?thesis
    using w'(1) read_content_succeeds [OF assms(9) _ assms(1,2) ok _ assms(11), of reading off] by (auto simp: succeeds_def)
qed

text \<open>C22: a read of at most 8 MiB succeeds when nothing fails around the cache, no fetch of the file has failed
  lately, and the provider returns whole blocks; the loop ends and every turn makes progress.\<close>

theorem read_succeeds:
  assumes "sound_names H origin U" "(s, n) \<in> U" "content_revision n \<noteq> None" "healthy E"
    and "\<forall>m start len. ce_fetch E m s n start len = Inr (take len (drop start (origin s n)))" "lawful H origin U E"
    and "cache_ok H origin U (cw_cache w)" "no_failures H s n (cw_cache w)" "len \<le> 8 * 1024 * 1024"
  shows "\<exists>w'. read_content E H s n off len w = (Inr (take len (drop off (origin s n))), w')"
proof -
  have "length (origin s n) = unat (node_size n)"
    using assms(1,2) by (auto simp: sound_names_def)
  then have "obtainable calm E H s n w"
    using assms(3,5,8) by (auto simp: obtainable_def fetchable_def)
  then show ?thesis
    using read_content_succeeds [OF assms(4,6,1,2,7) _ assms(9), of calm off] by (auto simp: succeeds_def)
qed

section \<open>Eviction\<close>

text \<open>C24: eviction with an intact view of the pins takes the oldest blocks that are neither protected nor the one
  just published, files and rows together, and nothing else; afterwards the rows fit what the
  pins leave of the quota, or only protected blocks and that one are left.\<close>

theorem eviction_spares_protected:
  assumes "undisturbed E" "\<not> ce_poisoned E (Suc (cw_tick w))" "evict E keep w = (Inr (), w')"
    and "distinct (map br_key (cc_index (cw_cache w)))"
  defines "c \<equiv> cw_cache w"
    and "c' \<equiv> cw_cache w'"
    and "spared \<equiv> \<lambda>k. k = keep \<or> k |\<in>| cc_protected (cw_cache w)"
  shows "\<exists>ys zs. oldest_blocks c = ys @ zs \<and> c' = without (filter (\<lambda>k. \<not> spared k) (map fst ys)) c
    \<and> (sum_list (map snd (oldest_blocks c')) \<le> cc_quota c - cc_reserved c \<or> (\<forall>b \<in> set (oldest_blocks c'). spared (fst b)))"
proof -
  let ?ev = "evictions spared (cc_quota c - cc_reserved c) (sum_list (map snd (oldest_blocks c))) (oldest_blocks c)"
  have c': "c' = without ?ev c"
    using evict_effect [OF assms(1,3)] assms(2) by (simp add: c_def c'_def spared_def)
  then have "oldest_blocks c' = stays spared (cc_quota c - cc_reserved c) (sum_list (map snd (oldest_blocks c))) (oldest_blocks c)"
    by (simp add: oldest_blocks_without stays_def)
  moreover have "distinct (map fst (oldest_blocks c))"
    using assms(4) by (simp add: distinct_oldest_blocks c_def)
  ultimately have fit: "sum_list (map snd (oldest_blocks c')) \<le> cc_quota c - cc_reserved c \<or> (\<forall>b \<in> set (oldest_blocks c'). spared (fst b))"
    using evictions_fit [of "oldest_blocks c" _ 0 spared "cc_quota c - cc_reserved c"] by simp
  obtain ys zs where "oldest_blocks c = ys @ zs" "?ev = filter (\<lambda>k. \<not> spared k) (map fst ys)"
    using evictions_prefix by blast
  then show ?thesis
    using fit c' by metis
qed

text \<open>C26: when the lock of the reservations is poisoned, eviction takes every block but the one just published, the
  protected ones included: the quota is taken as reserved, which leaves a budget of zero, and
  the set of protected blocks as empty.\<close>

theorem poisoned_reservations_evict_pinned:
  assumes "undisturbed E" "ce_poisoned E (Suc (cw_tick w))" "evict E keep w = (Inr (), w')"
    and "\<forall>b \<in> set (oldest_blocks (cw_cache w)). 0 < snd b"
    and "k \<in> br_key ` set (cc_index (cw_cache w))" "k |\<in>| cc_protected (cw_cache w)" "k \<noteq> keep"
  shows "fmlookup (cc_files (cw_cache w')) k = None \<and> k \<notin> br_key ` set (cc_index (cw_cache w'))"
proof -
  let ?ev = "evictions (\<lambda>k. k = keep \<or> k |\<in>| {||}) 0 (sum_list (map snd (oldest_blocks (cw_cache w)))) (oldest_blocks (cw_cache w))"
  have "cw_cache w' = without ?ev (cw_cache w)"
    using evict_effect [OF assms(1,3)] assms(2) by simp
  moreover have "k \<in> set ?ev"
    using assms(4,5,7) by (intro evictions_all) (auto simp: oldest_blocks_keys)
  ultimately show ?thesis
    by (auto simp: without_def)
qed

section \<open>Opening\<close>

text \<open>C25: opening a cache on any directory and index leaves a row for exactly the block files that stay, removes the
  temporary files of interrupted publications and touches no other foreign file; what stays
  fits the quota left beside staged windows and pins, or is protected; protected files are kept.\<close>

theorem opening_reconciles:
  assumes "undisturbed E" "new_reserving E is_uuid names quota protected reserved files index = (Inr (), w')"
    and "set names = fset (fmdom files)" "distinct (map br_key index)"
  defines "c \<equiv> cw_cache w'"
  shows "br_key ` set (cc_index c) = {k. valid_key k \<and> k |\<in>| fmdom (cc_files c)}
    \<and> (\<forall>k. junk is_uuid k \<longrightarrow> fmlookup (cc_files c) k = None)
    \<and> (\<forall>k. \<not> junk is_uuid k \<and> (valid_key k \<longrightarrow> k |\<in>| protected) \<longrightarrow> fmlookup (cc_files c) k = fmlookup files k)
    \<and> (sum_list (map snd (oldest_blocks c)) \<le> quota - sg_capacity (staging_new quota) - reserved
       \<or> (\<forall>b \<in> set (oldest_blocks c). fst b |\<in>| protected))"
proof -
  define c0 where "c0 = \<lparr>cc_files = files, cc_index = index, cc_quota = quota - sg_capacity (staging_new quota), cc_protected = protected,
            cc_reserved = reserved, cc_memory = fmempty, cc_failures = fmempty\<rparr>"
  let ?w = "\<lparr>cw_cache = c0, cw_tick = 0\<rparr>"
  have rec: "reconcile E is_uuid names ?w = (Inr (), w')"
    using assms(2) by (auto simp: new_reserving_def Let_def c0_def split: if_splits)
  obtain c1 where c1: "c1 = c0\<lparr>cc_files := fmdrop_set (set (filter (junk is_uuid) names)) (cc_files c0), cc_index := cc_index c1\<rparr>"
      and keys: "br_key ` set (cc_index c1) = set (filter valid_key names)" and dist: "distinct (map br_key (cc_index c1))"
      and c: "c = without (evictions (\<lambda>k. k |\<in>| protected) (cc_quota c0 - reserved) (sum_list (map snd (oldest_blocks c1))) (oldest_blocks c1)) c1"
    using reconcile_effect [OF assms(1) rec] assms(4) by (auto simp: c_def c0_def)
  let ?ev = "evictions (\<lambda>k. k |\<in>| protected) (cc_quota c0 - reserved) (sum_list (map snd (oldest_blocks c1))) (oldest_blocks c1)"
  have ev: "valid_key k" "\<not> k |\<in>| protected" if "k \<in> set ?ev" for k
    using that evictions_known [of _ _ _ "oldest_blocks c1"] keys evictions_not_spared [OF that] by (auto simp: oldest_blocks_keys)
  have files1: "fmlookup (cc_files c1) k = (if junk is_uuid k then None else fmlookup files k)" for k
    using assms(3) by (subst c1) (auto simp: c0_def fmlookup_dom_iff)
  have files: "fmlookup (cc_files c) k = (if junk is_uuid k \<or> k \<in> set ?ev then None else fmlookup files k)" for k
    by (simp add: c without_def files1)
  have "br_key ` set (cc_index c) = br_key ` set (cc_index c1) - set ?ev"
    by (auto simp: c without_def)
  then have rows: "br_key ` set (cc_index c) = {k. valid_key k \<and> k |\<in>| fmdom (cc_files c)}"
    using keys assms(3) by (auto simp: files junk_def fmlookup_dom_iff split: if_splits)
  have "sum_list (map snd (oldest_blocks c)) \<le> cc_quota c0 - reserved \<or> (\<forall>b \<in> set (oldest_blocks c). fst b |\<in>| protected)"
    using evictions_fit [of "oldest_blocks c1" _ 0 "\<lambda>k. k |\<in>| protected" "cc_quota c0 - reserved"] dist
    by (simp add: c oldest_blocks_without stays_def distinct_oldest_blocks)
  then show ?thesis
    using rows ev by (auto simp: files c0_def)
qed

section \<open>Staged windows\<close>

text \<open>The adapter hands a window over in chunks; an error of the sink ends the transfer.\<close>

fun write_window :: "(string \<Rightarrow> string) \<Rightarrow> string list \<Rightarrow> writer \<Rightarrow> (provider_error + unit) \<times> writer" where
  "write_window digest [] w = give () w"
| "write_window digest (chunk # chunks) w = jbind (write_chunk digest None chunk w) (\<lambda>_. write_window digest chunks)"

lemma write_window_holds:
  "write_window digest chunks w = (Inr (), w') \<Longrightarrow> writer_holds digest bs w \<Longrightarrow>
     writer_holds digest (bs @ concat chunks) w' \<and> wr_length w' = wr_length w"
proof (induction chunks arbitrary: bs w)
  case (Cons chunk chunks)
  then obtain w1 where w1: "write_chunk digest None chunk w = (Inr (), w1)" "write_window digest chunks w1 = (Inr (), w')"
    by (auto simp: jbind_Inr)
  show ?case
    using write_chunk_holds [OF Cons.prems(2) w1(1)] Cons.IH [OF w1(2), of "bs @ chunk"] by simp
qed simp

text \<open>C27: a window that was written completely serves each of its blocks as it was written, and has no other bytes
  than those written; what is served after its file was changed behind it has the digest of
  the block that was written.\<close>

theorem staged_window_round_trip:
  assumes "write_window digest chunks (writer_new len) = (Inr (), wr)" "finish digest start wr = Inr win"
    and "start \<le> off" "(off - start) mod block_len = 0" "off < start + len"
  shows "length (concat chunks) = len
    \<and> window_read digest Some off (min (len - (off - start)) block_len) win = Inr (take block_len (drop (off - start) (concat chunks)))
    \<and> (\<forall>fault n bytes. window_read digest fault off n win = Inr bytes \<longrightarrow> digest bytes = digest (take block_len (drop (off - start) (concat chunks))))"
proof -
  have holds: "writer_holds digest (concat chunks) wr" "wr_length wr = len"
    using write_window_holds [OF assms(1) writer_new_holds] by (simp_all add: writer_new_def)
  note win = finish_holds [OF holds(1) assms(2)]
  have len: "length (concat chunks) = len"
    using holds assms(2) by (simp add: finish_def writer_holds_def hashed_def split: if_splits)
  have slice: "take (min (length bs - i) block_len) (drop i bs) = take block_len (drop i bs)" for bs :: string and i
    by (simp add: min_def)
  have "digest bytes = digest (take block_len (drop (off - start) (concat chunks)))" if "window_read digest fault off n win = Inr bytes" for fault n bytes
    using window_read_digest(1) [OF win(1) that] unfolding window_read_digest(3) [OF win(1) that] win(2) slice .
  moreover have "window_read digest Some off (min (len - (off - start)) block_len) win = Inr (take block_len (drop (off - start) (concat chunks)))"
    using window_read_serves [OF win(1), of off] assms(3-5) unfolding win(2) len by blast
  ultimately show ?thesis
    using len by blast
qed

section \<open>Sample caches\<close>

definition demo_keys :: cache_host where
  "demo_keys = \<lparr>ch_digest = (\<lambda>x. take 32 (x @ replicate 32 (CHR 0x00))), ch_key = (\<lambda>_. replicate 64 (CHR ''a''))\<rparr>"

definition demo_scope :: scope where
  "demo_scope = \<lparr>account = ''a'', provider = ''p'', collection = ''c''\<rparr>"

definition demo_cached_file :: node where
  "demo_cached_file = \<lparr>node_id = ''f'', parent_id = None, node_name = ''f'', node_kind = File, node_size = 4, modified_unix = 0,
     etag = Some ''e'', content_version = None, node_target = None, package = False\<rparr>"

definition demo_origin :: "scope \<Rightarrow> node \<Rightarrow> string" where
  "demo_origin s n = ''abcd''"

definition demo_cache_env :: cache_env where
  "demo_cache_env = \<lparr>ce_others = (\<lambda>_ c. c), ce_cancelled = (\<lambda>_. False), ce_poisoned = (\<lambda>_. False), ce_now = (\<lambda>m. m),
     ce_stamp = (\<lambda>_. 5), ce_index_fails = (\<lambda>_. False), ce_unreadable = (\<lambda>_. False), ce_write_fails = (\<lambda>_. False),
     ce_remove_fails = (\<lambda>_. False), ce_fetch = (\<lambda>_ _ _ start len. Inr (take len (drop start ''abcd''))),
     ce_range = (\<lambda>_ start len. Inr (take len (drop start ''abcd'')))\<rparr>"

definition demo_offline :: cache_env where
  "demo_offline = demo_cache_env\<lparr>ce_fetch := (\<lambda>_ _ _ _ _. Inl Unavailable)\<rparr>"

abbreviation demo_files :: "(scope \<times> node) set" where
  "demo_files \<equiv> {(demo_scope, demo_cached_file)}"

lemma demo_names: "sound_names demo_keys demo_origin demo_files"
proof -
  have "start = 0" if "block_len dvd start" "start < 4" for start
    using that by (auto simp: block_len_def dest!: dvd_imp_le)
  then show ?thesis
    by (auto simp: sound_names_def names_block_def demo_origin_def demo_cached_file_def demo_keys_def)
qed

lemma demo_healthy: "healthy demo_cache_env" "healthy demo_offline"
  by (simp_all add: healthy_def undisturbed_def demo_cache_env_def demo_offline_def)

lemma demo_lawful: "lawful demo_keys demo_origin demo_files demo_cache_env"
  by (rule healthy_lawful [OF demo_healthy(1)]) (simp add: demo_cache_env_def demo_origin_def)

lemma demo_revision: "content_revision demo_cached_file \<noteq> None"
  by (simp add: content_revision_def nonempty_tag_def demo_cached_file_def)

lemma demo_no_failures: "no_failures H s n (cw_cache (empty_cache quota))"
  by (simp add: no_failures_def empty_cache_def)

theorem read_succeeds_witness:
  "\<exists>w'. read_content demo_cache_env demo_keys demo_scope demo_cached_file 1 2 (empty_cache 100) = (Inr ''bc'', w')"
  using read_succeeds [OF demo_names _ demo_revision demo_healthy(1) _ demo_lawful empty_cache_ok demo_no_failures, of demo_scope 2 1 100]
  by (simp add: demo_origin_def demo_cache_env_def)

theorem read_returns_asked_revision_witness:
  "\<exists>bytes w'. read_content demo_cache_env demo_keys demo_scope demo_cached_file 1 2 (empty_cache 100) = (Inr bytes, w') \<and> bytes = ''bc''"
proof -
  have "obtainable calm demo_cache_env demo_keys demo_scope demo_cached_file (empty_cache 100)"
    using demo_revision demo_no_failures
    by (auto simp: obtainable_def fetchable_def demo_cache_env_def demo_cached_file_def)
  then obtain bytes w' where "read_content demo_cache_env demo_keys demo_scope demo_cached_file 1 2 (empty_cache 100) = (Inr bytes, w')"
    using read_content_succeeds [OF demo_healthy(1) demo_lawful demo_names _ empty_cache_ok, of demo_scope demo_cached_file calm 100 2 1] by (auto simp: succeeds_def)
  then show ?thesis
    using read_returns_asked_revision [OF demo_names demo_lawful, of demo_scope demo_cached_file 1 2 100 bytes w'] by (simp add: demo_origin_def)
qed

theorem cache_operations_follow_steps_witness:
  "(cache_step demo_keys demo_origin demo_files)\<^sup>*\<^sup>* (cw_cache (empty_cache 100))
     (cw_cache (snd (stage_content demo_cache_env demo_keys demo_scope demo_cached_file ''abcd'' (empty_cache 100))))"
  using cache_operations_follow_steps [OF demo_names demo_lawful _ empty_cache_ok, of demo_scope demo_cached_file
      "snd (stage_content demo_cache_env demo_keys demo_scope demo_cached_file ''abcd'' (empty_cache 100))" 100]
  by (simp add: demo_origin_def demo_cache_env_def)

definition demo_pinned :: cache_world where
  "demo_pinned = updated (\<lambda>c. c\<lparr>cc_protected := {|replicate 64 (CHR ''a'')|}\<rparr>) (empty_cache 100)"

theorem protected_content_readable_offline_witness:
  "\<exists>w' w''. stage_content demo_cache_env demo_keys demo_scope demo_cached_file ''abcd'' demo_pinned = (Inr (), w')
     \<and> read_content demo_offline demo_keys demo_scope demo_cached_file 0 3 w' = (Inr ''abc'', w'')"
proof -
  have "cache_ok demo_keys demo_origin demo_files (cw_cache demo_pinned)" "protects demo_keys demo_scope demo_cached_file (cw_cache demo_pinned)"
    "no_failures demo_keys demo_scope demo_cached_file (cw_cache demo_pinned)"
    by (auto simp: demo_pinned_def empty_cache_def cache_ok_def protects_def block_key_def demo_keys_def no_failures_def)
  then show ?thesis
    using protected_content_readable_offline [OF demo_names _ demo_revision demo_healthy(1) demo_lawful _ _ _ demo_healthy(2), of demo_scope demo_pinned 3 0]
    by (simp add: demo_origin_def demo_offline_def)
qed

definition demo_rows :: "block_row list" where
  "demo_rows = [\<lparr>br_key = ''x'', br_size = 3, br_touched = 2\<rparr>, \<lparr>br_key = ''y'', br_size = 4, br_touched = 1\<rparr>]"

definition demo_full :: cache_world where
  "demo_full = updated (\<lambda>c. c\<lparr>cc_quota := 5, cc_protected := {|''y''|}, cc_index := demo_rows,
     cc_files := fmap_of_list [(''x'', ''1''), (''y'', ''2'')]\<rparr>) (empty_cache 5)"

theorem eviction_spares_protected_witness:
  "\<exists>w'. evict demo_cache_env [] demo_full = (Inr (), w') \<and> fmlookup (cc_files (cw_cache w')) ''y'' = Some ''2''
     \<and> fmlookup (cc_files (cw_cache w')) ''x'' = None"
proof -
  obtain w' where w': "evict demo_cache_env [] demo_full = (Inr (), w')"
    using evict_succeeds [OF demo_healthy(1), of demo_full "[]"] by (auto simp: succeeds_def)
  have c: "oldest_blocks (cw_cache demo_full) = [(''y'', 4), (''x'', 3)]" "cc_quota (cw_cache demo_full) = 5" "cc_reserved (cw_cache demo_full) = 0"
    "cc_protected (cw_cache demo_full) = {|''y''|}" "distinct (map br_key (cc_index (cw_cache demo_full)))"
    "fmlookup (cc_files (cw_cache demo_full)) ''y'' = Some ''2''"
    by code_simp+
  have "\<not> ce_poisoned demo_cache_env (Suc (cw_tick demo_full))"
    by (simp add: demo_cache_env_def)
  from eviction_spares_protected [OF healthy_undisturbed [OF demo_healthy(1)] this w' c(5)]
  obtain ys zs where e: "[(''y'', 4 :: nat), (''x'', 3)] = ys @ zs" "cw_cache w' = without (filter (\<lambda>k. \<not> (k = [] \<or> k |\<in>| {|''y''|})) (map fst ys)) (cw_cache demo_full)"
      "sum_list (map snd (oldest_blocks (cw_cache w'))) \<le> 5 - 0 \<or> (\<forall>b \<in> set (oldest_blocks (cw_cache w')). fst b = [] \<or> fst b |\<in>| {|''y''|})"
    unfolding c by blast
  then have "ys = [(''y'', 4), (''x'', 3)]"
    by (auto simp: Cons_eq_append_conv oldest_blocks_without c)
  then show ?thesis
    using e(2) w' c(6) by (simp add: without_def)
qed

theorem poisoned_reservations_evict_pinned_witness:
  "\<exists>w'. evict (demo_cache_env\<lparr>ce_poisoned := \<lambda>_. True\<rparr>) [] demo_full = (Inr (), w')
     \<and> ''y'' |\<in>| cc_protected (cw_cache demo_full) \<and> fmlookup (cc_files (cw_cache w')) ''y'' = None"
proof -
  let ?E = "demo_cache_env\<lparr>ce_poisoned := \<lambda>_. True\<rparr>"
  have "\<not> isl (fst (evict ?E [] demo_full))" "list_all (\<lambda>b. 0 < snd b) (oldest_blocks (cw_cache demo_full))"
    "''y'' |\<in>| cc_protected (cw_cache demo_full)" "''y'' \<in> set (map br_key (cc_index (cw_cache demo_full)))"
    by code_simp+
  moreover from this(1) obtain w' where "evict ?E [] demo_full = (Inr (), w')"
    by (cases "evict ?E [] demo_full"; cases "fst (evict ?E [] demo_full)") auto
  moreover have "undisturbed ?E"
    by (simp add: undisturbed_def demo_cache_env_def)
  ultimately show ?thesis
    using poisoned_reservations_evict_pinned [of ?E demo_full "[]" w' "''y''"] by (simp add: list_all_iff)
qed

definition demo_names_found :: "string list" where
  "demo_names_found = [replicate 64 (CHR ''b''), replicate 64 (CHR ''b'') @ ''.u.tmp'', ''note'']"

theorem opening_reconciles_witness:
  "\<exists>w'. new_reserving demo_cache_env (\<lambda>u. u = ''u'') demo_names_found 9000000 {||} 0 (fmap_of_list (map (\<lambda>k. (k, ''z'')) demo_names_found)) demo_rows = (Inr (), w')
     \<and> br_key ` set (cc_index (cw_cache w')) = {k. valid_key k \<and> k |\<in>| fmdom (cc_files (cw_cache w'))}"
proof -
  let ?files = "fmap_of_list (map (\<lambda>k. (k, ''z'')) demo_names_found)"
  obtain w' where w': "new_reserving demo_cache_env (\<lambda>u. u = ''u'') demo_names_found 9000000 {||} 0 ?files demo_rows = (Inr (), w')"
    using reconcile_succeeds [OF demo_healthy(1)] by (fastforce simp: new_reserving_def Let_def block_len_def succeeds_def)
  have "set demo_names_found = fset (fmdom ?files)" "distinct (map br_key demo_rows)"
    by (simp_all add: image_image fset_of_list.rep_eq demo_rows_def)
  then show ?thesis
    using opening_reconciles [OF healthy_undisturbed [OF demo_healthy(1)] w'] w' by blast
qed

theorem staged_window_round_trip_witness:
  "\<exists>wr win. write_window id [''ab'', ''cd''] (writer_new 4) = (Inr (), wr) \<and> finish id 0 wr = Inr win
     \<and> window_read id Some 0 4 win = Inr ''abcd''"
proof -
  define wr where "wr = \<lparr>wr_file = ''abcd'', wr_length = 4, wr_written = 4, wr_hash = ''abcd'', wr_hashes = []\<rparr>"
  define win where "win = \<lparr>win_file = ''abcd'', win_start = 0, win_length = 4, win_hashes = [''abcd'']\<rparr>"
  have "write_window id [''ab'', ''cd''] (writer_new 4) = (Inr (), wr)"
    by (simp add: wr_def writer_new_def write_chunk_def chunk_limit_def write_at_def hash_chunk.simps block_len_def Let_def)
  moreover have "finish id 0 wr = Inr win"
    by (simp add: finish_def wr_def win_def block_len_def)
  ultimately show ?thesis
    using staged_window_round_trip [of id "[''ab'', ''cd'']" 4 wr 0 win 0] by (simp add: block_len_def)
qed


end
