(* ===== verification/Spec2Isabelle.thy ===== *)
theory Spec2Isabelle
  imports Store_Index Store_Pool Service_Activity Service_Jobs Worker_Guarantees Content_Guarantees
begin

text \<open>
  A verification library of Cirrove, which presents cloud drives as local folders.

  \<^bold>\<open>The program.\<close> Provider adapters (\<open>src/crates/cirrove-onedrive\<close>,
  \<open>cirrove-googledrive\<close>, \<open>cirrove-icloud\<close>) translate HTTP APIs into the contracts of
  \<open>cirrove-core\<close>: scopes, nodes, pages of changes, upload and mutation requests with
  their receipts. \<open>cirrove-store\<close> keeps what is known of each drive in SQLite: a
  baseline delivered by the change feed in rounds of pages, and above it the
  observations foreground requests make, each with a revision of one clock that
  decides which reply is newer. \<open>cirrove-service\<close> runs the daemon: it refreshes
  directories in use, runs the work people ask for, serves the file system from the
  store, and writes every save and every change of the tree to a journal before a
  worker sends it; what is read is kept in a cache of blocks on disk. The library models
  the contracts, the store, the journal, the two workers that send what the journal holds,
  the block cache, and two state machines of the service that decide what is fetched
  when and what a person is told.

  \<^bold>\<open>Theories, in the order they build on each other.\<close>

  \<^item> \<open>Cirrove_Prelude\<close>: error results, tables keyed by scope and identity, ordered
    listings, fallible operations on a state (\<open>jbind\<close>, \<open>give\<close>, \<open>fail\<close>), and the locales
    \<open>union_rows\<close>, \<open>machine\<close>, \<open>evolving_machine\<close> and \<open>stepwise\<close>. A machine is an interpreter of
    operations with a predicate every operation keeps; the components interpret it, which
    lifts the predicate to whole runs. \<open>stepwise\<close> composes operations each of which takes
    only steps of a given relation; the workers and the cache interpret it.

  \<^item> \<open>Core_Types\<close> (\<open>cirrove-core/src/lib.rs\<close>, \<open>reads.rs\<close>, \<open>notifications.rs\<close>): the data
    model, content revisions, read identities, change hints and the request budget,
    whose semaphores are counters and whose fairness is an argument.
    \<open>Core_Mutation\<close> (\<open>mutation.rs\<close>): validation of namespace changes, which receipts
    acknowledge them, and attestations of unchanged content. \<open>Core_Upload\<close>
    (\<open>upload.rs\<close>, \<open>upload/representation.rs\<close>): upload requests, package identities and
    representations, names of native packages.

  \<^item> \<open>Store_State\<close> (\<open>cirrove-store/src/lib.rs\<close>, \<open>observations.rs\<close>): the tables of the schema as
    one record \<open>db\<close> of finite maps, the revision clock, marks, and the resolution of
    an item from observed absence, observation and baseline; \<open>store_ok\<close> is the
    well-formedness every operation keeps. \<open>Store_Directories\<close> (\<open>directories.rs\<close>): the two
    listing queries and the choice between them, lookups, snapshots.
    \<open>Store_Observations\<close> (\<open>observations.rs\<close>): tickets, the test whether a reply is still
    current, publication of nodes, listings and absences, and the two handoffs that
    settle a replaced document; \<open>Observation_Safety\<close> holds their lemmas. \<open>Store_Feed\<close>
    (\<open>lib.rs\<close>, begin, begin_snapshot and stage) with the specification of a feed as a
    baseline and a pending round, and \<open>Feed_Safety\<close>. \<open>Store_Publication\<close>
    (\<open>observations/directory_publication.rs\<close>, \<open>directory_sources.rs\<close>): listings staged page
    by page and published in bulk, and source bindings. \<open>Store_Changes\<close>
    (\<open>metadata_changes.rs\<close>): paging through invalidations. \<open>Store_World\<close>: the machine of all
    these calls, in which tickets and builders are held while other calls run.
    \<open>Store_Guarantees\<close>: what the store promises, with concrete instances.

  \<^item> \<open>Store_Pins\<close> (\<open>pins.rs\<close>, \<open>blocks.rs\<close>, and \<open>pinnable_budget\<close> of \<open>cirrove-service/src/engine.rs\<close>):
    items kept offline, their budget and the blocks they protect. \<open>Store_Index\<close>
    (\<open>lib.rs\<close>): whole-scope readers, ancestry chains, the recursive shortcut query, inodes,
    health and subscriptions. \<open>Store_Pool\<close> (\<open>lib.rs\<close>): the pool of connections.

  \<^item> \<open>Service_Activity\<close> (\<open>cirrove-service/src/activity.rs\<close>): revalidation of directories in
    use. \<open>Service_Jobs\<close> (\<open>jobs.rs\<close>, \<open>jobs/native_trash.rs\<close>, \<open>jobs/native_abandon.rs\<close>): the
    register of long-running work; its locale \<open>job_contract\<close> states what a property of
    single jobs has to satisfy to hold of the register, and is interpreted three times.

  \<^item> \<open>Journal_State\<close> (\<open>cirrove-service/src/journal.rs\<close>, \<open>journal/barriers.rs\<close>, \<open>journal/generations.rs\<close>):
    the journal's tables and spool directory as one record, upload and mutation records
    with their states, the queue, prerequisites and successors; an operation returns a
    value or an error together with the journal it leaves, and \<open>transaction\<close> undoes a
    failed one. \<open>Journal_Writes\<close> (the same files, \<open>journal/mutations.rs\<close>, \<open>journal/rescue.rs\<close>,
    \<open>journal/rescue/chain.rs\<close>): accepting saves and namespace changes, also behind earlier
    ones; resolving the base of a save once its predecessor is confirmed; claims,
    sessions, deferral, acknowledgement, verification and retry; restart; payload
    retention; keeping both versions of a conflicting save. \<open>Journal_Spec\<close>: the
    specification, a step relation in which a record moves along the edges a state allows,
    and some moves need a permit (a claim's token, a person's or provider's word that
    nothing was committed, a rescue). \<open>Journal_Invariants\<close>: the well-formedness every step
    keeps. \<open>Journal_Refinement\<close>: each operation is a sequence of steps with the permits it
    issues. \<open>Journal_Facts\<close>: the locale \<open>journal_fact\<close> lifts a property of single steps to
    runs; its seven interpretations are the facts the guarantees rest on.
    \<open>Journal_Guarantees\<close>: what the journal promises, with concrete instances.

  \<^item> \<open>Worker_Transfers\<close> (\<open>cirrove-service/src/transfers.rs\<close>): one run of the worker that uploads
    saves, from the claim over the turns of its loop to the recorded result.
    \<open>Worker_Mutations\<close> (\<open>mutations.rs\<close>): the same for namespace changes. What a worker does
    not decide is an environment asked at ticks: cancellation, the clock, tokens, the
    calls that reach the journal between its own, faults of locks, threads, vault and
    files, and every answer of the provider; a crash is an environment that cancels
    everything from some tick on. A world holds the journal and a log of what happened.
    \<open>Worker_Protocol\<close> states what a worker may do next, from its log alone, as a step
    relation. \<open>Worker_Refinement\<close> and the end
    of \<open>Worker_Mutations\<close> show that both workers follow theirs; \<open>Worker_Traces\<close> holds the
    invariants of such logs, \<open>Worker_Outcomes\<close> the bounds on requests and what a run leaves
    in the journal, \<open>Worker_Guarantees\<close> what the workers promise, with sample runs.

  \<^item> \<open>Content_Windows\<close> (\<open>cirrove-service/src/content/windows.rs\<close>): the budget of staged windows,
    the writer that hashes a window block by block, and its verified reads.
    \<open>Content_Cache\<close> (\<open>content.rs\<close>): the block cache as a directory of files, the index of
    \<open>Store_Pins\<close>, memory, recent failures and what the pins claim; reads, fetches,
    publication, staging, eviction, and the reconciliation at the start. An environment
    answers at every point where the code can be interrupted: it interleaves what other
    tasks do to the cache, and decides cancellation, poisoned locks, the clock, faults of
    disk and index, and the provider's bytes. \<open>Content_Safety\<close>: the steps tasks may take on
    the shared cache, and that every operation takes only these. \<open>Content_Eviction\<close>: the
    exact effect of eviction and reconciliation. \<open>Content_Progress\<close>: when operations succeed.
    \<open>Content_Guarantees\<close>: what the cache promises, with sample caches.

  \<^bold>\<open>What is shown.\<close> Any sequence of store calls keeps the database well formed, with every
  outstanding ticket issued by it. A reply that was overtaken never lands, of crossing
  listings the first to be published wins, and a completed round supersedes older
  replies. A published listing is served back exactly; bulk publication is the plain
  publication; lookups agree with listings; the feed refines its specification on
  success and on every error; draining invalidations ends and misses none. Pins stay
  within their budget and are refused exactly when they do not fit. Inodes are stable
  and unique across interleaved allocators; an ancestry chain is returned exactly when
  it exists; connections are never shared and their counts are those of the open stores.
  Refreshes are spaced, bounded and chosen by due time, and back off for the whole
  account when the provider asks. A stop that was accepted is not overwritten by a
  late receipt, and receipts appear only on success with the identities they were
  queued for. The contracts accept only receipts that name what was asked.

  Whatever sequence of journal operations runs, it refines the specification and keeps the
  tables well formed. A save that was accepted keeps its record and its bytes until it
  is uploaded or rescued; a save is claimed only when every earlier operation on its
  resources is confirmed, and the oldest such save is claimed; an operation that may
  have reached the provider is never sent again without a permit for it; after a restart
  no attempt made before it can change the journal; confirmed operations have their
  receipts and stay final; the spool stays within its quota and a refused save adds
  nothing; a rescue keeps the newest bytes and closes every conflicting save behind it.

  Over any runs of the workers, any answers, faults and interleaved calls that do not
  themselves declare the operation uncommitted, a save is begun a second time, and a
  change sent a second time, only after evidence that nothing was committed. A
  checkpoint is in the vault and its session in the journal before a request uses it.
  The bytes of a part are the range asked for of the bytes that were accepted. An
  attempt ends after at most seven requests more than the save has bytes. A result a
  worker reports is what the journal holds, with the attempt given back.

  A read through the block cache returns exactly the range asked for of the revision asked
  for, however reads, stagings, evictions, restarts and torn files interleave with it; it
  succeeds when nothing around it fails, and without the provider when the content was
  staged under protection. Eviction takes the oldest unprotected blocks until the rest
  fits; with a poisoned view of the pins it takes the protected ones too. Opening a cache
  brings directory and index into agreement. A staged window serves what was written.

  \<^bold>\<open>Modelling choices.\<close> SQL statements are written as operations on finite maps and
  ordered lists with the same \<open>WHERE\<close>, \<open>ORDER BY\<close> and conflict clauses; a transaction is one
  step, and a failed one leaves the state unchanged. Revisions, row ids and sums keep
  SQLite's 64-bit bounds and its errors; byte counts are words of their width where the
  code computes with them. JSON text appears only through its length and through a
  codec with the law that decoding inverts encoding. Cancellation is an oracle asked
  wherever the code polls it. Clocks are inputs. Hash tables iterate in an order given
  by an argument (locale \<open>iteration\<close>). Loops of the code are structural recursions: the walk to
  a root has the 128 steps the code allows; the shortcut query is given one step more
  than there are rows, which no walk without repetition exceeds; draining
  invalidations is given one step per mark, and every page makes progress; the walks along
  a chain of saves have the 10,000 steps the code allows and fail as it does beyond them,
  and a resolving pass takes the 256 rows the code takes.

  The journal model covers saves of files and changes of the tree that own no object of
  the journal's local namespace: the tables of provisional identities, replacements,
  working files and destinations are empty, so the calls that bind, confirm or resolve
  such objects do nothing, the receipts of packages and identity handoffs are refused, and
  no recovery location can be reserved. Rust's JSON columns are the records themselves.
  The digest of a payload, the identifiers the journal draws, the clock, and the chunks
  of a payload with their read errors are arguments. The loop of the transfer worker
  needs no fuel: each turn uses up one of two permissions, one of four commits, or part of
  the range. The vault's entries are answers of the environment, so a lost or foreign
  checkpoint is covered; a provider call past its deadline answers with uncertainty. An
  issue shown to a person is the error, or one of the worker's four sentences.

  In the cache model a file is its bytes and lengths are natural numbers, below the
  code's 64-bit sizes. The digest and the name of a block are arguments; a property
  that needs it assumes that no two different blocks in use share a name and that a file
  with a matching digest under that name is that block. The gates, the two semaphores and
  the publication lock only make tasks wait: the environment may interleave anything they
  allow. A publication that fails leaves no file, as its temporary file is removed; one
  that dies with the process leaves it to the next opening. The loops need no fuel: each
  turn of a read advances, and staging walks the blocks of the file.

  \<^bold>\<open>Not modelled.\<close> SQLite itself, its migrations and start-up; the write gates, which are
  mutexes; the HTTP adapters, OAuth and keyring code; the FUSE layer, whose behaviour lies
  in I/O; the pool of open provider reads behind a fetch of the cache (\<open>content/sessions.rs\<close>),
  whose answer is the environment's; the journal's local namespace, replacements, working
  files, package payloads and settlements; the tasks that start the workers; the
  desktop application, the command line, probes and validators.
\<close>

end
